(* ===== verification/Prelude.thy ===== *)
theory Prelude
  imports
    Complex_Main
    "HOL-Library.Word"
    "HOL-Library.Sublist"
    "HOL-Library.Char_ord"
    "HOL-Library.List_Lexorder"
    "HOL-Library.Multiset"
begin

text \<open>
  Shared vocabulary of the development: the error values of the program, results as sums
  (\<open>Inl\<close> an error, \<open>Inr\<close> a value), byte strings with the tests of Go's \<^verbatim>\<open>strings\<close> package that
  the source uses, decimal printing, and the generic lemmas and fact collections the component
  theories rest on. Strings are byte lists, as Go strings are, and they are ordered
  lexicographically by byte.
\<close>

named_theorems result_simps \<open>computation rules of the result type\<close>
named_theorems str_simps \<open>facts on separators, prefixes and suffixes of strings\<close>

subsection \<open>Errors\<close>

text \<open>
  One constructor per error the program returns. \<open>ErrWrap s e\<close> is \<^verbatim>\<open>fmt.Errorf("s: %w", e)\<close>;
  \<open>ErrDB s\<close> stands for every error of the database other than \<open>ErrKeyNotFound\<close>; \<open>ErrMarshal\<close> and
  \<open>ErrUnmarshal\<close> are the failures of \<^verbatim>\<open>encoding/json\<close>.
\<close>

datatype error =
    ErrKeyNotFound
  | ErrDB string
  | ErrMarshal
  | ErrUnmarshal
  | ErrWrap string error
  | ErrJobExists string
  | ErrJobNotFound string
  | ErrTaskExists string
  | ErrTaskNotFound string
  | ErrOccurrenceExists string
  | ErrOccurrenceNotFound string
  | ErrTaskRunExists string
  | ErrTaskRunNotFound string
  | ErrAttemptExists string
  | ErrAttemptNotFound string
  | ErrTooManyIterations
  | ErrTooManyOccurrences
  | ErrInvalidTimezone string
  | ErrInvalidCron string
  | ErrIntervalNotPositive
  | ErrOnceExecuted
  | ErrTaskFailFast string
  | ErrCanceled
  | ErrDeadlineExceeded
  | ErrJobRegistered string
  | ErrJobNotRegistered string
  | ErrVersionMismatch int int
  | ErrSchedulerRunning

type_synonym 'a result = "error + 'a"

fun bindE :: "'a result \<Rightarrow> ('a \<Rightarrow> 'b result) \<Rightarrow> 'b result" where
  "bindE (Inl e) f = Inl e"
| "bindE (Inr x) f = f x"

subsection \<open>Strings\<close>

text \<open>\<^verbatim>\<open>strings.Contains\<close>, \<^verbatim>\<open>strings.HasSuffix\<close> and \<^verbatim>\<open>strings.Count\<close> with a one-byte separator.\<close>

definition Contains :: "string \<Rightarrow> string \<Rightarrow> bool" where
  "Contains s t \<longleftrightarrow> sublist t s"

definition HasSuffix :: "string \<Rightarrow> string \<Rightarrow> bool" where
  "HasSuffix s t \<longleftrightarrow> suffix t s"

definition Count :: "string \<Rightarrow> char \<Rightarrow> nat" where
  "Count s c = count_list s c"

definition slash_free :: "string \<Rightarrow> bool" where
  "slash_free s \<longleftrightarrow> CHR ''/'' \<notin> set s"

text \<open>Decimal printing, the verb \<^verbatim>\<open>%d\<close> of package \<^verbatim>\<open>fmt\<close>.\<close>

definition digit_char :: "nat \<Rightarrow> char" where
  "digit_char d = ''0123456789'' ! (d mod 10)"

definition decimal_digits :: "char set" where
  "decimal_digits = set ''0123456789''"

fun decimal_nat :: "nat \<Rightarrow> string" where
  "decimal_nat n =
     (if n < 10 then [digit_char n] else decimal_nat (n div 10) @ [digit_char (n mod 10)])"

declare decimal_nat.simps [simp del]

definition decimal :: "int \<Rightarrow> string" where
  "decimal i = (if i < 0 then CHR ''-'' # decimal_nat (nat (- i)) else decimal_nat (nat i))"

text \<open>Fixed-width printing with leading zeros: the last \<open>w\<close> decimal digits of \<open>n\<close>.\<close>

fun padded :: "nat \<Rightarrow> nat \<Rightarrow> string" where
  "padded 0 n = []"
| "padded (Suc w) n = padded w (n div 10) @ [digit_char (n mod 10)]"

subsection \<open>Results\<close>

lemma bindE_Inr_iff [result_simps]: "bindE r f = Inr y \<longleftrightarrow> (\<exists>x. r = Inr x \<and> f x = Inr y)"
  by (cases r) auto

lemma bindE_Inl_iff [result_simps]:
  "bindE r f = Inl e \<longleftrightarrow> r = Inl e \<or> (\<exists>x. r = Inr x \<and> f x = Inl e)"
  by (cases r) auto

subsection \<open>Separators\<close>

lemma append_sep_inject [str_simps]:
  assumes "c \<notin> set xs" and "c \<notin> set ys"
  shows "xs @ c # us = ys @ c # vs \<longleftrightarrow> xs = ys \<and> us = vs"
  using assms
proof (induction xs arbitrary: ys)
  case Nil
  then show ?case by (cases ys) auto
next
  case (Cons x xs)
  then show ?case by (cases ys) auto
qed

lemma append_sep_inject_end:
  assumes "c \<notin> set us" and "c \<notin> set vs"
  shows "xs @ c # us = ys @ c # vs \<longleftrightarrow> xs = ys \<and> us = vs"
proof -
  have "xs @ c # us = ys @ c # vs \<longleftrightarrow> rev (xs @ c # us) = rev (ys @ c # vs)"
    by (rule rev_is_rev_conv [symmetric])
  also have "\<dots> \<longleftrightarrow> rev us @ c # rev xs = rev vs @ c # rev ys"
    by (simp only: rev_append rev.simps append_assoc append_Cons append_Nil)
  also have "\<dots> \<longleftrightarrow> rev us = rev vs \<and> rev xs = rev ys"
    using assms by (intro append_sep_inject) auto
  finally show ?thesis by auto
qed

lemma append_same_length_inject:
  "length us = length vs \<Longrightarrow> xs @ us = ys @ vs \<longleftrightarrow> xs = ys \<and> us = vs"
  by (metis append_eq_append_conv)

lemma suffix_same_length:
  "length xs = length ys \<Longrightarrow> suffix xs (zs @ ys) \<longleftrightarrow> xs = ys"
  by (auto simp: suffix_def append_same_length_inject)

subsection \<open>Decimal printing is injective\<close>

lemma digit_char_inject: "a < 10 \<Longrightarrow> b < 10 \<Longrightarrow> digit_char a = digit_char b \<longleftrightarrow> a = b"
proof -
  have d: "distinct ''0123456789''" by simp
  assume "a < 10" "b < 10"
  then show ?thesis
    using nth_eq_iff_index_eq [OF d, of a b] by (simp add: digit_char_def)
qed

lemma digit_char_range: "digit_char d \<in> decimal_digits"
proof -
  have "d mod 10 < length ''0123456789''" by simp
  then show ?thesis unfolding digit_char_def decimal_digits_def by (rule nth_mem)
qed

lemma decimal_nat_chars: "set (decimal_nat n) \<subseteq> decimal_digits"
proof (induction n rule: decimal_nat.induct)
  case (1 n)
  then show ?case
    using digit_char_range by (cases "n < 10") (auto simp: decimal_nat.simps [of n])
qed

lemma decimal_nat_nonempty [simp]: "decimal_nat n \<noteq> []" "[] \<noteq> decimal_nat n"
  by (simp_all add: decimal_nat.simps [of n])

lemma decimal_nat_inject: "decimal_nat m = decimal_nat n \<longleftrightarrow> m = n"
proof (induction m arbitrary: n rule: decimal_nat.induct)
  case (1 m)
  show ?case
  proof (cases "m < 10 \<or> n < 10")
    case True
    then show ?thesis
      by (auto simp: decimal_nat.simps [of m] decimal_nat.simps [of n] digit_char_inject)
  next
    case False
    have "m div 10 = n div 10 \<and> m mod 10 = n mod 10 \<longleftrightarrow> m = n"
      by (metis mult_div_mod_eq)
    with False "1.IH" show ?thesis
      by (simp add: decimal_nat.simps [of m] decimal_nat.simps [of n] digit_char_inject)
  qed
qed

lemma decimal_chars: "set (decimal i) \<subseteq> insert (CHR ''-'') decimal_digits"
  using decimal_nat_chars by (auto simp: decimal_def)

lemma not_decimal_digits: "CHR '':'' \<notin> decimal_digits" "CHR ''-'' \<notin> decimal_digits"
    "CHR ''/'' \<notin> decimal_digits"
  by (simp_all add: decimal_digits_def)

lemma decimal_no_colon: "CHR '':'' \<notin> set (decimal i)"
  using decimal_chars [of i] not_decimal_digits by auto

lemma decimal_nat_not_minus: "CHR ''-'' # xs \<noteq> decimal_nat n"
proof
  assume "CHR ''-'' # xs = decimal_nat n"
  then have "CHR ''-'' \<in> set (decimal_nat n)" by (metis list.set_intros(1))
  then show False using decimal_nat_chars [of n] not_decimal_digits by auto
qed

lemma decimal_inject: "decimal i = decimal j \<longleftrightarrow> i = j"
proof -
  have neg: "CHR ''-'' # xs \<noteq> decimal_nat n" for xs n by (rule decimal_nat_not_minus)
  show ?thesis
    using neg neg [symmetric] by (auto simp: decimal_def decimal_nat_inject)
qed

lemma length_padded [simp]: "length (padded w n) = w"
  by (induction w arbitrary: n) auto

lemma padded_chars: "set (padded w n) \<subseteq> decimal_digits"
  using digit_char_range by (induction w arbitrary: n) auto

lemma padded_inject: "m < 10 ^ w \<Longrightarrow> n < 10 ^ w \<Longrightarrow> padded w m = padded w n \<longleftrightarrow> m = n"
proof (induction w arbitrary: m n)
  case 0
  then show ?case by simp
next
  case (Suc w)
  then have "m div 10 < 10 ^ w" "n div 10 < 10 ^ w" by (simp_all add: less_mult_imp_div_less)
  then have "padded w (m div 10) = padded w (n div 10) \<longleftrightarrow> m div 10 = n div 10" by (rule Suc.IH)
  moreover have "m div 10 = n div 10 \<and> m mod 10 = n mod 10 \<longleftrightarrow> m = n"
    by (metis mult_div_mod_eq)
  ultimately show ?case by (simp add: digit_char_inject)
qed

end
