(* ===== verification/GoTime.thy ===== *)
theory GoTime
  imports Prelude
begin

text \<open>
  The part of Go's package \<^verbatim>\<open>time\<close> the program uses. A \<^verbatim>\<open>time.Time\<close> is an instant (nanoseconds
  since 1970-01-01 00:00:00 UTC, unbounded: \<^verbatim>\<open>Time\<close> spans billions of years) and the \<^verbatim>\<open>*Location\<close>
  pointer it is presented in (\<open>0\<close> is UTC); \<^verbatim>\<open>Before\<close>, \<^verbatim>\<open>After\<close> and \<^verbatim>\<open>Equal\<close> read the instant only,
  the operator \<^verbatim>\<open>==\<close> (and so a map key) compares both. All times are without monotonic reading:
  \<^verbatim>\<open>In\<close> strips it, and so does storing. A \<^verbatim>\<open>time.Duration\<close> is a signed 64-bit count of
  nanoseconds, kept at its width. The RFC 3339 format in UTC is written out down to the proleptic
  Gregorian calendar, because the occurrence identifiers are computed from it.
\<close>

subsection \<open>Durations and times\<close>

type_synonym duration = "64 word"
type_synonym instant = int
type_synonym location = nat

record gotime =
  instant :: instant
  loc :: location

abbreviation Second :: int where "Second \<equiv> 1000000000"
abbreviation Minute :: int where "Minute \<equiv> 60000000000"
abbreviation Hour :: int where "Hour \<equiv> 3600000000000"

definition UTC :: location where
  "UTC = 0"

text \<open>The zero \<^verbatim>\<open>time.Time\<close>, 0001-01-01 00:00:00 UTC.\<close>

definition zero_time :: instant where
  "zero_time = - 62135596800 * Second"

definition zeroTime :: gotime where
  "zeroTime = \<lparr>instant = zero_time, loc = UTC\<rparr>"

definition Before :: "gotime \<Rightarrow> gotime \<Rightarrow> bool" where
  "Before t u \<longleftrightarrow> instant t < instant u"

definition After :: "gotime \<Rightarrow> gotime \<Rightarrow> bool" where
  "After t u \<longleftrightarrow> instant u < instant t"

definition Equal :: "gotime \<Rightarrow> gotime \<Rightarrow> bool" where
  "Equal t u \<longleftrightarrow> instant t = instant u"

definition In :: "gotime \<Rightarrow> location \<Rightarrow> gotime" where
  "In t l = t\<lparr>loc := l\<rparr>"

definition add_dur :: "instant \<Rightarrow> duration \<Rightarrow> instant" where
  "add_dur i d = i + sint d"

definition Add :: "gotime \<Rightarrow> duration \<Rightarrow> gotime" where
  "Add t d = t\<lparr>instant := add_dur (instant t) d\<rparr>"

text \<open>\<^verbatim>\<open>Sub\<close> saturates at the largest and smallest duration.\<close>

definition sub_instant :: "instant \<Rightarrow> instant \<Rightarrow> duration" where
  "sub_instant i j = word_of_int (max (- (2 ^ 63)) (min (2 ^ 63 - 1) (i - j)))"

definition Sub :: "gotime \<Rightarrow> gotime \<Rightarrow> duration" where
  "Sub t u = sub_instant (instant t) (instant u)"

subsection \<open>The calendar and RFC 3339\<close>

text \<open>
  Days are counted from 0001-01-01. Years are cut off in cycles of 400, 100, 4 and 1 years; the
  last year of a long cycle absorbs its leap day, which is what the subtraction of \<open>n div 4\<close> does.
\<close>

definition unix_epoch_days :: int where
  "unix_epoch_days = 719162"

definition year_split :: "int \<Rightarrow> int \<times> int" where
  "year_split d =
     (let a = d div 146097; d1 = d mod 146097;
          b = d1 div 36524 - d1 div 36524 div 4; d2 = d1 - 36524 * b;
          c = d2 div 1461; d3 = d2 mod 1461;
          e = d3 div 365 - d3 div 365 div 4
      in (400 * a + 100 * b + 4 * c + e + 1, d3 - 365 * e))"

definition days_before_year :: "int \<Rightarrow> int" where
  "days_before_year y = (let p = y - 1 in 365 * p + p div 4 - p div 100 + p div 400)"

definition isLeap :: "int \<Rightarrow> bool" where
  "isLeap y \<longleftrightarrow> y mod 4 = 0 \<and> (y mod 100 \<noteq> 0 \<or> y mod 400 = 0)"

text \<open>Month (from 1) and day of the month (from 1) of a day of the year (from 0).\<close>

definition month_start :: "bool \<Rightarrow> nat \<Rightarrow> int" where
  "month_start leap m =
     [0, 31, 59, 90, 120, 151, 181, 212, 243, 273, 304, 334] ! (m - 1)
     + (if leap \<and> 2 < m then 1 else 0)"

definition month_split :: "bool \<Rightarrow> int \<Rightarrow> nat \<times> int" where
  "month_split leap yd =
     (let m = (if yd < month_start leap 2 then 1 else if yd < month_start leap 3 then 2
               else if yd < month_start leap 4 then 3 else if yd < month_start leap 5 then 4
               else if yd < month_start leap 6 then 5 else if yd < month_start leap 7 then 6
               else if yd < month_start leap 8 then 7 else if yd < month_start leap 9 then 8
               else if yd < month_start leap 10 then 9 else if yd < month_start leap 11 then 10
               else if yd < month_start leap 12 then 11 else 12)
      in (m, yd - month_start leap m + 1))"

definition year_of :: "instant \<Rightarrow> int" where
  "year_of i = fst (year_split (i div (86400 * Second) + unix_epoch_days))"

definition FormatRFC3339 :: "instant \<Rightarrow> string" where
  "FormatRFC3339 i =
     (let s = i div Second;
          (y, yd) = year_split (s div 86400 + unix_epoch_days);
          (m, d) = month_split (isLeap y) yd;
          tod = nat (s mod 86400)
      in padded 4 (nat y) @ ''-'' @ padded 2 m @ ''-'' @ padded 2 (nat d) @ ''T''
         @ padded 2 (tod div 3600) @ '':'' @ padded 2 (tod div 60 mod 60) @ '':''
         @ padded 2 (tod mod 60) @ ''Z'')"

text \<open>The range in which a year has four digits, which is also what JSON encoding accepts.\<close>

definition year_ok :: "instant \<Rightarrow> bool" where
  "year_ok i \<longleftrightarrow> 0 \<le> year_of i \<and> year_of i \<le> 9999"

subsection \<open>Order and arithmetic of times\<close>

lemma instant_Add [simp]: "instant (Add t d) = instant t + sint d"
  by (simp add: Add_def add_dur_def)

lemma instant_In [simp]: "instant (In t l) = instant t"
  by (simp add: In_def)

lemma loc_Add [simp]: "loc (Add t d) = loc t"
  by (simp add: Add_def)

lemma loc_In [simp]: "loc (In t l) = l"
  by (simp add: In_def)

lemma sint_word_of_int_64:
  "- (2 ^ 63) \<le> i \<Longrightarrow> i < 2 ^ 63 \<Longrightarrow> sint (word_of_int i :: duration) = i"
  by (simp add: int_word_sint)

lemma sub_instant_exact:
  "- (2 ^ 63) \<le> i - j \<Longrightarrow> i - j < 2 ^ 63 \<Longrightarrow> sint (sub_instant i j) = i - j"
  unfolding sub_instant_def by (simp add: sint_word_of_int_64 del: of_int_diff)

subsection \<open>The calendar is a bijection on days\<close>

lemma cycle_cut:
  fixes x k :: int
  assumes "0 \<le> x" "x \<le> 4 * k" "0 < k"
  shows "0 \<le> x div k - x div k div 4" "x div k - x div k div 4 \<le> 3"
    "0 \<le> x - k * (x div k - x div k div 4)" "x - k * (x div k - x div k div 4) \<le> k"
proof -
  have q: "0 \<le> x div k" "x div k \<le> 4"
    using assms by (auto simp: pos_imp_zdiv_nonneg_iff
        intro: order_trans [OF zdiv_mono1 [OF assms(2,3)]])
  have m: "x = k * (x div k) + x mod k" "0 \<le> x mod k" "x mod k < k" using assms by simp_all
  show "0 \<le> x div k - x div k div 4" "x div k - x div k div 4 \<le> 3" using q by linarith+
  have "0 \<le> x - k * (x div k - x div k div 4) \<and> x - k * (x div k - x div k div 4) \<le> k"
  proof (cases "x div k = 4")
    case True
    from m(1) True have "x = 4 * k + x mod k" by simp
    then have "4 * k \<le> x" using m(2) by linarith
    then show ?thesis using assms True by simp
  next
    case False
    with q have "x div k div 4 = 0" by linarith
    moreover have "0 \<le> x - k * (x div k)" "x - k * (x div k) \<le> k" using m by linarith+
    ultimately show ?thesis by simp
  qed
  then show "0 \<le> x - k * (x div k - x div k div 4)" "x - k * (x div k - x div k div 4) \<le> k"
    by simp_all
qed

lemma year_split_parts:
  assumes "year_split d = (y, yd)"
  obtains a b c e where "y = 400 * a + 100 * b + 4 * c + e + 1"
    and "0 \<le> b" "b \<le> 3" "0 \<le> c" "c \<le> 24" "0 \<le> e" "e \<le> 3" "0 \<le> yd" "yd \<le> 365"
    and "d = 146097 * a + 36524 * b + 1461 * c + 365 * e + yd"
proof -
  define a x where "a = d div 146097" and "x = d mod 146097"
  define b where "b = x div 36524 - x div 36524 div 4"
  define z where "z = x - 36524 * b"
  define w where "w = z mod 1461"
  define e where "e = w div 365 - w div 365 div 4"
  have d: "d = 146097 * a + x" unfolding a_def x_def by simp
  have x: "0 \<le> x" "x \<le> 4 * 36524" unfolding x_def using pos_mod_bound [of 146097 d] by simp_all
  have b: "0 \<le> b" "b \<le> 3" and z: "0 \<le> z" "z \<le> 36524"
    using cycle_cut [OF x] unfolding z_def b_def by simp_all
  from z have c: "0 \<le> z div 1461" "z div 1461 \<le> 24" by linarith+
  have w: "0 \<le> w" "w \<le> 4 * 365" "z = 1461 * (z div 1461) + w"
    unfolding w_def using pos_mod_bound [of 1461 z] by simp_all
  have e: "0 \<le> e" "e \<le> 3" and yd: "0 \<le> w - 365 * e" "w - 365 * e \<le> 365"
    using cycle_cut [OF w(1,2)] unfolding e_def by simp_all
  have "year_split d = (400 * a + 100 * b + 4 * (z div 1461) + e + 1, w - 365 * e)"
    unfolding year_split_def Let_def a_def x_def b_def z_def w_def e_def by (rule refl)
  then have eq: "y = 400 * a + 100 * b + 4 * (z div 1461) + e + 1" "yd = w - 365 * e"
    using assms by (simp_all only: prod.inject)
  have total: "d = 146097 * a + 36524 * b + 1461 * (z div 1461) + 365 * e + yd"
    using d w(3) z_def eq(2) by simp
  from yd have "0 \<le> yd" "yd \<le> 365" unfolding eq(2) by simp_all
  with eq(1) b c e total show ?thesis by (intro that)
qed

lemma year_split_days: "year_split d = (y, yd) \<Longrightarrow> days_before_year y + yd = d"
proof (erule year_split_parts)
  fix a b c e
  assume y: "y = 400 * a + 100 * b + 4 * c + e + 1"
    and r: "0 \<le> b" "b \<le> 3" "0 \<le> c" "c \<le> 24" "0 \<le> e" "e \<le> 3"
    and d: "d = 146097 * a + 36524 * b + 1461 * c + 365 * e + yd"
  have "(y - 1) div 4 = 100 * a + 25 * b + c" using y r by linarith
  moreover have "(y - 1) div 100 = 4 * a + b" using y r by linarith
  moreover have "(y - 1) div 400 = a" using y r by linarith
  ultimately have "days_before_year y = 365 * (y - 1) + (100 * a + 25 * b + c) - (4 * a + b) + a"
    unfolding days_before_year_def Let_def by (simp only:)
  then show ?thesis unfolding d y by simp
qed

lemma year_split_range: "year_split d = (y, yd) \<Longrightarrow> 0 \<le> yd \<and> yd \<le> 365"
  by (erule year_split_parts) simp

lemma month_split_day: "month_split leap yd = (m, d) \<Longrightarrow> month_start leap m + d - 1 = yd"
  by (auto simp: month_split_def Let_def)

lemma month_split_range:
  assumes "month_split leap yd = (m, d)" "0 \<le> yd" "yd \<le> 365"
  shows "m < 100" "0 \<le> d" "d < 100"
  using assms unfolding month_split_def Let_def
  by (simp_all add: month_start_def split: if_splits)

subsection \<open>Two times print alike exactly when they lie in the same second\<close>

lemma FormatRFC3339_length: "length (FormatRFC3339 i) = 20"
  by (simp add: FormatRFC3339_def Let_def split: prod.splits)

lemma FormatRFC3339_fields:
  assumes "FormatRFC3339 i = FormatRFC3339 j"
    and "year_split (i div Second div 86400 + unix_epoch_days) = (y, yd)"
    and "year_split (j div Second div 86400 + unix_epoch_days) = (y', yd')"
    and "month_split (isLeap y) yd = (m, d)" and "month_split (isLeap y') yd' = (m', d')"
  shows "padded 4 (nat y) = padded 4 (nat y')" "padded 2 m = padded 2 m'"
    "padded 2 (nat d) = padded 2 (nat d')"
    "padded 2 (nat (i div Second mod 86400) div 3600)
       = padded 2 (nat (j div Second mod 86400) div 3600)"
    "padded 2 (nat (i div Second mod 86400) div 60 mod 60)
       = padded 2 (nat (j div Second mod 86400) div 60 mod 60)"
    "padded 2 (nat (i div Second mod 86400) mod 60)
       = padded 2 (nat (j div Second mod 86400) mod 60)"
  using assms by (simp_all add: FormatRFC3339_def Let_def append_eq_append_conv)

lemma tod_fields:
  assumes "s < 86400" "t < (86400::nat)" "s div 3600 = t div 3600"
    "s div 60 mod 60 = t div 60 mod 60" "s mod 60 = t mod 60"
  shows "s = t"
proof -
  have "n = 3600 * (n div 3600) + 60 * (n div 60 mod 60) + n mod 60" for n :: nat
  proof -
    have "n div 60 = 60 * (n div 3600) + n div 60 mod 60"
      using mult_div_mod_eq [of 60 "n div 60"] by (simp add: div_mult2_eq [symmetric])
    then show ?thesis using mult_div_mod_eq [of 60 n] by linarith
  qed
  from this [of s] this [of t] assms(3-5) show ?thesis by simp
qed

lemma FormatRFC3339_second: "i div Second = j div Second \<Longrightarrow> FormatRFC3339 i = FormatRFC3339 j"
  by (simp add: FormatRFC3339_def)

lemma year_of_alt: "year_of i = fst (year_split (i div Second div 86400 + unix_epoch_days))"
  by (simp add: year_of_def zdiv_zmult2_eq [symmetric] mult.commute)

lemma FormatRFC3339_inject:
  assumes "year_ok i" "year_ok j"
  shows "FormatRFC3339 i = FormatRFC3339 j \<longleftrightarrow> i div Second = j div Second"
proof
  assume eq: "FormatRFC3339 i = FormatRFC3339 j"
  obtain y yd where y: "year_split (i div Second div 86400 + unix_epoch_days) = (y, yd)"
    by fastforce
  obtain y' yd' where y': "year_split (j div Second div 86400 + unix_epoch_days) = (y', yd')"
    by fastforce
  obtain m d where m: "month_split (isLeap y) yd = (m, d)" by fastforce
  obtain m' d' where m': "month_split (isLeap y') yd' = (m', d')" by fastforce
  note f = FormatRFC3339_fields [OF eq y y' m m']
  have "0 \<le> y" "y \<le> 9999" "0 \<le> y'" "y' \<le> 9999"
    using assms y y' by (simp_all add: year_ok_def year_of_alt)
  with f(1) have yy: "y = y'" by (simp add: padded_inject)
  note r = month_split_range [OF m] month_split_range [OF m']
  have "m = m'" "d = d'"
    using f(2,3) r year_split_range [OF y] year_split_range [OF y'] by (simp_all add: padded_inject)
  with yy month_split_day [OF m] month_split_day [OF m'] have "yd = yd'" by simp
  with yy year_split_days [OF y] year_split_days [OF y']
  have day: "i div Second div 86400 = j div Second div 86400" by simp
  define s t where "s = nat (i div Second mod 86400)" and "t = nat (j div Second mod 86400)"
  have lt: "s < 86400" "t < 86400" unfolding s_def t_def by (simp_all add: nat_less_iff)
  have "s = t"
  proof (rule tod_fields [OF lt])
    show "s div 3600 = t div 3600" using f(4) lt unfolding s_def [symmetric] t_def [symmetric]
      by (subst (asm) padded_inject) (simp_all add: less_mult_imp_div_less)
    show "s div 60 mod 60 = t div 60 mod 60"
      using f(5) unfolding s_def [symmetric] t_def [symmetric]
      by (subst (asm) padded_inject) (simp_all add: order_less_trans [OF mod_less_divisor])
    show "s mod 60 = t mod 60" using f(6) unfolding s_def [symmetric] t_def [symmetric]
      by (subst (asm) padded_inject) (simp_all add: order_less_trans [OF mod_less_divisor])
  qed
  then have "i div Second mod 86400 = j div Second mod 86400"
    unfolding s_def t_def by (simp add: eq_nat_nat_iff)
  with day show "i div Second = j div Second" by (metis mult_div_mod_eq)
qed (rule FormatRFC3339_second)

end
