(* ===== verification/Ids.thy ===== *)
theory Ids
  imports GoTime
begin

text \<open>
  The deterministic identifiers of \<^verbatim>\<open>id/id.go\<close>. The version 5 UUIDs come from the external package
  \<^verbatim>\<open>github.com/google/uuid\<close>: \<open>NewSHA1 ns data\<close>, the text form of the UUID of \<open>data\<close> in the name
  space \<open>ns\<close>, is a parameter of every definition. What the code relies on is stated where it is
  used: the text form is 36 bytes of hexadecimal digits and hyphens (\<open>uuid_text\<close>), and the inputs
  at hand do not collide (\<open>collision_free\<close>).
\<close>

type_synonym uuid5 = "string \<Rightarrow> string \<Rightarrow> string"

definition JobNamespace :: string where
  "JobNamespace = ''6ba7b810-9dad-11d1-80b4-00c04fd430c8''"

definition TaskNamespace :: string where
  "TaskNamespace = ''6ba7b811-9dad-11d1-80b4-00c04fd430c8''"

definition OccurrenceNamespace :: string where
  "OccurrenceNamespace = ''6ba7b812-9dad-11d1-80b4-00c04fd430c8''"

definition TaskRunNamespace :: string where
  "TaskRunNamespace = ''6ba7b813-9dad-11d1-80b4-00c04fd430c8''"

definition AttemptNamespace :: string where
  "AttemptNamespace = ''6ba7b814-9dad-11d1-80b4-00c04fd430c8''"

definition GenerateJobID :: "uuid5 \<Rightarrow> string \<Rightarrow> string" where
  "GenerateJobID NewSHA1 name = ''job_'' @ NewSHA1 JobNamespace name"

definition GenerateTaskID :: "uuid5 \<Rightarrow> string \<Rightarrow> string \<Rightarrow> string" where
  "GenerateTaskID NewSHA1 jobID taskName =
     ''task_'' @ NewSHA1 TaskNamespace (jobID @ '':'' @ taskName)"

definition GenerateJobOccurrenceID :: "uuid5 \<Rightarrow> string \<Rightarrow> instant \<Rightarrow> string" where
  "GenerateJobOccurrenceID NewSHA1 jobID scheduledTime =
     ''occ_'' @ NewSHA1 OccurrenceNamespace (jobID @ '':'' @ FormatRFC3339 scheduledTime)"

definition GenerateTaskRunID :: "uuid5 \<Rightarrow> string \<Rightarrow> string \<Rightarrow> string" where
  "GenerateTaskRunID NewSHA1 occurrenceID taskID =
     ''run_'' @ NewSHA1 TaskRunNamespace (occurrenceID @ '':'' @ taskID)"

definition GenerateExecutionAttemptID :: "uuid5 \<Rightarrow> string \<Rightarrow> int \<Rightarrow> string" where
  "GenerateExecutionAttemptID NewSHA1 taskRunID attemptNumber =
     ''attempt_'' @ NewSHA1 AttemptNamespace (taskRunID @ '':'' @ decimal attemptNumber)"

subsection \<open>What the identifiers rely on\<close>

definition uuid_chars :: "char set" where
  "uuid_chars = set ''0123456789abcdef-''"

definition uuid_text :: "uuid5 \<Rightarrow> bool" where
  "uuid_text NewSHA1 \<longleftrightarrow>
     (\<forall>ns d. length (NewSHA1 ns d) = 36 \<and> set (NewSHA1 ns d) \<subseteq> uuid_chars)"

definition collision_free :: "uuid5 \<Rightarrow> string \<Rightarrow> string \<Rightarrow> string \<Rightarrow> bool" where
  "collision_free NewSHA1 ns d e \<longleftrightarrow> (NewSHA1 ns d = NewSHA1 ns e \<longrightarrow> d = e)"

text \<open>
  A stand-in for the UUID package that satisfies both: the last 36 bytes of a padded, sanitised
  copy of the data. It only serves to show that the hypotheses can hold.
\<close>

definition sample_char :: "char \<Rightarrow> char" where
  "sample_char c = (if c \<in> uuid_chars then c else CHR ''f'')"

definition sample_uuid :: uuid5 where
  "sample_uuid ns d = map sample_char (rev (take 36 (rev d @ replicate 36 CHR ''0'')))"

subsection \<open>Identifiers contain no separator and have a fixed length\<close>

lemma uuid_text_separators:
  assumes "uuid_text NewSHA1"
  shows "CHR ''/'' \<notin> set (NewSHA1 ns d)" "CHR '':'' \<notin> set (NewSHA1 ns d)"
    and "length (NewSHA1 ns d) = 36"
proof -
  have "set (NewSHA1 ns d) \<subseteq> uuid_chars" "length (NewSHA1 ns d) = 36"
    using assms by (auto simp: uuid_text_def)
  moreover have "CHR ''/'' \<notin> uuid_chars" "CHR '':'' \<notin> uuid_chars"
    by (simp_all add: uuid_chars_def)
  ultimately show "CHR ''/'' \<notin> set (NewSHA1 ns d)" "CHR '':'' \<notin> set (NewSHA1 ns d)"
    and "length (NewSHA1 ns d) = 36" by auto
qed

lemmas id_defs = GenerateJobID_def GenerateTaskID_def GenerateJobOccurrenceID_def
  GenerateTaskRunID_def GenerateExecutionAttemptID_def

lemma generated_slash_free:
  assumes "uuid_text NewSHA1"
  shows "slash_free (GenerateJobID NewSHA1 n)" "slash_free (GenerateTaskID NewSHA1 j n)"
    "slash_free (GenerateJobOccurrenceID NewSHA1 j t)"
    "slash_free (GenerateTaskRunID NewSHA1 oc k)"
    "slash_free (GenerateExecutionAttemptID NewSHA1 r i)"
  using uuid_text_separators(1) [OF assms] by (simp_all add: id_defs slash_free_def)

lemma generated_length:
  assumes "uuid_text NewSHA1"
  shows "length (GenerateJobID NewSHA1 n) = 40" "length (GenerateTaskID NewSHA1 j n) = 41"
    "length (GenerateJobOccurrenceID NewSHA1 j t) = 40"
    "length (GenerateTaskRunID NewSHA1 oc k) = 40"
    "length (GenerateExecutionAttemptID NewSHA1 r i) = 44"
  using uuid_text_separators(3) [OF assms] by (simp_all add: id_defs)

lemma sample_uuid_text: "uuid_text sample_uuid"
  unfolding uuid_text_def
proof (intro allI conjI)
  fix ns d
  show "length (sample_uuid ns d) = 36" by (simp add: sample_uuid_def)
  have "sample_char c \<in> uuid_chars" for c by (simp add: sample_char_def uuid_chars_def)
  then show "set (sample_uuid ns d) \<subseteq> uuid_chars" by (auto simp: sample_uuid_def)
qed

subsection \<open>Which inputs share an identifier\<close>

text \<open>
  The RFC 3339 text has a fixed length, so the pair of job and time can be read back from the data
  that is hashed, whatever bytes the job identifier contains.
\<close>

lemma occurrence_data_inject:
  "j @ '':'' @ FormatRFC3339 s = k @ '':'' @ FormatRFC3339 t
     \<longleftrightarrow> j = k \<and> FormatRFC3339 s = FormatRFC3339 t"
proof -
  have "j @ '':'' @ FormatRFC3339 s = k @ '':'' @ FormatRFC3339 t
     \<longleftrightarrow> j = k \<and> '':'' @ FormatRFC3339 s = '':'' @ FormatRFC3339 t"
    by (rule append_same_length_inject) (simp add: FormatRFC3339_length)
  then show ?thesis by simp
qed

lemma task_data_inject:
  assumes "CHR '':'' \<notin> set j" "CHR '':'' \<notin> set k"
  shows "j @ '':'' @ m = k @ '':'' @ n \<longleftrightarrow> j = k \<and> m = n"
  using append_sep_inject [OF assms] by simp

lemma attempt_data_inject: "r @ '':'' @ decimal i = s @ '':'' @ decimal j \<longleftrightarrow> r = s \<and> i = j"
  using append_sep_inject_end [OF decimal_no_colon decimal_no_colon] by (simp add: decimal_inject)

end
