(* ===== verification/Types.thy ===== *)
theory Types
  imports Ids
begin

text \<open>
  The data model of \<^verbatim>\<open>types.go\<close> and \<^verbatim>\<open>job.go\<close>. The enumerations of the source are open string types
  (\<^verbatim>\<open>type JobStatus string\<close>), so they are strings here and any other string is a value too, as the
  default branches of the code require. A pointer field that may be nil is an \<open>option\<close>. A task
  function is code of the user: it is a function of the execution context it is given (every
  attempt has its own) to an error message, if it fails. The hooks are observed, not modelled:
  their fields say whether a hook is set.
\<close>

subsection \<open>Enumerations (\<open>types.go\<close>)\<close>

type_synonym JobStatus = string
abbreviation JobStatusPending :: JobStatus where "JobStatusPending \<equiv> ''Pending''"
abbreviation JobStatusRunning :: JobStatus where "JobStatusRunning \<equiv> ''Running''"
abbreviation JobStatusCompleted :: JobStatus where "JobStatusCompleted \<equiv> ''Completed''"
abbreviation JobStatusFailed :: JobStatus where "JobStatusFailed \<equiv> ''Failed''"
abbreviation JobStatusCanceled :: JobStatus where "JobStatusCanceled \<equiv> ''Canceled''"
abbreviation JobStatusFailedStale :: JobStatus where "JobStatusFailedStale \<equiv> ''Failed_Stale''"
abbreviation JobStatusQueued :: JobStatus where "JobStatusQueued \<equiv> ''Queued''"

type_synonym TaskStatus = string
abbreviation TaskStatusPending :: TaskStatus where "TaskStatusPending \<equiv> ''Pending''"
abbreviation TaskStatusRunning :: TaskStatus where "TaskStatusRunning \<equiv> ''Running''"
abbreviation TaskStatusSuccess :: TaskStatus where "TaskStatusSuccess \<equiv> ''Success''"
abbreviation TaskStatusFailed :: TaskStatus where "TaskStatusFailed \<equiv> ''Failed''"
abbreviation TaskStatusCanceled :: TaskStatus where "TaskStatusCanceled \<equiv> ''Canceled''"
abbreviation TaskStatusTimeout :: TaskStatus where "TaskStatusTimeout \<equiv> ''Timeout''"

type_synonym TaskExecutionMode = string
abbreviation TaskExecutionModeSequential :: TaskExecutionMode where
  "TaskExecutionModeSequential \<equiv> ''Sequential''"
abbreviation TaskExecutionModeParallel :: TaskExecutionMode where
  "TaskExecutionModeParallel \<equiv> ''Parallel''"

type_synonym FailureStrategy = string
abbreviation FailureStrategyFailFast :: FailureStrategy where
  "FailureStrategyFailFast \<equiv> ''Fail-Fast''"
abbreviation FailureStrategyContinue :: FailureStrategy where
  "FailureStrategyContinue \<equiv> ''Continue''"
abbreviation FailureStrategyRetryOnFailure :: FailureStrategy where
  "FailureStrategyRetryOnFailure \<equiv> ''Retry_On_Failure''"

type_synonym OverlapPolicy = string
abbreviation OverlapPolicySkip :: OverlapPolicy where "OverlapPolicySkip \<equiv> ''Skip''"
abbreviation OverlapPolicyAllow :: OverlapPolicy where "OverlapPolicyAllow \<equiv> ''Allow''"
abbreviation OverlapPolicyQueue :: OverlapPolicy where "OverlapPolicyQueue \<equiv> ''Queue''"

type_synonym RecoveryStrategy = string
abbreviation RecoveryStrategyExecuteAll :: RecoveryStrategy where
  "RecoveryStrategyExecuteAll \<equiv> ''Execute_All''"
abbreviation RecoveryStrategyExecuteLast :: RecoveryStrategy where
  "RecoveryStrategyExecuteLast \<equiv> ''Execute_Last''"
abbreviation RecoveryStrategyMarkAsMissed :: RecoveryStrategy where
  "RecoveryStrategyMarkAsMissed \<equiv> ''Mark_As_Missed''"
abbreviation RecoveryStrategyBoundedWindow :: RecoveryStrategy where
  "RecoveryStrategyBoundedWindow \<equiv> ''Bounded_Window''"
abbreviation RecoveryStrategyCompressedCatchUp :: RecoveryStrategy where
  "RecoveryStrategyCompressedCatchUp \<equiv> ''Compressed_Catch_Up''"

type_synonym UpdatePolicy = string
abbreviation UpdatePolicyImmediate :: UpdatePolicy where "UpdatePolicyImmediate \<equiv> ''Immediate''"
abbreviation UpdatePolicyGraceful :: UpdatePolicy where "UpdatePolicyGraceful \<equiv> ''Graceful''"
abbreviation UpdatePolicyWindowed :: UpdatePolicy where "UpdatePolicyWindowed \<equiv> ''Windowed''"

subsection \<open>Configuration and reports (\<open>types.go\<close>)\<close>

text \<open>
  \<open>BackoffFactor\<close> is the value of the \<^verbatim>\<open>float64\<close>, a rational number, neither infinite nor \<^verbatim>\<open>NaN\<close>.
  Counts of type \<^verbatim>\<open>int\<close>, such as \<open>MaxRetries\<close>, are integers; they are not followed beyond 64 bits.
\<close>

record RetryPolicy =
  MaxRetries :: int
  RetryInterval :: duration
  BackoffFactor :: rat

record BoundedWindow =
  MaxOccurrences :: int
  MaxDuration :: duration

record TaskConfig =
  tc_FailureStrategy :: "FailureStrategy option"
  tc_RetryPolicy :: "RetryPolicy option"
  tc_TaskTimeout :: "duration option"

record JobConfig =
  jc_TaskExecutionMode :: TaskExecutionMode
  jc_FailureStrategy :: FailureStrategy
  jc_ExecutionTimeout :: duration
  jc_OverlapPolicy :: OverlapPolicy
  jc_RecoveryStrategy :: RecoveryStrategy
  jc_BoundedWindow :: "BoundedWindow option"
  jc_TaskConfig :: TaskConfig

record SchedulerConfig =
  MaxConcurrentJobs :: int
  ReaperInterval :: duration
  NodeID :: string

record ExecutionContext =
  ec_OccurrenceID :: string
  ec_TaskRunID :: string
  ec_AttemptID :: string

record JobOccurrence =
  jo_ID :: string
  jo_JobID :: string
  jo_JobVersion :: int
  jo_ScheduledTime :: instant
  jo_Status :: JobStatus
  jo_OwningNodeID :: string
  jo_StartTime :: "instant option"
  jo_EndTime :: "instant option"
  jo_Config :: JobConfig
  jo_IsRecoveryRun :: bool
  jo_CreatedAt :: instant
  jo_UpdatedAt :: instant

record AttemptReport =
  ar_AttemptNumber :: int
  ar_Status :: TaskStatus
  ar_StartTime :: instant
  ar_EndTime :: "instant option"
  ar_Duration :: duration
  ar_ErrorMessage :: string

record TaskReport =
  rp_TaskID :: string
  rp_TaskName :: string
  rp_Attempts :: "AttemptReport list"
  rp_FinalStatus :: TaskStatus

record ExecutionReport =
  er_OccurrenceID :: string
  er_FailureStrategy :: FailureStrategy
  er_TaskReports :: "TaskReport list"
  er_GroupOutcome :: string

definition NewExecutionReport :: "string \<Rightarrow> FailureStrategy \<Rightarrow> ExecutionReport" where
  "NewExecutionReport occurrenceID strategy =
     \<lparr>er_OccurrenceID = occurrenceID, er_FailureStrategy = strategy, er_TaskReports = [],
      er_GroupOutcome = ''''\<rparr>"

definition AddTaskReport :: "ExecutionReport \<Rightarrow> TaskReport \<Rightarrow> ExecutionReport" where
  "AddTaskReport r report = r\<lparr>er_TaskReports := er_TaskReports r @ [report]\<rparr>"

subsection \<open>Jobs and tasks (\<open>job.go\<close>)\<close>

type_synonym TaskFunc = "ExecutionContext \<Rightarrow> string option"

record Task =
  t_ID :: string
  t_Name :: string
  t_Config :: TaskConfig
  t_Order :: int
  t_Fn :: TaskFunc

record 'tk Job =
  j_ID :: string
  j_Name :: string
  j_Config :: JobConfig
  j_Ticker :: 'tk
  j_Tasks :: "Task list"
  j_Version :: int
  j_Active :: bool
  j_Paused :: bool
  j_OnStart :: bool
  j_OnComplete :: bool

definition NewJob :: "uuid5 \<Rightarrow> string \<Rightarrow> 'tk \<Rightarrow> JobConfig \<Rightarrow> 'tk Job" where
  "NewJob NewSHA1 name tick config =
     \<lparr>j_ID = GenerateJobID NewSHA1 name, j_Name = name, j_Config = config, j_Ticker = tick,
      j_Tasks = [], j_Version = 1, j_Active = True, j_Paused = False, j_OnStart = False,
      j_OnComplete = False\<rparr>"

definition AddTask ::
  "uuid5 \<Rightarrow> 'tk Job \<Rightarrow> string \<Rightarrow> TaskFunc \<Rightarrow> TaskConfig \<Rightarrow> Task \<times> 'tk Job" where
  "AddTask NewSHA1 j name fn config =
     (let task = \<lparr>t_ID = GenerateTaskID NewSHA1 (j_ID j) name, t_Name = name, t_Config = config,
                  t_Order = int (length (j_Tasks j)), t_Fn = fn\<rparr>
      in (task, j\<lparr>j_Tasks := j_Tasks j @ [task]\<rparr>))"

definition GetEffectiveConfig :: "'tk Job \<Rightarrow> Task \<Rightarrow> TaskConfig" where
  "GetEffectiveConfig j task =
     (let effective = jc_TaskConfig (j_Config j);
          effective = (if tc_FailureStrategy (t_Config task) \<noteq> None
            then effective\<lparr>tc_FailureStrategy := tc_FailureStrategy (t_Config task)\<rparr> else effective);
          effective = (if tc_RetryPolicy (t_Config task) \<noteq> None
            then effective\<lparr>tc_RetryPolicy := tc_RetryPolicy (t_Config task)\<rparr> else effective);
          effective = (if tc_TaskTimeout (t_Config task) \<noteq> None
            then effective\<lparr>tc_TaskTimeout := tc_TaskTimeout (t_Config task)\<rparr> else effective)
      in effective)"

definition IsRunning :: "'tk Job \<Rightarrow> JobOccurrence list result \<Rightarrow> bool result" where
  "IsRunning j listed =
     (case listed of Inl err \<Rightarrow> Inl err
      | Inr occurrences \<Rightarrow>
          Inr (\<exists>occ \<in> set occurrences. jo_JobID occ = j_ID j \<and> jo_Status occ = JobStatusRunning))"

subsection \<open>Cascading configuration\<close>

text \<open>Each field of the effective configuration is the task's if set, else the job's.\<close>

lemma GetEffectiveConfig_cascade:
  "tc_FailureStrategy (GetEffectiveConfig j task) =
     (case tc_FailureStrategy (t_Config task) of
        Some x \<Rightarrow> Some x | None \<Rightarrow> tc_FailureStrategy (jc_TaskConfig (j_Config j)))"
  "tc_RetryPolicy (GetEffectiveConfig j task) =
     (case tc_RetryPolicy (t_Config task) of
        Some x \<Rightarrow> Some x | None \<Rightarrow> tc_RetryPolicy (jc_TaskConfig (j_Config j)))"
  "tc_TaskTimeout (GetEffectiveConfig j task) =
     (case tc_TaskTimeout (t_Config task) of
        Some x \<Rightarrow> Some x | None \<Rightarrow> tc_TaskTimeout (jc_TaskConfig (j_Config j)))"
  by (auto simp: GetEffectiveConfig_def Let_def split: option.splits)

subsection \<open>The task list of a job\<close>

text \<open>The order numbers of a job's tasks are their positions, however many tasks are added.\<close>

definition orders_ok :: "'tk Job \<Rightarrow> bool" where
  "orders_ok j \<longleftrightarrow> map t_Order (j_Tasks j) = map int [0..<length (j_Tasks j)]"

definition task_ids_ok :: "uuid5 \<Rightarrow> 'tk Job \<Rightarrow> bool" where
  "task_ids_ok NewSHA1 j \<longleftrightarrow>
     (\<forall>t \<in> set (j_Tasks j). t_ID t = GenerateTaskID NewSHA1 (j_ID j) (t_Name t))"

lemma NewJob_orders_ok: "orders_ok (NewJob NewSHA1 name tick config)"
  by (simp add: orders_ok_def NewJob_def)

lemma AddTask_orders_ok: "orders_ok j \<Longrightarrow> orders_ok (snd (AddTask NewSHA1 j name fn config))"
  by (simp add: orders_ok_def AddTask_def Let_def)

lemma NewJob_task_ids_ok: "task_ids_ok NewSHA1 (NewJob NewSHA1 name tick config)"
  by (simp add: task_ids_ok_def NewJob_def)

lemma AddTask_task_ids_ok:
  "task_ids_ok NewSHA1 j \<Longrightarrow> task_ids_ok NewSHA1 (snd (AddTask NewSHA1 j name fn config))"
  by (auto simp: task_ids_ok_def AddTask_def Let_def)

end
