(* ===== verification/KeyPaths.thy ===== *)
theory KeyPaths
  imports Prelude
begin

text \<open>
  Slash-separated keys. The database keys of the program are components joined by \<^verbatim>\<open>/\<close>; cutting a
  key at its slashes (\<open>split_slash\<close>) gives the components back when they hold no slash themselves,
  and turns the string tests of the source (prefix, \<^verbatim>\<open>Contains\<close>, \<^verbatim>\<open>HasSuffix\<close>, \<^verbatim>\<open>Count\<close>) into
  statements about the list of components.
\<close>

fun join_slash :: "string list \<Rightarrow> string" where
  "join_slash [] = []"
| "join_slash [x] = x"
| "join_slash (x # xs) = x @ CHR ''/'' # join_slash xs"

fun split_slash :: "string \<Rightarrow> string list" where
  "split_slash [] = [[]]"
| "split_slash (c # cs) =
     (if c = CHR ''/'' then [] # split_slash cs
      else (c # hd (split_slash cs)) # tl (split_slash cs))"

lemma split_slash_nonempty [simp]: "split_slash s \<noteq> []"
  by (cases s) auto

lemma split_slash_append [simp]:
  "split_slash (a @ CHR ''/'' # b) = split_slash a @ split_slash b"
  by (induction a) (auto simp: hd_append tl_append split: list.splits)

lemma split_slash_free [simp]: "slash_free s \<Longrightarrow> split_slash s = [s]"
  by (induction s) (auto simp: slash_free_def)

lemma join_slash_append:
  "xs \<noteq> [] \<Longrightarrow> ys \<noteq> [] \<Longrightarrow> join_slash (xs @ ys) = join_slash xs @ CHR ''/'' # join_slash ys"
proof (induction xs rule: join_slash.induct)
  case (2 x)
  then show ?case by (cases ys) auto
qed auto

lemma join_split_slash [simp]: "join_slash (split_slash s) = s"
proof (induction s)
  case Nil
  then show ?case by simp
next
  case (Cons c cs)
  obtain x xs where s: "split_slash cs = x # xs" by (cases "split_slash cs") auto
  then show ?case using Cons by (cases xs) auto
qed

lemma split_slash_inject: "split_slash s = split_slash t \<longleftrightarrow> s = t"
  by (metis join_split_slash)

lemma split_join_slash:
  "xs \<noteq> [] \<Longrightarrow> (\<forall>x \<in> set xs. slash_free x) \<Longrightarrow> split_slash (join_slash xs) = xs"
  by (induction xs rule: join_slash.induct) auto

lemma Contains_component:
  assumes "slash_free c"
  shows "Contains s (CHR ''/'' # c @ ''/'') \<longleftrightarrow>
           (\<exists>us vs. us \<noteq> [] \<and> vs \<noteq> [] \<and> split_slash s = us @ c # vs)"
proof
  assume "Contains s (CHR ''/'' # c @ ''/'')"
  then obtain a b where s: "s = a @ CHR ''/'' # (c @ CHR ''/'' # b)"
    by (auto simp: Contains_def sublist_def)
  then have "split_slash s = split_slash a @ c # split_slash b" using assms by simp
  then show "\<exists>us vs. us \<noteq> [] \<and> vs \<noteq> [] \<and> split_slash s = us @ c # vs"
    using split_slash_nonempty by blast
next
  assume "\<exists>us vs. us \<noteq> [] \<and> vs \<noteq> [] \<and> split_slash s = us @ c # vs"
  then obtain us vs where u: "us \<noteq> []" "vs \<noteq> []" "split_slash s = us @ c # vs" by blast
  have "s = join_slash (us @ c # vs)" using u(3) by (metis join_split_slash)
  also have "\<dots> = join_slash us @ CHR ''/'' # join_slash (c # vs)"
    using u by (simp add: join_slash_append)
  also have "join_slash (c # vs) = c @ CHR ''/'' # join_slash vs"
    using u(2) by (cases vs) auto
  finally have "s = join_slash us @ (CHR ''/'' # c @ ''/'') @ join_slash vs" by simp
  then show "Contains s (CHR ''/'' # c @ ''/'')" unfolding Contains_def sublist_def by blast
qed

lemma prefix_slash:
  "prefix (p @ ''/'') s \<longleftrightarrow> (\<exists>vs. vs \<noteq> [] \<and> split_slash s = split_slash p @ vs)"
proof
  assume "prefix (p @ ''/'') s"
  then obtain r where "s = p @ CHR ''/'' # r" by (auto simp: prefix_def)
  then show "\<exists>vs. vs \<noteq> [] \<and> split_slash s = split_slash p @ vs" by auto
next
  assume "\<exists>vs. vs \<noteq> [] \<and> split_slash s = split_slash p @ vs"
  then obtain vs where v: "vs \<noteq> []" "split_slash s = split_slash p @ vs" by blast
  have "s = join_slash (split_slash p @ vs)" using v(2) by (metis join_split_slash)
  also have "\<dots> = p @ CHR ''/'' # join_slash vs" using v(1) by (simp add: join_slash_append)
  finally show "prefix (p @ ''/'') s" by (simp add: prefix_def)
qed

lemma Count_slash: "Count s (CHR ''/'') = length (split_slash s) - 1"
  by (induction s) (auto simp: Count_def Suc_diff_le Suc_le_eq)

lemma split_slash_last:
  obtains q where "s = q @ last (split_slash s)" and "q = [] \<or> last q = CHR ''/''"
proof (cases "butlast (split_slash s) = []")
  case True
  then have "split_slash s = [last (split_slash s)]"
    using append_butlast_last_id [OF split_slash_nonempty, of s] by simp
  then have "s = last (split_slash s)" by (metis join_slash.simps(2) join_split_slash)
  then show ?thesis using that [of "[]"] by simp
next
  case False
  have "s = join_slash (butlast (split_slash s) @ [last (split_slash s)])" by simp
  also have "\<dots> = (join_slash (butlast (split_slash s)) @ ''/'') @ last (split_slash s)"
    using False by (simp add: join_slash_append del: append_butlast_last_id)
  finally show ?thesis
    using that [of "join_slash (butlast (split_slash s)) @ ''/''"] by (simp only: last_snoc simp_thms)
qed

lemma HasSuffix_component:
  assumes "slash_free t"
  shows "HasSuffix s t \<longleftrightarrow> suffix t (last (split_slash s))"
proof -
  define l where "l = last (split_slash s)"
  obtain q where s: "s = q @ l" and q: "q = [] \<or> last q = CHR ''/''"
    unfolding l_def by (rule split_slash_last)
  have "suffix t l" if "suffix t (q @ l)"
  proof -
    from that consider "suffix t l" | r where "t = r @ l" "suffix r q"
      unfolding suffix_append by blast
    then show ?thesis
    proof cases
      case 2
      show ?thesis
      proof (cases "r = []")
        case True
        with 2 show ?thesis by simp
      next
        case False
        with 2 have "q \<noteq> []" "last r = last q" by (auto simp: suffix_def)
        with q 2 False have "CHR ''/'' \<in> set t" by (metis last_in_set Un_iff set_append)
        with assms show ?thesis by (simp add: slash_free_def)
      qed
    qed
  qed
  then show ?thesis unfolding HasSuffix_def l_def [symmetric] unfolding s
    by (auto simp: suffix_def)
qed

end
