(* ===== verification/StorageInterface.thy ===== *)
theory StorageInterface
  imports Types KeyPaths
begin

text \<open>
  The storage interface of \<^verbatim>\<open>storage/storage.go\<close>: the five stored record types, the operations of
  the Go interface as the fields of a record of functions over an abstract store state, the JSON
  documents the implementation writes, and the contract the clients rely on as a locale. An
  operation that changes the store returns the error, if any, and the new store state. Where the
  implementation reads the clock, the reading is an argument.
\<close>

subsection \<open>Stored records\<close>

text \<open>
  The serialised configurations (\<^verbatim>\<open>[]byte\<close>, nil is \<open>None\<close>) are represented by what they encode;
  the program writes them and never decodes them.
\<close>

datatype blob = ConfigBytes JobConfig | TaskConfigBytes TaskConfig | EmptyBytes | TextBytes string

record StoredJob =
  sj_ID :: string
  sj_Name :: string
  sj_ScheduleType :: string
  sj_ScheduleConfig :: "blob option"
  sj_Config :: "blob option"
  sj_Version :: int
  sj_Active :: bool
  sj_Paused :: bool
  sj_LastRunTime :: "instant option"
  sj_CreatedAt :: instant
  sj_UpdatedAt :: instant

record StoredTask =
  st_ID :: string
  st_JobID :: string
  st_Name :: string
  st_Config :: "blob option"
  st_Order :: int
  st_CreatedAt :: instant
  st_UpdatedAt :: instant

record StoredOccurrence =
  so_ID :: string
  so_JobID :: string
  so_JobVersion :: int
  so_ScheduledTime :: instant
  so_Status :: JobStatus
  so_OwningNodeID :: string
  so_StartTime :: "instant option"
  so_EndTime :: "instant option"
  so_Config :: "blob option"
  so_IsRecoveryRun :: bool
  so_CreatedAt :: instant
  so_UpdatedAt :: instant

record TaskRun =
  tr_ID :: string
  tr_OccurrenceID :: string
  tr_TaskID :: string
  tr_Status :: TaskStatus
  tr_RetryCount :: int
  tr_StartTime :: "instant option"
  tr_EndTime :: "instant option"
  tr_ErrorMessage :: string
  tr_CreatedAt :: instant
  tr_UpdatedAt :: instant

record ExecutionAttempt =
  ea_ID :: string
  ea_TaskRunID :: string
  ea_AttemptNumber :: int
  ea_Status :: TaskStatus
  ea_StartTime :: instant
  ea_EndTime :: "instant option"
  ea_ErrorMessage :: string
  ea_CreatedAt :: instant

subsection \<open>The interface\<close>

record 's Storage =
  CreateJob :: "'s \<Rightarrow> StoredJob \<Rightarrow> error option \<times> 's"
  GetJob :: "'s \<Rightarrow> string \<Rightarrow> StoredJob result"
  UpdateJob :: "'s \<Rightarrow> instant \<Rightarrow> StoredJob \<Rightarrow> error option \<times> 's"
  DeleteJob :: "'s \<Rightarrow> string \<Rightarrow> error option \<times> 's"
  ListJobs :: "'s \<Rightarrow> StoredJob list result"
  CreateTask :: "'s \<Rightarrow> StoredTask \<Rightarrow> error option \<times> 's"
  GetTask :: "'s \<Rightarrow> string \<Rightarrow> StoredTask result"
  UpdateTask :: "'s \<Rightarrow> instant \<Rightarrow> StoredTask \<Rightarrow> error option \<times> 's"
  DeleteTask :: "'s \<Rightarrow> string \<Rightarrow> error option \<times> 's"
  ListTasksByJobID :: "'s \<Rightarrow> string \<Rightarrow> StoredTask list result"
  CreateJobOccurrence :: "'s \<Rightarrow> StoredOccurrence \<Rightarrow> error option \<times> 's"
  GetJobOccurrence :: "'s \<Rightarrow> string \<Rightarrow> StoredOccurrence result"
  UpdateJobOccurrence :: "'s \<Rightarrow> instant \<Rightarrow> StoredOccurrence \<Rightarrow> error option \<times> 's"
  DeleteJobOccurrence :: "'s \<Rightarrow> string \<Rightarrow> error option \<times> 's"
  ListRunningOccurrences :: "'s \<Rightarrow> StoredOccurrence list result"
  ListStaleOccurrences :: "'s \<Rightarrow> instant \<Rightarrow> duration \<Rightarrow> StoredOccurrence list result"
  ListQueuedOccurrencesByJobID :: "'s \<Rightarrow> string \<Rightarrow> StoredOccurrence list result"
  ListPendingOccurrences :: "'s \<Rightarrow> string \<Rightarrow> StoredOccurrence list result"
  CreateTaskRun :: "'s \<Rightarrow> TaskRun \<Rightarrow> error option \<times> 's"
  GetTaskRun :: "'s \<Rightarrow> string \<Rightarrow> TaskRun result"
  UpdateTaskRun :: "'s \<Rightarrow> instant \<Rightarrow> TaskRun \<Rightarrow> error option \<times> 's"
  DeleteTaskRun :: "'s \<Rightarrow> string \<Rightarrow> error option \<times> 's"
  ListTaskRunsByOccurrenceID :: "'s \<Rightarrow> string \<Rightarrow> TaskRun list result"
  CreateExecutionAttempt :: "'s \<Rightarrow> ExecutionAttempt \<Rightarrow> error option \<times> 's"
  GetExecutionAttempt :: "'s \<Rightarrow> string \<Rightarrow> ExecutionAttempt result"
  UpdateExecutionAttempt :: "'s \<Rightarrow> ExecutionAttempt \<Rightarrow> error option \<times> 's"
  ListExecutionAttemptsByTaskRunID :: "'s \<Rightarrow> string \<Rightarrow> ExecutionAttempt list result"

subsection \<open>The abstract store\<close>

text \<open>
  What the store means to its clients: five finite maps. Tasks and occurrences are kept under their
  job, so their keys are pairs (job, identifier). The conditions on identifiers are what the key
  schema and the searches by key suffix need, and what generated identifiers satisfy.
\<close>

record AStore =
  a_jobs :: "string \<rightharpoonup> StoredJob"
  a_tasks :: "string \<times> string \<rightharpoonup> StoredTask"
  a_occs :: "string \<times> string \<rightharpoonup> StoredOccurrence"
  a_runs :: "string \<rightharpoonup> TaskRun"
  a_attempts :: "string \<rightharpoonup> ExecutionAttempt"

definition job_id_ok :: "string \<Rightarrow> bool" where
  "job_id_ok i \<longleftrightarrow> slash_free i \<and> i \<noteq> ''task'' \<and> i \<noteq> ''occurrence''"

definition task_id_ok :: "string \<Rightarrow> bool" where
  "task_id_ok i \<longleftrightarrow> slash_free i \<and> length i = 41"

definition occ_id_ok :: "string \<Rightarrow> bool" where
  "occ_id_ok i \<longleftrightarrow> slash_free i \<and> length i = 40"

abbreviation task_key :: "StoredTask \<Rightarrow> string \<times> string" where
  "task_key t \<equiv> (st_JobID t, st_ID t)"

abbreviation occ_key :: "StoredOccurrence \<Rightarrow> string \<times> string" where
  "occ_key oc \<equiv> (so_JobID oc, so_ID oc)"

text \<open>Times outside the years 0 to 9999 cannot be encoded.\<close>

definition opt_year_ok :: "instant option \<Rightarrow> bool" where
  "opt_year_ok t \<longleftrightarrow> (case t of None \<Rightarrow> True | Some i \<Rightarrow> year_ok i)"

definition job_times_ok :: "StoredJob \<Rightarrow> bool" where
  "job_times_ok j \<longleftrightarrow>
     opt_year_ok (sj_LastRunTime j) \<and> year_ok (sj_CreatedAt j) \<and> year_ok (sj_UpdatedAt j)"

definition task_times_ok :: "StoredTask \<Rightarrow> bool" where
  "task_times_ok t \<longleftrightarrow> year_ok (st_CreatedAt t) \<and> year_ok (st_UpdatedAt t)"

definition occ_times_ok :: "StoredOccurrence \<Rightarrow> bool" where
  "occ_times_ok oc \<longleftrightarrow> year_ok (so_ScheduledTime oc) \<and> opt_year_ok (so_StartTime oc)
     \<and> opt_year_ok (so_EndTime oc) \<and> year_ok (so_CreatedAt oc) \<and> year_ok (so_UpdatedAt oc)"

definition run_times_ok :: "TaskRun \<Rightarrow> bool" where
  "run_times_ok r \<longleftrightarrow> opt_year_ok (tr_StartTime r) \<and> opt_year_ok (tr_EndTime r)
     \<and> year_ok (tr_CreatedAt r) \<and> year_ok (tr_UpdatedAt r)"

definition attempt_times_ok :: "ExecutionAttempt \<Rightarrow> bool" where
  "attempt_times_ok a \<longleftrightarrow>
     year_ok (ea_StartTime a) \<and> opt_year_ok (ea_EndTime a) \<and> year_ok (ea_CreatedAt a)"

text \<open>A running occurrence that started before \<open>now\<close> less the threshold.\<close>

definition stale :: "instant \<Rightarrow> duration \<Rightarrow> StoredOccurrence \<Rightarrow> bool" where
  "stale now threshold oc \<longleftrightarrow>
     so_Status oc = JobStatusRunning \<and>
     (case so_StartTime oc of None \<Rightarrow> False | Some t \<Rightarrow> t < add_dur now (- threshold))"

text \<open>Every record lies under the key made of its own fields, and can be encoded.\<close>

definition well_keyed :: "AStore \<Rightarrow> bool" where
  "well_keyed a \<longleftrightarrow>
     (\<forall>i j. a_jobs a i = Some j \<longrightarrow> sj_ID j = i \<and> job_id_ok i \<and> job_times_ok j) \<and>
     (\<forall>k t. a_tasks a k = Some t \<longrightarrow>
        task_key t = k \<and> job_id_ok (st_JobID t) \<and> task_id_ok (st_ID t) \<and> task_times_ok t) \<and>
     (\<forall>k oc. a_occs a k = Some oc \<longrightarrow>
        occ_key oc = k \<and> job_id_ok (so_JobID oc) \<and> occ_id_ok (so_ID oc) \<and> occ_times_ok oc) \<and>
     (\<forall>i r. a_runs a i = Some r \<longrightarrow> tr_ID r = i \<and> slash_free i \<and> run_times_ok r) \<and>
     (\<forall>i e. a_attempts a i = Some e \<longrightarrow> ea_ID e = i \<and> slash_free i \<and> attempt_times_ok e)"

subsection \<open>The shapes of the operations\<close>

text \<open>
  What an operation on one map promises: \<open>r\<close> is its error, if any, \<open>m\<close> and \<open>m'\<close> the map before and
  after. A failed operation changes nothing; the error that names a duplicate or a missing record is
  only given for one.
\<close>

definition create_spec ::
  "('k \<rightharpoonup> 'v) \<Rightarrow> 'k \<Rightarrow> 'v \<Rightarrow> error \<Rightarrow> error option \<Rightarrow> ('k \<rightharpoonup> 'v) \<Rightarrow> bool" where
  "create_spec m k v exists r m' \<longleftrightarrow>
     (case r of None \<Rightarrow> m k = None \<and> m' = m(k \<mapsto> v)
      | Some e \<Rightarrow> m' = m \<and> (e = exists \<longrightarrow> m k \<noteq> None))"

definition update_spec ::
  "('k \<rightharpoonup> 'v) \<Rightarrow> 'k \<Rightarrow> 'v \<Rightarrow> error \<Rightarrow> error option \<Rightarrow> ('k \<rightharpoonup> 'v) \<Rightarrow> bool" where
  "update_spec m k v missing r m' \<longleftrightarrow>
     (case r of None \<Rightarrow> m k \<noteq> None \<and> m' = m(k \<mapsto> v)
      | Some e \<Rightarrow> m' = m \<and> (e = missing \<longrightarrow> m k = None))"

definition delete_spec ::
  "('k \<rightharpoonup> 'v) \<Rightarrow> 'k \<Rightarrow> error option \<Rightarrow> ('k \<rightharpoonup> 'v) \<Rightarrow> bool" where
  "delete_spec m k r m' \<longleftrightarrow> (case r of None \<Rightarrow> m' = m(k := None) | Some e \<Rightarrow> m' = m)"

definition get_spec :: "('k \<rightharpoonup> 'v) \<Rightarrow> 'k \<Rightarrow> error \<Rightarrow> 'v result \<Rightarrow> bool" where
  "get_spec m k missing r \<longleftrightarrow>
     (case r of Inr v \<Rightarrow> m k = Some v | Inl e \<Rightarrow> e = missing \<longrightarrow> m k = None)"

text \<open>Search by the second component of a key: any record with that identifier may be found.\<close>

definition find_spec :: "('j \<times> 'k \<rightharpoonup> 'v) \<Rightarrow> 'k \<Rightarrow> error \<Rightarrow> 'v result \<Rightarrow> bool" where
  "find_spec m k missing r \<longleftrightarrow>
     (case r of Inr v \<Rightarrow> \<exists>j. m (j, k) = Some v
      | Inl e \<Rightarrow> e = missing \<longrightarrow> (\<forall>j. m (j, k) = None))"

definition find_delete_spec ::
  "('j \<times> 'k \<rightharpoonup> 'v) \<Rightarrow> 'k \<Rightarrow> error option \<Rightarrow> ('j \<times> 'k \<rightharpoonup> 'v) \<Rightarrow> bool" where
  "find_delete_spec m k r m' \<longleftrightarrow>
     (case r of None \<Rightarrow> \<exists>j. m (j, k) \<noteq> None \<and> m' = m((j, k) := None) | Some e \<Rightarrow> m' = m)"

definition list_spec :: "('k \<rightharpoonup> 'v) \<Rightarrow> ('v \<Rightarrow> bool) \<Rightarrow> 'v list result \<Rightarrow> bool" where
  "list_spec m P r \<longleftrightarrow>
     (case r of Inr vs \<Rightarrow> distinct vs \<and> set vs = {v \<in> ran m. P v} | Inl e \<Rightarrow> True)"

lemmas storage_spec_defs = create_spec_def update_spec_def delete_spec_def get_spec_def
  find_spec_def find_delete_spec_def list_spec_def

subsection \<open>The contract\<close>

text \<open>
  The contract of a store with abstraction \<open>abs\<close> and invariant \<open>invar\<close>: every operation keeps the
  invariant, changes at most the map it is about, and acts on it as its shape says, whether or not
  the backend fails.
\<close>

locale storage =
  fixes S :: "'s Storage"
    and abs :: "'s \<Rightarrow> AStore"
    and invar :: "'s \<Rightarrow> bool"
  assumes invar_keyed: "invar s \<Longrightarrow> well_keyed (abs s)"
    and CreateJob_law: "invar s \<Longrightarrow> job_id_ok (sj_ID jb) \<Longrightarrow> CreateJob S s jb = (r, s') \<Longrightarrow>
      invar s' \<and> abs s' = (abs s)\<lparr>a_jobs := a_jobs (abs s')\<rparr> \<and>
      create_spec (a_jobs (abs s)) (sj_ID jb) jb (ErrJobExists (sj_ID jb)) r (a_jobs (abs s'))"
    and GetJob_law: "invar s \<Longrightarrow> job_id_ok i \<Longrightarrow>
      get_spec (a_jobs (abs s)) i (ErrJobNotFound i) (GetJob S s i)"
    and UpdateJob_law: "invar s \<Longrightarrow> job_id_ok (sj_ID jb) \<Longrightarrow> UpdateJob S s now jb = (r, s') \<Longrightarrow>
      invar s' \<and> abs s' = (abs s)\<lparr>a_jobs := a_jobs (abs s')\<rparr> \<and>
      update_spec (a_jobs (abs s)) (sj_ID jb) (jb\<lparr>sj_UpdatedAt := now\<rparr>) (ErrJobNotFound (sj_ID jb)) r (a_jobs (abs s'))"
    and DeleteJob_law: "invar s \<Longrightarrow> job_id_ok i \<Longrightarrow> DeleteJob S s i = (r, s') \<Longrightarrow>
      invar s' \<and> abs s' = (abs s)\<lparr>a_jobs := a_jobs (abs s')\<rparr> \<and>
      delete_spec (a_jobs (abs s)) i r (a_jobs (abs s'))"
    and ListJobs_law: "invar s \<Longrightarrow> list_spec (a_jobs (abs s)) (\<lambda>_. True) (ListJobs S s)"
    and CreateTask_law: "invar s \<Longrightarrow> job_id_ok (st_JobID tk) \<Longrightarrow> task_id_ok (st_ID tk) \<Longrightarrow> CreateTask S s tk = (r, s') \<Longrightarrow>
      invar s' \<and> abs s' = (abs s)\<lparr>a_tasks := a_tasks (abs s')\<rparr> \<and>
      create_spec (a_tasks (abs s)) (task_key tk) tk (ErrTaskExists (st_ID tk)) r (a_tasks (abs s'))"
    and GetTask_law: "invar s \<Longrightarrow> task_id_ok i \<Longrightarrow>
      find_spec (a_tasks (abs s)) i (ErrTaskNotFound i) (GetTask S s i)"
    and UpdateTask_law: "invar s \<Longrightarrow> job_id_ok (st_JobID tk) \<Longrightarrow> task_id_ok (st_ID tk) \<Longrightarrow> UpdateTask S s now tk = (r, s') \<Longrightarrow>
      invar s' \<and> abs s' = (abs s)\<lparr>a_tasks := a_tasks (abs s')\<rparr> \<and>
      update_spec (a_tasks (abs s)) (task_key tk) (tk\<lparr>st_UpdatedAt := now\<rparr>) (ErrTaskNotFound (st_ID tk)) r (a_tasks (abs s'))"
    and DeleteTask_law: "invar s \<Longrightarrow> task_id_ok i \<Longrightarrow> DeleteTask S s i = (r, s') \<Longrightarrow>
      invar s' \<and> abs s' = (abs s)\<lparr>a_tasks := a_tasks (abs s')\<rparr> \<and>
      find_delete_spec (a_tasks (abs s)) i r (a_tasks (abs s'))"
    and ListTasksByJobID_law: "invar s \<Longrightarrow> job_id_ok i \<Longrightarrow> list_spec (a_tasks (abs s)) (\<lambda>t. st_JobID t = i) (ListTasksByJobID S s i)"
    and CreateJobOccurrence_law: "invar s \<Longrightarrow> job_id_ok (so_JobID oc) \<Longrightarrow> occ_id_ok (so_ID oc) \<Longrightarrow> CreateJobOccurrence S s oc = (r, s') \<Longrightarrow>
      invar s' \<and> abs s' = (abs s)\<lparr>a_occs := a_occs (abs s')\<rparr> \<and>
      create_spec (a_occs (abs s)) (occ_key oc) oc (ErrOccurrenceExists (so_ID oc)) r (a_occs (abs s'))"
    and GetJobOccurrence_law: "invar s \<Longrightarrow> occ_id_ok i \<Longrightarrow>
      find_spec (a_occs (abs s)) i (ErrOccurrenceNotFound i) (GetJobOccurrence S s i)"
    and UpdateJobOccurrence_law: "invar s \<Longrightarrow> job_id_ok (so_JobID oc) \<Longrightarrow> occ_id_ok (so_ID oc) \<Longrightarrow> UpdateJobOccurrence S s now oc = (r, s') \<Longrightarrow>
      invar s' \<and> abs s' = (abs s)\<lparr>a_occs := a_occs (abs s')\<rparr> \<and>
      update_spec (a_occs (abs s)) (occ_key oc) (oc\<lparr>so_UpdatedAt := now\<rparr>) (ErrOccurrenceNotFound (so_ID oc)) r (a_occs (abs s'))"
    and DeleteJobOccurrence_law: "invar s \<Longrightarrow> occ_id_ok i \<Longrightarrow> DeleteJobOccurrence S s i = (r, s') \<Longrightarrow>
      invar s' \<and> abs s' = (abs s)\<lparr>a_occs := a_occs (abs s')\<rparr> \<and>
      find_delete_spec (a_occs (abs s)) i r (a_occs (abs s'))"
    and ListRunningOccurrences_law: "invar s \<Longrightarrow> list_spec (a_occs (abs s)) (\<lambda>x. so_Status x = JobStatusRunning) (ListRunningOccurrences S s)"
    and ListStaleOccurrences_law: "invar s \<Longrightarrow> list_spec (a_occs (abs s)) (stale now d) (ListStaleOccurrences S s now d)"
    and ListQueuedOccurrencesByJobID_law: "invar s \<Longrightarrow> job_id_ok i \<Longrightarrow>
      list_spec (a_occs (abs s)) (\<lambda>x. so_JobID x = i \<and> so_Status x = JobStatusQueued) (ListQueuedOccurrencesByJobID S s i)"
    and ListPendingOccurrences_law: "invar s \<Longrightarrow> job_id_ok i \<Longrightarrow>
      list_spec (a_occs (abs s)) (\<lambda>x. so_JobID x = i \<and> so_Status x = JobStatusPending) (ListPendingOccurrences S s i)"
    and CreateTaskRun_law: "invar s \<Longrightarrow> slash_free (tr_ID rn) \<Longrightarrow> CreateTaskRun S s rn = (r, s') \<Longrightarrow>
      invar s' \<and> abs s' = (abs s)\<lparr>a_runs := a_runs (abs s')\<rparr> \<and>
      create_spec (a_runs (abs s)) (tr_ID rn) rn (ErrTaskRunExists (tr_ID rn)) r (a_runs (abs s'))"
    and GetTaskRun_law: "invar s \<Longrightarrow> slash_free i \<Longrightarrow>
      get_spec (a_runs (abs s)) i (ErrTaskRunNotFound i) (GetTaskRun S s i)"
    and UpdateTaskRun_law: "invar s \<Longrightarrow> slash_free (tr_ID rn) \<Longrightarrow> UpdateTaskRun S s now rn = (r, s') \<Longrightarrow>
      invar s' \<and> abs s' = (abs s)\<lparr>a_runs := a_runs (abs s')\<rparr> \<and>
      update_spec (a_runs (abs s)) (tr_ID rn) (rn\<lparr>tr_UpdatedAt := now\<rparr>) (ErrTaskRunNotFound (tr_ID rn)) r (a_runs (abs s'))"
    and DeleteTaskRun_law: "invar s \<Longrightarrow> slash_free i \<Longrightarrow> DeleteTaskRun S s i = (r, s') \<Longrightarrow>
      invar s' \<and> abs s' = (abs s)\<lparr>a_runs := a_runs (abs s')\<rparr> \<and>
      delete_spec (a_runs (abs s)) i r (a_runs (abs s'))"
    and ListTaskRunsByOccurrenceID_law: "invar s \<Longrightarrow> list_spec (a_runs (abs s)) (\<lambda>x. tr_OccurrenceID x = i) (ListTaskRunsByOccurrenceID S s i)"
    and CreateExecutionAttempt_law: "invar s \<Longrightarrow> slash_free (ea_ID att) \<Longrightarrow> CreateExecutionAttempt S s att = (r, s') \<Longrightarrow>
      invar s' \<and> abs s' = (abs s)\<lparr>a_attempts := a_attempts (abs s')\<rparr> \<and>
      create_spec (a_attempts (abs s)) (ea_ID att) att (ErrAttemptExists (ea_ID att)) r (a_attempts (abs s'))"
    and GetExecutionAttempt_law: "invar s \<Longrightarrow> slash_free i \<Longrightarrow>
      get_spec (a_attempts (abs s)) i (ErrAttemptNotFound i) (GetExecutionAttempt S s i)"
    and UpdateExecutionAttempt_law: "invar s \<Longrightarrow> slash_free (ea_ID att) \<Longrightarrow> UpdateExecutionAttempt S s att = (r, s') \<Longrightarrow>
      invar s' \<and> abs s' = (abs s)\<lparr>a_attempts := a_attempts (abs s')\<rparr> \<and>
      update_spec (a_attempts (abs s)) (ea_ID att) (att) (ErrAttemptNotFound (ea_ID att)) r (a_attempts (abs s'))"
    and ListExecutionAttemptsByTaskRunID_law: "invar s \<Longrightarrow> list_spec (a_attempts (abs s)) (\<lambda>x. ea_TaskRunID x = i) (ListExecutionAttemptsByTaskRunID S s i)"

text \<open>
  A store whose backend does not fail: every operation succeeds when its precondition on the map
  holds, and gives the error that names the violated precondition otherwise.
\<close>

locale reliable_storage = storage +
  assumes CreateJob_ok: "invar s \<Longrightarrow> job_id_ok (sj_ID jb) \<Longrightarrow> job_times_ok jb \<Longrightarrow>
      fst (CreateJob S s jb) = (if a_jobs (abs s) (sj_ID jb) = None then None else Some (ErrJobExists (sj_ID jb)))"
    and GetJob_ok: "invar s \<Longrightarrow> job_id_ok i \<Longrightarrow>
      GetJob S s i = (case a_jobs (abs s) i of None \<Rightarrow> Inl (ErrJobNotFound i) | Some v \<Rightarrow> Inr v)"
    and UpdateJob_ok: "invar s \<Longrightarrow> job_id_ok (sj_ID jb) \<Longrightarrow> job_times_ok (jb\<lparr>sj_UpdatedAt := now\<rparr>) \<Longrightarrow>
      fst (UpdateJob S s now jb) = (if a_jobs (abs s) (sj_ID jb) = None then Some (ErrJobNotFound (sj_ID jb)) else None)"
    and DeleteJob_ok: "invar s \<Longrightarrow> job_id_ok i \<Longrightarrow> fst (DeleteJob S s i) = None"
    and ListJobs_ok: "invar s \<Longrightarrow> \<exists>vs. ListJobs S s = Inr vs"
    and CreateTask_ok: "invar s \<Longrightarrow> job_id_ok (st_JobID tk) \<Longrightarrow> task_id_ok (st_ID tk) \<Longrightarrow> task_times_ok tk \<Longrightarrow>
      fst (CreateTask S s tk) = (if a_tasks (abs s) (task_key tk) = None then None else Some (ErrTaskExists (st_ID tk)))"
    and GetTask_ok: "invar s \<Longrightarrow> task_id_ok i \<Longrightarrow> a_tasks (abs s) (j, i) \<noteq> None \<Longrightarrow>
      \<exists>v. GetTask S s i = Inr v"
    and UpdateTask_ok: "invar s \<Longrightarrow> job_id_ok (st_JobID tk) \<Longrightarrow> task_id_ok (st_ID tk) \<Longrightarrow> task_times_ok (tk\<lparr>st_UpdatedAt := now\<rparr>) \<Longrightarrow>
      fst (UpdateTask S s now tk) = (if a_tasks (abs s) (task_key tk) = None then Some (ErrTaskNotFound (st_ID tk)) else None)"
    and DeleteTask_ok: "invar s \<Longrightarrow> task_id_ok i \<Longrightarrow> a_tasks (abs s) (j, i) \<noteq> None \<Longrightarrow>
      fst (DeleteTask S s i) = None"
    and ListTasksByJobID_ok: "invar s \<Longrightarrow> job_id_ok i \<Longrightarrow> \<exists>vs. ListTasksByJobID S s i = Inr vs"
    and CreateJobOccurrence_ok: "invar s \<Longrightarrow> job_id_ok (so_JobID oc) \<Longrightarrow> occ_id_ok (so_ID oc) \<Longrightarrow> occ_times_ok oc \<Longrightarrow>
      fst (CreateJobOccurrence S s oc) = (if a_occs (abs s) (occ_key oc) = None then None else Some (ErrOccurrenceExists (so_ID oc)))"
    and GetJobOccurrence_ok: "invar s \<Longrightarrow> occ_id_ok i \<Longrightarrow> a_occs (abs s) (j, i) \<noteq> None \<Longrightarrow>
      \<exists>v. GetJobOccurrence S s i = Inr v"
    and UpdateJobOccurrence_ok: "invar s \<Longrightarrow> job_id_ok (so_JobID oc) \<Longrightarrow> occ_id_ok (so_ID oc) \<Longrightarrow> occ_times_ok (oc\<lparr>so_UpdatedAt := now\<rparr>) \<Longrightarrow>
      fst (UpdateJobOccurrence S s now oc) = (if a_occs (abs s) (occ_key oc) = None then Some (ErrOccurrenceNotFound (so_ID oc)) else None)"
    and DeleteJobOccurrence_ok: "invar s \<Longrightarrow> occ_id_ok i \<Longrightarrow> a_occs (abs s) (j, i) \<noteq> None \<Longrightarrow>
      fst (DeleteJobOccurrence S s i) = None"
    and ListRunningOccurrences_ok: "invar s \<Longrightarrow> \<exists>vs. ListRunningOccurrences S s = Inr vs"
    and ListStaleOccurrences_ok: "invar s \<Longrightarrow> \<exists>vs. ListStaleOccurrences S s now d = Inr vs"
    and ListQueuedOccurrencesByJobID_ok: "invar s \<Longrightarrow> job_id_ok i \<Longrightarrow> \<exists>vs. ListQueuedOccurrencesByJobID S s i = Inr vs"
    and ListPendingOccurrences_ok: "invar s \<Longrightarrow> job_id_ok i \<Longrightarrow> \<exists>vs. ListPendingOccurrences S s i = Inr vs"
    and CreateTaskRun_ok: "invar s \<Longrightarrow> slash_free (tr_ID rn) \<Longrightarrow> run_times_ok rn \<Longrightarrow>
      fst (CreateTaskRun S s rn) = (if a_runs (abs s) (tr_ID rn) = None then None else Some (ErrTaskRunExists (tr_ID rn)))"
    and GetTaskRun_ok: "invar s \<Longrightarrow> slash_free i \<Longrightarrow>
      GetTaskRun S s i = (case a_runs (abs s) i of None \<Rightarrow> Inl (ErrTaskRunNotFound i) | Some v \<Rightarrow> Inr v)"
    and UpdateTaskRun_ok: "invar s \<Longrightarrow> slash_free (tr_ID rn) \<Longrightarrow> run_times_ok (rn\<lparr>tr_UpdatedAt := now\<rparr>) \<Longrightarrow>
      fst (UpdateTaskRun S s now rn) = (if a_runs (abs s) (tr_ID rn) = None then Some (ErrTaskRunNotFound (tr_ID rn)) else None)"
    and DeleteTaskRun_ok: "invar s \<Longrightarrow> slash_free i \<Longrightarrow> fst (DeleteTaskRun S s i) = None"
    and ListTaskRunsByOccurrenceID_ok: "invar s \<Longrightarrow> \<exists>vs. ListTaskRunsByOccurrenceID S s i = Inr vs"
    and CreateExecutionAttempt_ok: "invar s \<Longrightarrow> slash_free (ea_ID att) \<Longrightarrow> attempt_times_ok att \<Longrightarrow>
      fst (CreateExecutionAttempt S s att) = (if a_attempts (abs s) (ea_ID att) = None then None else Some (ErrAttemptExists (ea_ID att)))"
    and GetExecutionAttempt_ok: "invar s \<Longrightarrow> slash_free i \<Longrightarrow>
      GetExecutionAttempt S s i = (case a_attempts (abs s) i of None \<Rightarrow> Inl (ErrAttemptNotFound i) | Some v \<Rightarrow> Inr v)"
    and UpdateExecutionAttempt_ok: "invar s \<Longrightarrow> slash_free (ea_ID att) \<Longrightarrow> attempt_times_ok (att) \<Longrightarrow>
      fst (UpdateExecutionAttempt S s att) = (if a_attempts (abs s) (ea_ID att) = None then Some (ErrAttemptNotFound (ea_ID att)) else None)"
    and ListExecutionAttemptsByTaskRunID_ok: "invar s \<Longrightarrow> \<exists>vs. ListExecutionAttemptsByTaskRunID S s i = Inr vs"

end
