(* ===== verification/Metrics.thy ===== *)
theory Metrics
  imports GoTime
begin

text \<open>
  The metrics collectors of \<^verbatim>\<open>metrics/metrics.go\<close>. The interface is a record of functions over the
  state of a collector; \<open>NoOpMetrics\<close> leaves any state alone, \<open>InMemoryMetrics\<close> has the maps of the Go struct. Every
  method runs under the collector's lock, so the calls of several goroutines form one sequence. A
  counter is an \<^verbatim>\<open>int64\<close> and wraps; a missing map entry reads as zero or as the empty slice.
\<close>

record 'm MetricsCollector =
  SetJobsRunning :: "'m \<Rightarrow> int \<Rightarrow> 'm"
  SetJobsInQueue :: "'m \<Rightarrow> int \<Rightarrow> 'm"
  SetJobsPaused :: "'m \<Rightarrow> int \<Rightarrow> 'm"
  IncTaskAttempts :: "'m \<Rightarrow> string \<Rightarrow> string \<Rightarrow> string \<Rightarrow> 'm"
  IncJobOccurrences :: "'m \<Rightarrow> string \<Rightarrow> string \<Rightarrow> 'm"
  IncRecoveryRuns :: "'m \<Rightarrow> string \<Rightarrow> string \<Rightarrow> 'm"
  ObserveJobDuration :: "'m \<Rightarrow> string \<Rightarrow> duration \<Rightarrow> 'm"
  ObserveTaskDuration :: "'m \<Rightarrow> string \<Rightarrow> string \<Rightarrow> duration \<Rightarrow> 'm"
  GetJobsRunning :: "'m \<Rightarrow> int"
  GetJobsInQueue :: "'m \<Rightarrow> int"
  GetJobsPaused :: "'m \<Rightarrow> int"
  GetTaskAttempts :: "'m \<Rightarrow> string \<Rightarrow> string \<Rightarrow> string \<Rightarrow> 64 word"
  GetJobOccurrences :: "'m \<Rightarrow> string \<Rightarrow> string \<Rightarrow> 64 word"
  GetRecoveryRuns :: "'m \<Rightarrow> string \<Rightarrow> string \<Rightarrow> 64 word"

subsection \<open>The collector that does nothing\<close>

definition NoOpMetrics :: "'m MetricsCollector" where
  "NoOpMetrics =
     \<lparr>SetJobsRunning = (\<lambda>m n. m), SetJobsInQueue = (\<lambda>m n. m),
      SetJobsPaused = (\<lambda>m n. m), IncTaskAttempts = (\<lambda>m jobName taskName status. m),
      IncJobOccurrences = (\<lambda>m jobName status. m), IncRecoveryRuns = (\<lambda>m jobName strategy. m),
      ObserveJobDuration = (\<lambda>m jobName duration. m),
      ObserveTaskDuration = (\<lambda>m jobName taskName duration. m),
      GetJobsRunning = (\<lambda>m. 0), GetJobsInQueue = (\<lambda>m. 0), GetJobsPaused = (\<lambda>m. 0),
      GetTaskAttempts = (\<lambda>m jobName taskName status. 0),
      GetJobOccurrences = (\<lambda>m jobName status. 0), GetRecoveryRuns = (\<lambda>m jobName strategy. 0)\<rparr>"

subsection \<open>The in-memory collector\<close>

record InMemoryMetrics =
  jobsRunning :: int
  jobsInQueue :: int
  jobsPaused :: int
  taskAttempts :: "string \<rightharpoonup> 64 word"
  jobOccurrences :: "string \<rightharpoonup> 64 word"
  recoveryRuns :: "string \<rightharpoonup> 64 word"
  jobDurations :: "string \<rightharpoonup> duration list"
  taskDurations :: "string \<rightharpoonup> duration list"

definition NewInMemoryMetrics :: InMemoryMetrics where
  "NewInMemoryMetrics =
     \<lparr>jobsRunning = 0, jobsInQueue = 0, jobsPaused = 0, taskAttempts = Map.empty,
      jobOccurrences = Map.empty, recoveryRuns = Map.empty, jobDurations = Map.empty,
      taskDurations = Map.empty\<rparr>"

definition counter :: "(string \<rightharpoonup> 64 word) \<Rightarrow> string \<Rightarrow> 64 word" where
  "counter m key = (case m key of None \<Rightarrow> 0 | Some n \<Rightarrow> n)"

definition bump :: "(string \<rightharpoonup> 64 word) \<Rightarrow> string \<Rightarrow> (string \<rightharpoonup> 64 word)" where
  "bump m key = m(key \<mapsto> counter m key + 1)"

definition observations :: "(string \<rightharpoonup> duration list) \<Rightarrow> string \<Rightarrow> duration list" where
  "observations m key = (case m key of None \<Rightarrow> [] | Some ds \<Rightarrow> ds)"

definition attempts_key :: "string \<Rightarrow> string \<Rightarrow> string \<Rightarrow> string" where
  "attempts_key jobName taskName status = jobName @ '':'' @ taskName @ '':'' @ status"

definition pair_key :: "string \<Rightarrow> string \<Rightarrow> string" where
  "pair_key jobName label = jobName @ '':'' @ label"

definition InMemory_SetJobsRunning :: "InMemoryMetrics \<Rightarrow> int \<Rightarrow> InMemoryMetrics" where
  "InMemory_SetJobsRunning m n = m\<lparr>jobsRunning := n\<rparr>"

definition InMemory_SetJobsInQueue :: "InMemoryMetrics \<Rightarrow> int \<Rightarrow> InMemoryMetrics" where
  "InMemory_SetJobsInQueue m n = m\<lparr>jobsInQueue := n\<rparr>"

definition InMemory_SetJobsPaused :: "InMemoryMetrics \<Rightarrow> int \<Rightarrow> InMemoryMetrics" where
  "InMemory_SetJobsPaused m n = m\<lparr>jobsPaused := n\<rparr>"

definition InMemory_IncTaskAttempts ::
  "InMemoryMetrics \<Rightarrow> string \<Rightarrow> string \<Rightarrow> string \<Rightarrow> InMemoryMetrics" where
  "InMemory_IncTaskAttempts m jobName taskName status =
     m\<lparr>taskAttempts := bump (taskAttempts m) (attempts_key jobName taskName status)\<rparr>"

definition InMemory_IncJobOccurrences ::
  "InMemoryMetrics \<Rightarrow> string \<Rightarrow> string \<Rightarrow> InMemoryMetrics" where
  "InMemory_IncJobOccurrences m jobName status =
     m\<lparr>jobOccurrences := bump (jobOccurrences m) (pair_key jobName status)\<rparr>"

definition InMemory_IncRecoveryRuns ::
  "InMemoryMetrics \<Rightarrow> string \<Rightarrow> string \<Rightarrow> InMemoryMetrics" where
  "InMemory_IncRecoveryRuns m jobName strategy =
     m\<lparr>recoveryRuns := bump (recoveryRuns m) (pair_key jobName strategy)\<rparr>"

definition InMemory_GetTaskAttempts ::
  "InMemoryMetrics \<Rightarrow> string \<Rightarrow> string \<Rightarrow> string \<Rightarrow> 64 word" where
  "InMemory_GetTaskAttempts m jobName taskName status =
     counter (taskAttempts m) (attempts_key jobName taskName status)"

definition InMemory_GetJobOccurrences ::
  "InMemoryMetrics \<Rightarrow> string \<Rightarrow> string \<Rightarrow> 64 word" where
  "InMemory_GetJobOccurrences m jobName status =
     counter (jobOccurrences m) (pair_key jobName status)"

definition InMemory_GetRecoveryRuns ::
  "InMemoryMetrics \<Rightarrow> string \<Rightarrow> string \<Rightarrow> 64 word" where
  "InMemory_GetRecoveryRuns m jobName strategy =
     counter (recoveryRuns m) (pair_key jobName strategy)"

definition InMemory_ObserveJobDuration ::
  "InMemoryMetrics \<Rightarrow> string \<Rightarrow> duration \<Rightarrow> InMemoryMetrics" where
  "InMemory_ObserveJobDuration m jobName d =
     m\<lparr>jobDurations := (jobDurations m)(jobName \<mapsto> observations (jobDurations m) jobName @ [d])\<rparr>"

definition InMemory_ObserveTaskDuration ::
  "InMemoryMetrics \<Rightarrow> string \<Rightarrow> string \<Rightarrow> duration \<Rightarrow> InMemoryMetrics" where
  "InMemory_ObserveTaskDuration m jobName taskName d =
     (let key = pair_key jobName taskName
      in m\<lparr>taskDurations := (taskDurations m)(key \<mapsto> observations (taskDurations m) key @ [d])\<rparr>)"

definition InMemory_GetJobDurations :: "InMemoryMetrics \<Rightarrow> string \<Rightarrow> duration list" where
  "InMemory_GetJobDurations m jobName = observations (jobDurations m) jobName"

definition InMemory_GetTaskDurations :: "InMemoryMetrics \<Rightarrow> string \<Rightarrow> string \<Rightarrow> duration list" where
  "InMemory_GetTaskDurations m jobName taskName =
     observations (taskDurations m) (pair_key jobName taskName)"

definition InMemory_Reset :: "InMemoryMetrics \<Rightarrow> InMemoryMetrics" where
  "InMemory_Reset m =
     m\<lparr>jobsRunning := 0, jobsInQueue := 0, jobsPaused := 0, taskAttempts := Map.empty,
       jobOccurrences := Map.empty, recoveryRuns := Map.empty, jobDurations := Map.empty,
       taskDurations := Map.empty\<rparr>"

definition InMemoryCollector :: "InMemoryMetrics MetricsCollector" where
  "InMemoryCollector =
     \<lparr>SetJobsRunning = InMemory_SetJobsRunning, SetJobsInQueue = InMemory_SetJobsInQueue,
      SetJobsPaused = InMemory_SetJobsPaused, IncTaskAttempts = InMemory_IncTaskAttempts,
      IncJobOccurrences = InMemory_IncJobOccurrences, IncRecoveryRuns = InMemory_IncRecoveryRuns,
      ObserveJobDuration = InMemory_ObserveJobDuration,
      ObserveTaskDuration = InMemory_ObserveTaskDuration,
      GetJobsRunning = jobsRunning, GetJobsInQueue = jobsInQueue, GetJobsPaused = jobsPaused,
      GetTaskAttempts = InMemory_GetTaskAttempts, GetJobOccurrences = InMemory_GetJobOccurrences,
      GetRecoveryRuns = InMemory_GetRecoveryRuns\<rparr>"

subsection \<open>Counters count\<close>

lemma counter_bump [simp]: "counter (bump m k) k' = counter m k' + (if k' = k then 1 else 0)"
  by (simp add: counter_def bump_def)

lemma counter_fold:
  "counter (fold (\<lambda>k m. bump m k) ks m) k = counter m k + of_nat (count_list ks k)"
  by (induction ks arbitrary: m) auto

lemma counter_empty [simp]: "counter Map.empty k = 0"
  by (simp add: counter_def)

text \<open>Composite keys of names without a colon are equal only for equal names.\<close>

lemma pair_key_inject:
  "CHR '':'' \<notin> set j \<Longrightarrow> CHR '':'' \<notin> set j' \<Longrightarrow> pair_key j l = pair_key j' l' \<longleftrightarrow> j = j' \<and> l = l'"
  unfolding pair_key_def using append_sep_inject [of "CHR '':''" j j' l l'] by simp

lemma attempts_key_inject:
  assumes "CHR '':'' \<notin> set j" "CHR '':'' \<notin> set j'" "CHR '':'' \<notin> set t" "CHR '':'' \<notin> set t'"
  shows "attempts_key j t s = attempts_key j' t' s' \<longleftrightarrow> j = j' \<and> t = t' \<and> s = s'"
  using pair_key_inject [OF assms(1,2), of "pair_key t s" "pair_key t' s'"]
    pair_key_inject [OF assms(3,4), of s s']
  by (simp add: attempts_key_def pair_key_def)

text \<open>
  C38. After any sequence of counted attempts the counter of a job, a task and a status is its value
  before plus the number of attempts counted under exactly that job, task and status, modulo the
  64 bits of the counter, when no job or task name contains the colon the keys are joined with.
\<close>

theorem task_attempts_counted:
  assumes "\<forall>(j, t, s) \<in> set ((jobName, taskName, status) # events). CHR '':'' \<notin> set j \<and> CHR '':'' \<notin> set t"
  shows "InMemory_GetTaskAttempts
      (fold (\<lambda>(j, t, s) m. InMemory_IncTaskAttempts m j t s) events m) jobName taskName status
    = InMemory_GetTaskAttempts m jobName taskName status
      + of_nat (count_list events (jobName, taskName, status))"
  using assms
proof (induction events arbitrary: m)
  case (Cons e events)
  obtain j t s where e: "e = (j, t, s)" by (cases e)
  have key: "attempts_key jobName taskName status = attempts_key j t s
      \<longleftrightarrow> jobName = j \<and> taskName = t \<and> status = s"
    using Cons.prems by (intro attempts_key_inject) (simp_all add: e)
  have one: "InMemory_GetTaskAttempts (InMemory_IncTaskAttempts m j t s) jobName taskName status
      = InMemory_GetTaskAttempts m jobName taskName status
        + (if e = (jobName, taskName, status) then 1 else 0)" for m
    using key by (auto simp: InMemory_GetTaskAttempts_def InMemory_IncTaskAttempts_def e)
  have "InMemory_GetTaskAttempts
      (fold (\<lambda>(j, t, s) m. InMemory_IncTaskAttempts m j t s) events (InMemory_IncTaskAttempts m j t s))
        jobName taskName status
    = InMemory_GetTaskAttempts (InMemory_IncTaskAttempts m j t s) jobName taskName status
      + of_nat (count_list events (jobName, taskName, status))"
    using Cons.prems by (intro Cons.IH) auto
  then show ?case unfolding one by (simp add: e)
qed simp

theorem task_attempts_counted_witness:
  "InMemory_GetTaskAttempts
     (fold (\<lambda>(j, t, s) m. InMemory_IncTaskAttempts m j t s)
        [(''a'', ''t'', ''Failed''), (''a'', ''t'', ''Success''), (''a'', ''t'', ''Failed'')]
        NewInMemoryMetrics) ''a'' ''t'' ''Failed'' = 2"
  using task_attempts_counted [of "''a''" "''t''" "''Failed''"
      "[(''a'', ''t'', ''Failed''), (''a'', ''t'', ''Success''), (''a'', ''t'', ''Failed'')]"
      NewInMemoryMetrics]
  by (simp add: InMemory_GetTaskAttempts_def NewInMemoryMetrics_def)

end
