(* ===== verification/Json.thy ===== *)
theory Json
  imports StorageInterface
begin

text \<open>
  The JSON documents of the stored records, as \<^verbatim>\<open>encoding/json\<close> writes and reads them: an object with
  one member per exported field, under the field's name. \<open>JTime\<close> and \<open>JBytes\<close> are the strings that
  encode a time (RFC 3339 with nanoseconds) and a byte slice (base 64); the text syntax below the
  level of documents is not modelled. Encoding fails on a time outside the years 0 to 9999. Decoding
  into a zero struct leaves a field that is absent or \<^verbatim>\<open>null\<close> at its zero value.
\<close>

datatype json =
    JNull
  | JBool bool
  | JInt int
  | JStr string
  | JBytes blob
  | JTime instant
  | JObject "(string \<times> json) list"

fun member_of :: "json \<Rightarrow> string \<Rightarrow> json result" where
  "member_of (JObject fs) n = Inr (case map_of fs n of None \<Rightarrow> JNull | Some v \<Rightarrow> v)"
| "member_of _ n = Inl ErrUnmarshal"

fun as_string :: "json \<Rightarrow> string result" where
  "as_string JNull = Inr ''''"
| "as_string (JStr s) = Inr s"
| "as_string _ = Inl ErrUnmarshal"

fun as_int :: "json \<Rightarrow> int result" where
  "as_int JNull = Inr 0"
| "as_int (JInt i) = Inr i"
| "as_int _ = Inl ErrUnmarshal"

fun as_bool :: "json \<Rightarrow> bool result" where
  "as_bool JNull = Inr False"
| "as_bool (JBool b) = Inr b"
| "as_bool _ = Inl ErrUnmarshal"

fun as_bytes :: "json \<Rightarrow> blob option result" where
  "as_bytes JNull = Inr None"
| "as_bytes (JBytes b) = Inr (Some b)"
| "as_bytes _ = Inl ErrUnmarshal"

fun as_time :: "json \<Rightarrow> instant result" where
  "as_time JNull = Inr zero_time"
| "as_time (JTime t) = Inr t"
| "as_time _ = Inl ErrUnmarshal"

fun as_time_ptr :: "json \<Rightarrow> instant option result" where
  "as_time_ptr JNull = Inr None"
| "as_time_ptr (JTime t) = Inr (Some t)"
| "as_time_ptr _ = Inl ErrUnmarshal"

definition of_bytes :: "blob option \<Rightarrow> json" where
  "of_bytes b = (case b of None \<Rightarrow> JNull | Some x \<Rightarrow> JBytes x)"

definition of_time_ptr :: "instant option \<Rightarrow> json" where
  "of_time_ptr t = (case t of None \<Rightarrow> JNull | Some i \<Rightarrow> JTime i)"

definition field :: "json \<Rightarrow> string \<Rightarrow> (json \<Rightarrow> 'a result) \<Rightarrow> ('a \<Rightarrow> 'b result) \<Rightarrow> 'b result" where
  "field v n conv k = bindE (bindE (member_of v n) conv) k"

subsection \<open>Jobs\<close>

definition marshal_job :: "StoredJob \<Rightarrow> json result" where
  "marshal_job j =
     (if job_times_ok j then
        Inr (JObject
          [(''ID'', JStr (sj_ID j)), (''Name'', JStr (sj_Name j)),
           (''ScheduleType'', JStr (sj_ScheduleType j)),
           (''ScheduleConfig'', of_bytes (sj_ScheduleConfig j)),
           (''Config'', of_bytes (sj_Config j)), (''Version'', JInt (sj_Version j)),
           (''Active'', JBool (sj_Active j)), (''Paused'', JBool (sj_Paused j)),
           (''LastRunTime'', of_time_ptr (sj_LastRunTime j)),
           (''CreatedAt'', JTime (sj_CreatedAt j)), (''UpdatedAt'', JTime (sj_UpdatedAt j))])
      else Inl ErrMarshal)"

definition unmarshal_job :: "json \<Rightarrow> StoredJob result" where
  "unmarshal_job v =
     field v ''ID'' as_string (\<lambda>i. field v ''Name'' as_string (\<lambda>n.
     field v ''ScheduleType'' as_string (\<lambda>sty. field v ''ScheduleConfig'' as_bytes (\<lambda>sc.
     field v ''Config'' as_bytes (\<lambda>cfg. field v ''Version'' as_int (\<lambda>ver.
     field v ''Active'' as_bool (\<lambda>act. field v ''Paused'' as_bool (\<lambda>pau.
     field v ''LastRunTime'' as_time_ptr (\<lambda>lrt. field v ''CreatedAt'' as_time (\<lambda>cr.
     field v ''UpdatedAt'' as_time (\<lambda>up.
     Inr \<lparr>sj_ID = i, sj_Name = n, sj_ScheduleType = sty, sj_ScheduleConfig = sc, sj_Config = cfg,
          sj_Version = ver, sj_Active = act, sj_Paused = pau, sj_LastRunTime = lrt,
          sj_CreatedAt = cr, sj_UpdatedAt = up\<rparr>)))))))))))"

subsection \<open>Tasks\<close>

definition marshal_task :: "StoredTask \<Rightarrow> json result" where
  "marshal_task t =
     (if task_times_ok t then
        Inr (JObject
          [(''ID'', JStr (st_ID t)), (''JobID'', JStr (st_JobID t)), (''Name'', JStr (st_Name t)),
           (''Config'', of_bytes (st_Config t)), (''Order'', JInt (st_Order t)),
           (''CreatedAt'', JTime (st_CreatedAt t)), (''UpdatedAt'', JTime (st_UpdatedAt t))])
      else Inl ErrMarshal)"

definition unmarshal_task :: "json \<Rightarrow> StoredTask result" where
  "unmarshal_task v =
     field v ''ID'' as_string (\<lambda>i. field v ''JobID'' as_string (\<lambda>j.
     field v ''Name'' as_string (\<lambda>n. field v ''Config'' as_bytes (\<lambda>cfg.
     field v ''Order'' as_int (\<lambda>ord. field v ''CreatedAt'' as_time (\<lambda>cr.
     field v ''UpdatedAt'' as_time (\<lambda>up.
     Inr \<lparr>st_ID = i, st_JobID = j, st_Name = n, st_Config = cfg, st_Order = ord,
          st_CreatedAt = cr, st_UpdatedAt = up\<rparr>)))))))"

subsection \<open>Occurrences\<close>

definition marshal_occurrence :: "StoredOccurrence \<Rightarrow> json result" where
  "marshal_occurrence oc =
     (if occ_times_ok oc then
        Inr (JObject
          [(''ID'', JStr (so_ID oc)), (''JobID'', JStr (so_JobID oc)),
           (''JobVersion'', JInt (so_JobVersion oc)),
           (''ScheduledTime'', JTime (so_ScheduledTime oc)), (''Status'', JStr (so_Status oc)),
           (''OwningNodeID'', JStr (so_OwningNodeID oc)),
           (''StartTime'', of_time_ptr (so_StartTime oc)),
           (''EndTime'', of_time_ptr (so_EndTime oc)), (''Config'', of_bytes (so_Config oc)),
           (''IsRecoveryRun'', JBool (so_IsRecoveryRun oc)),
           (''CreatedAt'', JTime (so_CreatedAt oc)), (''UpdatedAt'', JTime (so_UpdatedAt oc))])
      else Inl ErrMarshal)"

definition unmarshal_occurrence :: "json \<Rightarrow> StoredOccurrence result" where
  "unmarshal_occurrence v =
     field v ''ID'' as_string (\<lambda>i. field v ''JobID'' as_string (\<lambda>j.
     field v ''JobVersion'' as_int (\<lambda>jv. field v ''ScheduledTime'' as_time (\<lambda>sch.
     field v ''Status'' as_string (\<lambda>sta. field v ''OwningNodeID'' as_string (\<lambda>own.
     field v ''StartTime'' as_time_ptr (\<lambda>stt. field v ''EndTime'' as_time_ptr (\<lambda>ent.
     field v ''Config'' as_bytes (\<lambda>cfg. field v ''IsRecoveryRun'' as_bool (\<lambda>rec.
     field v ''CreatedAt'' as_time (\<lambda>cr. field v ''UpdatedAt'' as_time (\<lambda>up.
     Inr \<lparr>so_ID = i, so_JobID = j, so_JobVersion = jv, so_ScheduledTime = sch, so_Status = sta,
          so_OwningNodeID = own, so_StartTime = stt, so_EndTime = ent, so_Config = cfg,
          so_IsRecoveryRun = rec, so_CreatedAt = cr, so_UpdatedAt = up\<rparr>))))))))))))"

subsection \<open>Task runs and attempts\<close>

definition marshal_run :: "TaskRun \<Rightarrow> json result" where
  "marshal_run r =
     (if run_times_ok r then
        Inr (JObject
          [(''ID'', JStr (tr_ID r)), (''OccurrenceID'', JStr (tr_OccurrenceID r)),
           (''TaskID'', JStr (tr_TaskID r)), (''Status'', JStr (tr_Status r)),
           (''RetryCount'', JInt (tr_RetryCount r)), (''StartTime'', of_time_ptr (tr_StartTime r)),
           (''EndTime'', of_time_ptr (tr_EndTime r)), (''ErrorMessage'', JStr (tr_ErrorMessage r)),
           (''CreatedAt'', JTime (tr_CreatedAt r)), (''UpdatedAt'', JTime (tr_UpdatedAt r))])
      else Inl ErrMarshal)"

definition unmarshal_run :: "json \<Rightarrow> TaskRun result" where
  "unmarshal_run v =
     field v ''ID'' as_string (\<lambda>i. field v ''OccurrenceID'' as_string (\<lambda>oc.
     field v ''TaskID'' as_string (\<lambda>t. field v ''Status'' as_string (\<lambda>sta.
     field v ''RetryCount'' as_int (\<lambda>rc. field v ''StartTime'' as_time_ptr (\<lambda>stt.
     field v ''EndTime'' as_time_ptr (\<lambda>ent. field v ''ErrorMessage'' as_string (\<lambda>msg.
     field v ''CreatedAt'' as_time (\<lambda>cr. field v ''UpdatedAt'' as_time (\<lambda>up.
     Inr \<lparr>tr_ID = i, tr_OccurrenceID = oc, tr_TaskID = t, tr_Status = sta, tr_RetryCount = rc,
          tr_StartTime = stt, tr_EndTime = ent, tr_ErrorMessage = msg, tr_CreatedAt = cr,
          tr_UpdatedAt = up\<rparr>))))))))))"

definition marshal_attempt :: "ExecutionAttempt \<Rightarrow> json result" where
  "marshal_attempt a =
     (if attempt_times_ok a then
        Inr (JObject
          [(''ID'', JStr (ea_ID a)), (''TaskRunID'', JStr (ea_TaskRunID a)),
           (''AttemptNumber'', JInt (ea_AttemptNumber a)), (''Status'', JStr (ea_Status a)),
           (''StartTime'', JTime (ea_StartTime a)), (''EndTime'', of_time_ptr (ea_EndTime a)),
           (''ErrorMessage'', JStr (ea_ErrorMessage a)), (''CreatedAt'', JTime (ea_CreatedAt a))])
      else Inl ErrMarshal)"

definition unmarshal_attempt :: "json \<Rightarrow> ExecutionAttempt result" where
  "unmarshal_attempt v =
     field v ''ID'' as_string (\<lambda>i. field v ''TaskRunID'' as_string (\<lambda>r.
     field v ''AttemptNumber'' as_int (\<lambda>n. field v ''Status'' as_string (\<lambda>sta.
     field v ''StartTime'' as_time (\<lambda>stt. field v ''EndTime'' as_time_ptr (\<lambda>ent.
     field v ''ErrorMessage'' as_string (\<lambda>msg. field v ''CreatedAt'' as_time (\<lambda>cr.
     Inr \<lparr>ea_ID = i, ea_TaskRunID = r, ea_AttemptNumber = n, ea_Status = sta, ea_StartTime = stt,
          ea_EndTime = ent, ea_ErrorMessage = msg, ea_CreatedAt = cr\<rparr>))))))))"

subsection \<open>What is written is read back\<close>

lemma as_bytes_of_bytes [simp]: "as_bytes (of_bytes b) = Inr b"
  by (simp add: of_bytes_def split: option.splits)

lemma as_time_ptr_of_time_ptr [simp]: "as_time_ptr (of_time_ptr t) = Inr t"
  by (simp add: of_time_ptr_def split: option.splits)

lemma field_JObject [simp]:
  "field (JObject fs) n conv k =
     bindE (conv (case map_of fs n of None \<Rightarrow> JNull | Some v \<Rightarrow> v)) k"
  by (simp add: field_def)

lemma job_roundtrip: "marshal_job j = Inr v \<Longrightarrow> unmarshal_job v = Inr j"
  by (auto simp: marshal_job_def unmarshal_job_def split: if_splits)

lemma task_roundtrip: "marshal_task t = Inr v \<Longrightarrow> unmarshal_task v = Inr t"
  by (auto simp: marshal_task_def unmarshal_task_def split: if_splits)

lemma occurrence_roundtrip: "marshal_occurrence oc = Inr v \<Longrightarrow> unmarshal_occurrence v = Inr oc"
  by (auto simp: marshal_occurrence_def unmarshal_occurrence_def split: if_splits)

lemma run_roundtrip: "marshal_run r = Inr v \<Longrightarrow> unmarshal_run v = Inr r"
  by (auto simp: marshal_run_def unmarshal_run_def split: if_splits)

lemma attempt_roundtrip: "marshal_attempt a = Inr v \<Longrightarrow> unmarshal_attempt v = Inr a"
  by (auto simp: marshal_attempt_def unmarshal_attempt_def split: if_splits)

lemma marshal_ok:
  "(\<exists>v. marshal_job j = Inr v) \<longleftrightarrow> job_times_ok j"
  "(\<exists>v. marshal_task t = Inr v) \<longleftrightarrow> task_times_ok t"
  "(\<exists>v. marshal_occurrence oc = Inr v) \<longleftrightarrow> occ_times_ok oc"
  "(\<exists>v. marshal_run r = Inr v) \<longleftrightarrow> run_times_ok r"
  "(\<exists>v. marshal_attempt a = Inr v) \<longleftrightarrow> attempt_times_ok a"
  by (simp_all add: marshal_job_def marshal_task_def marshal_occurrence_def marshal_run_def
      marshal_attempt_def)

end
