(* ===== verification/Executor.thy ===== *)
theory Executor
  imports StorageInterface Metrics Json
begin

text \<open>
  The executor of \<^verbatim>\<open>executor/executor.go\<close>: a job occurrence with its tasks, the retry loop of a task,
  and one attempt. What the functions read from outside is an environment: \<open>Now n\<close> is what the n-th
  call of \<^verbatim>\<open>time.Now\<close> returns, and \<open>ctx_Err d c n\<close> what the n-th look at a context with timeout \<open>d\<close>
  sees, \<open>c\<close> telling whether the task group has been cancelled by then; a select between a context and
  a timer takes the context exactly if that look sees an error; \<open>OutOfRange q\<close> is what the implementation
  makes of a floating-point number beyond the 64-bit integers. What they change is a world: the
  store, the metrics collector, how often the clock and the contexts were looked at, the waits before
  retries, and the hooks called. A Go panic is the result \<open>None\<close>. Contexts are not passed to the
  storage, which ignores them, nor to the task functions: what a function makes of its context is
  part of its outcome, which the attempt's identifiers determine.
\<close>

subsection \<open>Environment and world\<close>

record Env =
  Now :: "nat \<Rightarrow> instant"
  ctx_Err :: "duration \<Rightarrow> bool \<Rightarrow> nat \<Rightarrow> error option"
  NewSHA1 :: uuid5
  OutOfRange :: "rat \<Rightarrow> duration"

datatype hook = OnStart JobOccurrence | OnComplete ExecutionReport

record ('s, 'm) World =
  w_store :: 's
  w_metrics :: 'm
  w_clock :: nat
  w_polls :: nat
  w_canceled :: bool
  w_waits :: "duration list"
  w_hooks :: "hook list"

record ('s, 'm) Executor =
  ex_store :: "'s Storage"
  ex_metrics :: "'m MetricsCollector"

definition time_Now :: "Env \<Rightarrow> ('s, 'm) World \<Rightarrow> instant \<times> ('s, 'm) World" where
  "time_Now E w = (Now E (w_clock w), w\<lparr>w_clock := Suc (w_clock w)\<rparr>)"

definition look_at_ctx :: "Env \<Rightarrow> duration \<Rightarrow> ('s, 'm) World \<Rightarrow> error option \<times> ('s, 'm) World" where
  "look_at_ctx E d w = (ctx_Err E d (w_canceled w) (w_polls w), w\<lparr>w_polls := Suc (w_polls w)\<rparr>)"

definition NewExecutor :: "'s Storage \<Rightarrow> ('s, 'm) Executor" where
  "NewExecutor S = \<lparr>ex_store = S, ex_metrics = NoOpMetrics\<rparr>"

definition SetMetrics :: "('s, 'm) Executor \<Rightarrow> 'm MetricsCollector \<Rightarrow> ('s, 'm) Executor" where
  "SetMetrics e m = e\<lparr>ex_metrics := m\<rparr>"

subsection \<open>One attempt\<close>

text \<open>
  An attempt is split where the task function is called, so that the attempts of parallel tasks can
  interleave: the record of the attempt is created before, and completed after.
\<close>

definition beginAttempt ::
  "Env \<Rightarrow> ('s, 'm) Executor \<Rightarrow> TaskRun \<Rightarrow> int \<Rightarrow> ('s, 'm) World \<Rightarrow> ExecutionAttempt \<times> ('s, 'm) World"
where
  "beginAttempt E e taskRun attemptNum w =
     (let (startTime, w) = time_Now E w;
          (createdAt, w) = time_Now E w;
          attempt =
            \<lparr>ea_ID = GenerateExecutionAttemptID (NewSHA1 E) (tr_ID taskRun) attemptNum,
             ea_TaskRunID = tr_ID taskRun, ea_AttemptNumber = attemptNum,
             ea_Status = TaskStatusRunning, ea_StartTime = startTime, ea_EndTime = None,
             ea_ErrorMessage = '''', ea_CreatedAt = createdAt\<rparr>;
          (err, st) = CreateExecutionAttempt (ex_store e) (w_store w) attempt
      in (attempt, w\<lparr>w_store := st\<rparr>))"

definition defaultTimeout :: duration where
  "defaultTimeout = 5 * word_of_int Minute"

definition attemptTimeout :: "TaskConfig \<Rightarrow> duration" where
  "attemptTimeout config = (case tc_TaskTimeout config of None \<Rightarrow> defaultTimeout | Some d \<Rightarrow> d)"

definition attemptContext :: "TaskRun \<Rightarrow> ExecutionAttempt \<Rightarrow> ExecutionContext" where
  "attemptContext taskRun attempt =
     \<lparr>ec_OccurrenceID = tr_OccurrenceID taskRun, ec_TaskRunID = tr_ID taskRun,
      ec_AttemptID = ea_ID attempt\<rparr>"

definition endAttempt ::
  "Env \<Rightarrow> ('s, 'm) Executor \<Rightarrow> 'tk Job \<Rightarrow> Task \<Rightarrow> TaskRun \<Rightarrow> TaskConfig \<Rightarrow> ExecutionAttempt
   \<Rightarrow> ('s, 'm) World \<Rightarrow> AttemptReport \<times> ('s, 'm) World"
where
  "endAttempt E e job task taskRun config attempt w =
     (let err = t_Fn task (attemptContext taskRun attempt);
          (endTime, w) = time_Now E w;
          duration = sub_instant endTime (ea_StartTime attempt);
          ((status, message), w) =
            (case err of
               None \<Rightarrow> ((TaskStatusSuccess, ''''), w)
             | Some msg \<Rightarrow>
                 (let (ctxErr, w) = look_at_ctx E (attemptTimeout config) w
                  in (if ctxErr = Some ErrDeadlineExceeded
                      then (TaskStatusTimeout, ''task execution timeout'')
                      else (TaskStatusFailed, msg), w)));
          report =
            \<lparr>ar_AttemptNumber = ea_AttemptNumber attempt, ar_Status = status,
             ar_StartTime = ea_StartTime attempt, ar_EndTime = Some endTime,
             ar_Duration = duration, ar_ErrorMessage = message\<rparr>;
          attempt = attempt\<lparr>ea_EndTime := Some endTime, ea_Status := status,
                            ea_ErrorMessage := message\<rparr>;
          (uerr, st) = UpdateExecutionAttempt (ex_store e) (w_store w) attempt;
          m = IncTaskAttempts (ex_metrics e) (w_metrics w) (j_Name job) (t_Name task) status;
          m = ObserveTaskDuration (ex_metrics e) m (j_Name job) (t_Name task) duration
      in (report, w\<lparr>w_store := st, w_metrics := m\<rparr>))"

definition executeAttempt ::
  "Env \<Rightarrow> ('s, 'm) Executor \<Rightarrow> 'tk Job \<Rightarrow> Task \<Rightarrow> TaskRun \<Rightarrow> int \<Rightarrow> TaskConfig \<Rightarrow> ('s, 'm) World
   \<Rightarrow> AttemptReport \<times> ('s, 'm) World"
where
  "executeAttempt E e job task taskRun attemptNum config w =
     (let (attempt, w) = beginAttempt E e taskRun attemptNum w
      in endAttempt E e job task taskRun config attempt w)"

subsection \<open>One task\<close>

definition startTask ::
  "Env \<Rightarrow> ('s, 'm) Executor \<Rightarrow> Task \<Rightarrow> JobOccurrence \<Rightarrow> ('s, 'm) World \<Rightarrow> TaskRun \<times> ('s, 'm) World"
where
  "startTask E e task occurrence w =
     (let (createdAt, w) = time_Now E w;
          taskRun =
            \<lparr>tr_ID = GenerateTaskRunID (NewSHA1 E) (jo_ID occurrence) (t_ID task),
             tr_OccurrenceID = jo_ID occurrence, tr_TaskID = t_ID task,
             tr_Status = TaskStatusPending, tr_RetryCount = 0, tr_StartTime = None,
             tr_EndTime = None, tr_ErrorMessage = '''', tr_CreatedAt = createdAt,
             tr_UpdatedAt = zero_time\<rparr>;
          (err, st) = CreateTaskRun (ex_store e) (w_store w) taskRun
      in (taskRun, w\<lparr>w_store := st\<rparr>))"

definition newTaskReport :: "Task \<Rightarrow> TaskReport" where
  "newTaskReport task =
     \<lparr>rp_TaskID = t_ID task, rp_TaskName = t_Name task, rp_Attempts = [], rp_FinalStatus = ''''\<rparr>"

definition effectivePolicy :: "TaskConfig \<Rightarrow> RetryPolicy" where
  "effectivePolicy taskConfig =
     (case tc_RetryPolicy taskConfig of
        None \<Rightarrow> \<lparr>MaxRetries = 0, RetryInterval = 0, BackoffFactor = 0\<rparr>
      | Some p \<Rightarrow> p)"

text \<open>
  The wait before the next attempt; the product is exact here, while Go rounds it to a
  \<^verbatim>\<open>float64\<close> before it drops the fraction. The language leaves the conversion of a number that is no
  64-bit integer to the implementation: its result is part of the environment.
\<close>

definition toward_zero :: "rat \<Rightarrow> int" where
  "toward_zero q = (if 0 \<le> q then \<lfloor>q\<rfloor> else \<lceil>q\<rceil>)"

definition to_duration :: "Env \<Rightarrow> rat \<Rightarrow> duration" where
  "to_duration E q =
     (if toward_zero q \<in> {- (2 ^ 63) ..< 2 ^ 63} then word_of_int (toward_zero q) else OutOfRange E q)"

definition backoff :: "Env \<Rightarrow> RetryPolicy \<Rightarrow> int \<Rightarrow> duration" where
  "backoff E policy attempt =
     (if BackoffFactor policy > 1
      then to_duration E (of_int (sint (RetryInterval policy)) * BackoffFactor policy ^ nat attempt)
      else RetryInterval policy)"

text \<open>The end of a task: its run gets the final status and the end time, and is written.\<close>

definition finishRun ::
  "Env \<Rightarrow> ('s, 'm) Executor \<Rightarrow> TaskRun \<Rightarrow> ('s, 'm) World \<Rightarrow> ('s, 'm) World"
where
  "finishRun E e taskRun w =
     (let (endTime, w) = time_Now E w;
          (now, w) = time_Now E w;
          (err, st) = UpdateTaskRun (ex_store e) (w_store w) now (taskRun\<lparr>tr_EndTime := Some endTime\<rparr>)
      in w\<lparr>w_store := st\<rparr>)"

text \<open>The outcome of one round of the retry loop.\<close>

datatype round = Finished TaskReport | Retry TaskReport string

definition afterAttempt ::
  "Env \<Rightarrow> ('s, 'm) Executor \<Rightarrow> 'tk Job \<Rightarrow> TaskRun \<Rightarrow> RetryPolicy \<Rightarrow> int \<Rightarrow> TaskReport \<Rightarrow> AttemptReport
   \<Rightarrow> ('s, 'm) World \<Rightarrow> round \<times> ('s, 'm) World"
where
  "afterAttempt E e job taskRun policy attempt report attemptReport w =
     (let report = report\<lparr>rp_Attempts := rp_Attempts report @ [attemptReport]\<rparr>
      in if ar_Status attemptReport = TaskStatusSuccess
         then (Finished (report\<lparr>rp_FinalStatus := TaskStatusSuccess\<rparr>),
               finishRun E e (taskRun\<lparr>tr_Status := TaskStatusSuccess\<rparr>) w)
         else if attempt < MaxRetries policy
         then (let w = w\<lparr>w_waits := w_waits w @ [backoff E policy attempt]\<rparr>;
                   (ctxErr, w) = look_at_ctx E (jc_ExecutionTimeout (j_Config job)) w
               in (case ctxErr of
                     Some c \<Rightarrow>
                       (Finished (report\<lparr>rp_FinalStatus := TaskStatusCanceled\<rparr>),
                        finishRun E e (taskRun\<lparr>tr_Status := TaskStatusCanceled\<rparr>) w)
                   | None \<Rightarrow> (Retry report (ar_ErrorMessage attemptReport), w)))
         else (Retry report (ar_ErrorMessage attemptReport), w))"

definition failTask ::
  "Env \<Rightarrow> ('s, 'm) Executor \<Rightarrow> TaskRun \<Rightarrow> TaskReport \<Rightarrow> string option \<Rightarrow> ('s, 'm) World
   \<Rightarrow> (TaskReport \<times> ('s, 'm) World) option"
where
  "failTask E e taskRun report lastErr w =
     (case lastErr of
        None \<Rightarrow> None
      | Some msg \<Rightarrow>
          Some (report\<lparr>rp_FinalStatus := TaskStatusFailed\<rparr>,
                finishRun E e
                  (taskRun\<lparr>tr_Status := TaskStatusFailed,
                           tr_RetryCount := int (length (rp_Attempts report)),
                           tr_ErrorMessage := msg\<rparr>) w))"

function retryLoop ::
  "Env \<Rightarrow> ('s, 'm) Executor \<Rightarrow> 'tk Job \<Rightarrow> Task \<Rightarrow> TaskRun \<Rightarrow> TaskConfig \<Rightarrow> RetryPolicy \<Rightarrow> int
   \<Rightarrow> TaskReport \<Rightarrow> string option \<Rightarrow> ('s, 'm) World \<Rightarrow> (TaskReport \<times> ('s, 'm) World) option"
where
  "retryLoop E e job task taskRun config policy attempt report lastErr w =
     (if attempt \<le> MaxRetries policy
      then (let (attemptReport, w) = executeAttempt E e job task taskRun attempt config w
            in (case afterAttempt E e job taskRun policy attempt report attemptReport w of
                  (Finished rep, w) \<Rightarrow> Some (rep, w)
                | (Retry rep msg, w) \<Rightarrow>
                    retryLoop E e job task taskRun config policy (attempt + 1) rep (Some msg) w))
      else failTask E e taskRun report lastErr w)"
  by pat_completeness auto
termination
  by (relation "measure (\<lambda>(E, e, job, task, taskRun, config, policy, attempt, report, lastErr, w).
        nat (MaxRetries policy + 1 - attempt))") auto

declare retryLoop.simps [simp del]

definition executeTask ::
  "Env \<Rightarrow> ('s, 'm) Executor \<Rightarrow> 'tk Job \<Rightarrow> Task \<Rightarrow> JobOccurrence \<Rightarrow> ('s, 'm) World
   \<Rightarrow> (TaskReport \<times> ('s, 'm) World) option"
where
  "executeTask E e job task occurrence w =
     (let taskConfig = GetEffectiveConfig job task;
          (taskRun, w) = startTask E e task occurrence w
      in retryLoop E e job task taskRun taskConfig (effectivePolicy taskConfig) 0
           (newTaskReport task) None w)"

subsection \<open>The tasks of a job one after the other\<close>

fun sequentialLoop ::
  "Env \<Rightarrow> ('s, 'm) Executor \<Rightarrow> 'tk Job \<Rightarrow> JobOccurrence \<Rightarrow> Task list \<Rightarrow> ExecutionReport
   \<Rightarrow> ('s, 'm) World \<Rightarrow> (ExecutionReport \<times> error option \<times> ('s, 'm) World) option"
where
  "sequentialLoop E e job occurrence [] report w =
     Some (report\<lparr>er_GroupOutcome := ''completed''\<rparr>, None, w)"
| "sequentialLoop E e job occurrence (task # tasks) report w =
     (case executeTask E e job task occurrence w of
        None \<Rightarrow> None
      | Some (taskReport, w) \<Rightarrow>
          (let report = AddTaskReport report taskReport
           in if rp_FinalStatus taskReport = TaskStatusFailed
                 \<and> jc_FailureStrategy (j_Config job) = FailureStrategyFailFast
              then Some (report\<lparr>er_GroupOutcome := ''failed''\<rparr>, Some (ErrTaskFailFast (t_Name task)), w)
              else (let (ctxErr, w) = look_at_ctx E (jc_ExecutionTimeout (j_Config job)) w
                    in (case ctxErr of
                          Some c \<Rightarrow> Some (report\<lparr>er_GroupOutcome := ''canceled''\<rparr>, Some c, w)
                        | None \<Rightarrow> sequentialLoop E e job occurrence tasks report w))))"

definition executeSequential ::
  "Env \<Rightarrow> ('s, 'm) Executor \<Rightarrow> 'tk Job \<Rightarrow> JobOccurrence \<Rightarrow> ('s, 'm) World
   \<Rightarrow> (ExecutionReport \<times> error option \<times> ('s, 'm) World) option"
where
  "executeSequential E e job occurrence w =
     sequentialLoop E e job occurrence (j_Tasks job)
       (NewExecutionReport (jo_ID occurrence) (jc_FailureStrategy (j_Config job))) w"

subsection \<open>The tasks of a job in parallel\<close>

text \<open>
  One goroutine per task. Its state is where it stands in \<open>executeTask\<close> and in the code around it;
  one step runs to the next point at which other goroutines can be observed. A schedule is the list
  of the goroutines in the order in which they take steps; the group returns when all are done.
\<close>

datatype goroutine =
    G_Start Task
  | G_Loop Task TaskRun int TaskReport "string option"
  | G_Running Task TaskRun int TaskReport ExecutionAttempt
  | G_Attempted Task TaskRun int TaskReport AttemptReport
  | G_Report Task TaskReport
  | G_Check Task TaskReport
  | G_Done
  | G_Panicked Task

definition groupStrategy :: "'tk Job \<Rightarrow> Task \<Rightarrow> FailureStrategy" where
  "groupStrategy job task =
     (case tc_FailureStrategy (GetEffectiveConfig job task) of
        None \<Rightarrow> jc_FailureStrategy (j_Config job) | Some s \<Rightarrow> s)"

fun taskStep ::
  "Env \<Rightarrow> ('s, 'm) Executor \<Rightarrow> 'tk Job \<Rightarrow> JobOccurrence \<Rightarrow> goroutine \<Rightarrow> ('s, 'm) World
   \<Rightarrow> goroutine \<times> ('s, 'm) World"
where
  "taskStep E e job occurrence (G_Start task) w =
     (let (taskRun, w) = startTask E e task occurrence w
      in (G_Loop task taskRun 0 (newTaskReport task) None, w))"
| "taskStep E e job occurrence (G_Loop task taskRun attempt report lastErr) w =
     (if attempt \<le> MaxRetries (effectivePolicy (GetEffectiveConfig job task))
      then (let (att, w) = beginAttempt E e taskRun attempt w
            in (G_Running task taskRun attempt report att, w))
      else (case failTask E e taskRun report lastErr w of
              None \<Rightarrow> (G_Panicked task, w)
            | Some (rep, w) \<Rightarrow> (G_Report task rep, w)))"
| "taskStep E e job occurrence (G_Running task taskRun attempt report att) w =
     (let (ar, w) = endAttempt E e job task taskRun (GetEffectiveConfig job task) att w
      in (G_Attempted task taskRun attempt report ar, w))"
| "taskStep E e job occurrence (G_Attempted task taskRun attempt report ar) w =
     (case afterAttempt E e job taskRun (effectivePolicy (GetEffectiveConfig job task)) attempt
             report ar w of
        (Finished rep, w) \<Rightarrow> (G_Report task rep, w)
      | (Retry rep msg, w) \<Rightarrow> (G_Loop task taskRun (attempt + 1) rep (Some msg), w))"
| "taskStep E e job occurrence g w = (g, w)"

record ('s, 'm) group =
  g_routines :: "goroutine list"
  g_report :: ExecutionReport
  g_world :: "('s, 'm) World"

definition groupStep ::
  "Env \<Rightarrow> ('s, 'm) Executor \<Rightarrow> 'tk Job \<Rightarrow> JobOccurrence \<Rightarrow> nat \<Rightarrow> ('s, 'm) group \<Rightarrow> ('s, 'm) group"
where
  "groupStep E e job occurrence i g =
     (if i < length (g_routines g)
      then (case g_routines g ! i of
              G_Report task rep \<Rightarrow>
                g\<lparr>g_routines := (g_routines g)[i := G_Check task rep],
                  g_report := AddTaskReport (g_report g) rep\<rparr>
            | G_Check task rep \<Rightarrow>
                g\<lparr>g_routines := (g_routines g)[i := G_Done],
                  g_world := (if rp_FinalStatus rep = TaskStatusFailed
                                 \<and> groupStrategy job task = FailureStrategyFailFast
                              then (g_world g)\<lparr>w_canceled := True\<rparr> else g_world g)\<rparr>
            | r \<Rightarrow>
                (let (r', w) = taskStep E e job occurrence r (g_world g)
                 in g\<lparr>g_routines := (g_routines g)[i := r'], g_world := w\<rparr>))
      else g)"

definition startGroup ::
  "'tk Job \<Rightarrow> JobOccurrence \<Rightarrow> ('s, 'm) World \<Rightarrow> ('s, 'm) group"
where
  "startGroup job occurrence w =
     \<lparr>g_routines = map G_Start (j_Tasks job),
      g_report = NewExecutionReport (jo_ID occurrence) (jc_FailureStrategy (j_Config job)),
      g_world = w\<lparr>w_canceled := False\<rparr>\<rparr>"

definition runGroup ::
  "Env \<Rightarrow> ('s, 'm) Executor \<Rightarrow> 'tk Job \<Rightarrow> JobOccurrence \<Rightarrow> nat list \<Rightarrow> ('s, 'm) group
   \<Rightarrow> ('s, 'm) group"
where
  "runGroup E e job occurrence schedule g = fold (groupStep E e job occurrence) schedule g"

definition finishGroup ::
  "Env \<Rightarrow> 'tk Job \<Rightarrow> ('s, 'm) group \<Rightarrow> ExecutionReport \<times> error option \<times> ('s, 'm) World"
where
  "finishGroup E job g =
     (let (ctxErr, w) = look_at_ctx E (jc_ExecutionTimeout (j_Config job))
                          ((g_world g)\<lparr>w_canceled := False\<rparr>);
          hasFailure = (\<exists>tr \<in> set (er_TaskReports (g_report g)). rp_FinalStatus tr = TaskStatusFailed);
          outcome = (if ctxErr \<noteq> None then ''canceled''
                     else if hasFailure then ''failed'' else ''completed'')
      in ((g_report g)\<lparr>er_GroupOutcome := outcome\<rparr>, None, w))"

definition executeParallel ::
  "Env \<Rightarrow> ('s, 'm) Executor \<Rightarrow> 'tk Job \<Rightarrow> nat list \<Rightarrow> JobOccurrence \<Rightarrow> ('s, 'm) World
   \<Rightarrow> (ExecutionReport \<times> error option \<times> ('s, 'm) World) option"
where
  "executeParallel E e job schedule occurrence w =
     (let g = runGroup E e job occurrence schedule (startGroup job occurrence w)
      in if \<forall>r \<in> set (g_routines g). r = G_Done then Some (finishGroup E job g) else None)"

subsection \<open>One occurrence\<close>

definition updateOccurrenceStatus ::
  "Env \<Rightarrow> ('s, 'm) Executor \<Rightarrow> JobOccurrence \<Rightarrow> ('s, 'm) World \<Rightarrow> error option \<times> ('s, 'm) World"
where
  "updateOccurrenceStatus E e occurrence w =
     (let (updatedAt, w) = time_Now E w;
          storageOcc =
            \<lparr>so_ID = jo_ID occurrence, so_JobID = jo_JobID occurrence,
             so_JobVersion = jo_JobVersion occurrence,
             so_ScheduledTime = jo_ScheduledTime occurrence, so_Status = jo_Status occurrence,
             so_OwningNodeID = jo_OwningNodeID occurrence, so_StartTime = jo_StartTime occurrence,
             so_EndTime = jo_EndTime occurrence, so_Config = None,
             so_IsRecoveryRun = jo_IsRecoveryRun occurrence,
             so_CreatedAt = jo_CreatedAt occurrence, so_UpdatedAt = updatedAt\<rparr>;
          (now, w) = time_Now E w;
          (err, st) = UpdateJobOccurrence (ex_store e) (w_store w) now storageOcc
      in (err, w\<lparr>w_store := st\<rparr>))"

definition runTasks ::
  "Env \<Rightarrow> ('s, 'm) Executor \<Rightarrow> 'tk Job \<Rightarrow> nat list \<Rightarrow> JobOccurrence \<Rightarrow> ('s, 'm) World
   \<Rightarrow> (ExecutionReport \<times> error option \<times> ('s, 'm) World) option"
where
  "runTasks E e job schedule occurrence w =
     (if jc_TaskExecutionMode (j_Config job) = TaskExecutionModeSequential
      then executeSequential E e job occurrence w
      else if jc_TaskExecutionMode (j_Config job) = TaskExecutionModeParallel
      then executeParallel E e job schedule occurrence w
      else executeSequential E e job occurrence w)"

text \<open>The result of an execution: the report (nil is \<open>None\<close>), the error, the occurrence, the world.\<close>

definition ExecuteJobOccurrence ::
  "Env \<Rightarrow> ('s, 'm) Executor \<Rightarrow> 'tk Job \<Rightarrow> nat list \<Rightarrow> JobOccurrence \<Rightarrow> ('s, 'm) World
   \<Rightarrow> (ExecutionReport option \<times> error option \<times> JobOccurrence \<times> ('s, 'm) World) option"
where
  "ExecuteJobOccurrence E e job schedule occurrence w =
     (let (startTime, w) = time_Now E w;
          occurrence = occurrence\<lparr>jo_Status := JobStatusRunning, jo_StartTime := Some startTime\<rparr>;
          (uerr, w) = updateOccurrenceStatus E e occurrence w
      in (case uerr of
            Some err \<Rightarrow> Some (None, Some err, occurrence, w)
          | None \<Rightarrow>
              (let w = (if j_OnStart job then w\<lparr>w_hooks := w_hooks w @ [OnStart occurrence]\<rparr> else w)
               in (case runTasks E e job schedule occurrence w of
                     None \<Rightarrow> None
                   | Some (report, err, w) \<Rightarrow>
                       (let (endTime, w) = time_Now E w;
                            occurrence = occurrence\<lparr>jo_EndTime := Some endTime,
                              jo_Status := (if err \<noteq> None then JobStatusFailed
                                            else JobStatusCompleted)\<rparr>;
                            (uerr2, w) = updateOccurrenceStatus E e occurrence w;
                            m = ObserveJobDuration (ex_metrics e) (w_metrics w) (j_Name job)
                                  (sub_instant endTime startTime);
                            m = IncJobOccurrences (ex_metrics e) m (j_Name job) (jo_Status occurrence);
                            w = w\<lparr>w_metrics := m\<rparr>;
                            w = (if j_OnComplete job
                                 then w\<lparr>w_hooks := w_hooks w @ [OnComplete report]\<rparr> else w)
                        in Some (Some report, err, occurrence, w))))))"

end
