(* ===== verification/ExecutorFacts.thy ===== *)
theory ExecutorFacts
  imports Executor
begin

text \<open>
  What the executor does with a task: the attempts it makes, their numbers, the status it ends with.
  The facts are proved on the steps of a goroutine, and reach the sequential mode because running one
  goroutine alone is running \<open>executeTask\<close>.
\<close>

subsection \<open>The outcome of a task\<close>

definition run_id :: "Env \<Rightarrow> JobOccurrence \<Rightarrow> Task \<Rightarrow> string" where
  "run_id E occurrence task = GenerateTaskRunID (NewSHA1 E) (jo_ID occurrence) (t_ID task)"

definition attempt_id :: "Env \<Rightarrow> JobOccurrence \<Rightarrow> Task \<Rightarrow> nat \<Rightarrow> string" where
  "attempt_id E occurrence task i =
     GenerateExecutionAttemptID (NewSHA1 E) (run_id E occurrence task) (int i)"

text \<open>What the task function returns in the attempt with number \<open>i\<close>.\<close>

definition fn_result :: "Env \<Rightarrow> JobOccurrence \<Rightarrow> Task \<Rightarrow> nat \<Rightarrow> string option" where
  "fn_result E occurrence task i =
     t_Fn task \<lparr>ec_OccurrenceID = jo_ID occurrence, ec_TaskRunID = run_id E occurrence task,
                ec_AttemptID = attempt_id E occurrence task i\<rparr>"

definition attempt_ok :: "Env \<Rightarrow> JobOccurrence \<Rightarrow> Task \<Rightarrow> nat \<Rightarrow> AttemptReport \<Rightarrow> bool" where
  "attempt_ok E occurrence task i ar \<longleftrightarrow>
     ar_AttemptNumber ar = int i \<and>
     (case fn_result E occurrence task i of
        None \<Rightarrow> ar_Status ar = TaskStatusSuccess \<and> ar_ErrorMessage ar = ''''
      | Some msg \<Rightarrow> ar_Status ar = TaskStatusFailed \<and> ar_ErrorMessage ar = msg
          \<or> ar_Status ar = TaskStatusTimeout \<and> ar_ErrorMessage ar = ''task execution timeout'')"

abbreviation max_retries :: "'tk Job \<Rightarrow> Task \<Rightarrow> int" where
  "max_retries job task \<equiv> MaxRetries (effectivePolicy (GetEffectiveConfig job task))"

text \<open>
  The report of a task: the attempts are numbered from 0 and each reports what the function returned;
  all but the last failed; the task succeeded if the last attempt did, it failed if the retries are
  used up, and it was cancelled while waiting for a retry otherwise.
\<close>

definition report_ok :: "Env \<Rightarrow> 'tk Job \<Rightarrow> JobOccurrence \<Rightarrow> Task \<Rightarrow> TaskReport \<Rightarrow> bool" where
  "report_ok E job occurrence task rep \<longleftrightarrow>
     (let n = length (rp_Attempts rep) in
      rp_TaskID rep = t_ID task \<and> rp_TaskName rep = t_Name task \<and>
      0 < n \<and> int n \<le> max_retries job task + 1 \<and>
      (\<forall>i < n. attempt_ok E occurrence task i (rp_Attempts rep ! i)) \<and>
      (\<forall>i < n - 1. fn_result E occurrence task i \<noteq> None) \<and>
      rp_FinalStatus rep =
        (if fn_result E occurrence task (n - 1) = None then TaskStatusSuccess
         else if int n = max_retries job task + 1 then TaskStatusFailed
         else TaskStatusCanceled))"

subsection \<open>The invariant of a goroutine\<close>

definition run_of :: "Env \<Rightarrow> JobOccurrence \<Rightarrow> Task \<Rightarrow> TaskRun \<Rightarrow> bool" where
  "run_of E occurrence task run \<longleftrightarrow>
     tr_ID run = run_id E occurrence task \<and> tr_OccurrenceID run = jo_ID occurrence"

definition failed_so_far ::
  "Env \<Rightarrow> JobOccurrence \<Rightarrow> Task \<Rightarrow> int \<Rightarrow> TaskReport \<Rightarrow> bool" where
  "failed_so_far E occurrence task attempt rep \<longleftrightarrow>
     rp_TaskID rep = t_ID task \<and> rp_TaskName rep = t_Name task \<and>
     attempt = int (length (rp_Attempts rep)) \<and>
     (\<forall>i < length (rp_Attempts rep). attempt_ok E occurrence task i (rp_Attempts rep ! i)
        \<and> fn_result E occurrence task i \<noteq> None)"

fun routine_ok :: "Env \<Rightarrow> 'tk Job \<Rightarrow> JobOccurrence \<Rightarrow> goroutine \<Rightarrow> bool" where
  "routine_ok E job oc (G_Start task) = True"
| "routine_ok E job oc (G_Loop task run n rep lastErr) =
     (run_of E oc task run \<and> failed_so_far E oc task n rep \<and> (lastErr = None \<longleftrightarrow> n = 0)
      \<and> (n \<le> max_retries job task + 1 \<or> n = 0))"
| "routine_ok E job oc (G_Running task run n rep att) =
     (run_of E oc task run \<and> failed_so_far E oc task n rep \<and> n \<le> max_retries job task
      \<and> ea_ID att = attempt_id E oc task (nat n) \<and> ea_AttemptNumber att = n)"
| "routine_ok E job oc (G_Attempted task run n rep ar) =
     (run_of E oc task run \<and> failed_so_far E oc task n rep \<and> n \<le> max_retries job task
      \<and> attempt_ok E oc task (nat n) ar)"
| "routine_ok E job oc (G_Report task rep) = report_ok E job oc task rep"
| "routine_ok E job oc (G_Check task rep) = report_ok E job oc task rep"
| "routine_ok E job oc G_Done = True"
| "routine_ok E job oc (G_Panicked task) = True"

lemma failed_so_far_nonneg: "failed_so_far E oc task n rep \<Longrightarrow> 0 \<le> n"
  by (simp add: failed_so_far_def)

lemma startTask_ok: "run_of E oc task (fst (startTask E e task oc w))"
  by (simp add: startTask_def run_of_def run_id_def time_Now_def Let_def split: prod.splits)

lemma beginAttempt_ok:
  assumes "run_of E oc task run" "0 \<le> n"
  shows "ea_ID (fst (beginAttempt E e run n w)) = attempt_id E oc task (nat n)"
    "ea_AttemptNumber (fst (beginAttempt E e run n w)) = n"
    "ea_StartTime (fst (beginAttempt E e run n w)) = Now E (w_clock w)"
  using assms
  by (simp_all add: beginAttempt_def run_of_def attempt_id_def time_Now_def Let_def split: prod.splits)

lemma endAttempt_ok:
  assumes "run_of E oc task run" "0 \<le> n" "ea_ID att = attempt_id E oc task (nat n)"
    "ea_AttemptNumber att = n"
  shows "attempt_ok E oc task (nat n) (fst (endAttempt E e job task run cfg att w))"
  using assms
  by (simp add: endAttempt_def attempt_ok_def fn_result_def attemptContext_def run_of_def
      time_Now_def look_at_ctx_def Let_def split: prod.splits option.splits)

lemma failed_so_far_snoc:
  assumes "failed_so_far E oc task n rep" "attempt_ok E oc task (nat n) ar"
  shows "\<forall>i < Suc (length (rp_Attempts rep)). attempt_ok E oc task i ((rp_Attempts rep @ [ar]) ! i)"
  using assms by (auto simp: failed_so_far_def nth_append less_Suc_eq)

lemma attempt_ok_success:
  "attempt_ok E oc task i ar \<Longrightarrow> ar_Status ar = TaskStatusSuccess \<longleftrightarrow> fn_result E oc task i = None"
  by (auto simp: attempt_ok_def split: option.splits)

lemma afterAttempt_cases:
  assumes hist: "failed_so_far E oc task n rep" and n: "n \<le> max_retries job task"
    and ar: "attempt_ok E oc task (nat n) ar"
    and after: "afterAttempt E e job run (effectivePolicy (GetEffectiveConfig job task)) n rep ar w = (r, w')"
  shows "case r of Finished rep' \<Rightarrow> report_ok E job oc task rep'
    | Retry rep' msg \<Rightarrow> failed_so_far E oc task (n + 1) rep'"
proof -
  let ?atts = "rp_Attempts rep @ [ar]"
  have len: "nat n = length (rp_Attempts rep)" "n = int (length (rp_Attempts rep))"
    using hist by (simp_all add: failed_so_far_def)
  note all = failed_so_far_snoc [OF hist ar]
  have prev: "\<forall>i < length (rp_Attempts rep). fn_result E oc task i \<noteq> None"
    using hist by (simp add: failed_so_far_def)
  have names: "rp_TaskID rep = t_ID task" "rp_TaskName rep = t_Name task"
    using hist by (simp_all add: failed_so_far_def)
  note succ = attempt_ok_success [OF ar, unfolded len(1)]
  show ?thesis
  proof (cases "ar_Status ar = TaskStatusSuccess")
    case True
    then have "r = Finished (rep\<lparr>rp_Attempts := ?atts, rp_FinalStatus := TaskStatusSuccess\<rparr>)"
      using after by (auto simp: afterAttempt_def Let_def)
    then show ?thesis using True succ all prev names n len by (auto simp: report_ok_def Let_def)
  next
    case False
    then have fail: "fn_result E oc task (length (rp_Attempts rep)) \<noteq> None" using succ by simp
    have "r = Finished (rep\<lparr>rp_Attempts := ?atts, rp_FinalStatus := TaskStatusCanceled\<rparr>)
        \<and> n < max_retries job task \<or> r = Retry (rep\<lparr>rp_Attempts := ?atts\<rparr>) (ar_ErrorMessage ar)"
      using after False
      by (auto simp: afterAttempt_def Let_def look_at_ctx_def split: if_splits option.splits)
    then show ?thesis
    proof (elim disjE conjE)
      assume "r = Finished (rep\<lparr>rp_Attempts := ?atts, rp_FinalStatus := TaskStatusCanceled\<rparr>)"
        "n < max_retries job task"
      then show ?thesis using fail all prev names len by (auto simp: report_ok_def Let_def)
    next
      assume "r = Retry (rep\<lparr>rp_Attempts := ?atts\<rparr>) (ar_ErrorMessage ar)"
      then show ?thesis using fail all prev names len
        by (auto simp: failed_so_far_def less_Suc_eq)
    qed
  qed
qed

lemma failTask_ok:
  assumes "failed_so_far E oc task n rep" "max_retries job task + 1 = n" "0 < n"
    and "failTask E e run rep lastErr w = Some (rep', w')"
  shows "report_ok E job oc task rep'"
proof -
  have "fn_result E oc task (length (rp_Attempts rep) - 1) \<noteq> None"
    using assms(1,3) by (simp add: failed_so_far_def del: not_None_eq)
  moreover have "rep' = rep\<lparr>rp_FinalStatus := TaskStatusFailed\<rparr>"
    using assms(4) by (auto simp: failTask_def split: option.splits)
  ultimately show ?thesis
    using assms(1-3) by (auto simp: report_ok_def failed_so_far_def Let_def)
qed

lemma taskStep_ok:
  assumes "routine_ok E job oc g"
  shows "routine_ok E job oc (fst (taskStep E e job oc g w))"
proof (cases g)
  case (G_Start task)
  then show ?thesis using startTask_ok [of E oc task e w]
    by (auto simp: failed_so_far_def newTaskReport_def split: prod.splits)
next
  case (G_Loop task run n rep lastErr)
  with assms have run: "run_of E oc task run" and hist: "failed_so_far E oc task n rep"
    and err: "lastErr = None \<longleftrightarrow> n = 0" and n: "n \<le> max_retries job task + 1 \<or> n = 0" by auto
  note nn = failed_so_far_nonneg [OF hist]
  show ?thesis
  proof (cases "n \<le> max_retries job task")
    case True
    then show ?thesis using beginAttempt_ok [OF run nn, of e w] run hist
      by (auto simp: G_Loop split: prod.splits)
  next
    case False
    show ?thesis
    proof (cases "failTask E e run rep lastErr w")
      case None
      then show ?thesis using False by (simp add: G_Loop)
    next
      case (Some p)
      obtain rep' w' where p: "p = (rep', w')" by (cases p)
      from Some have "lastErr \<noteq> None" by (auto simp: failTask_def split: option.splits)
      then have "max_retries job task + 1 = n" "0 < n" using err n nn False by auto
      then have "report_ok E job oc task rep'"
        using failTask_ok [OF hist] Some p by blast
      then show ?thesis using False Some p by (simp add: G_Loop)
    qed
  qed
next
  case (G_Running task run n rep att)
  then show ?thesis
    using assms endAttempt_ok [of E oc task run n att e job "GetEffectiveConfig job task" w]
      failed_so_far_nonneg [of E oc task n rep]
    by (auto split: prod.splits)
next
  case (G_Attempted task run n rep ar)
  obtain r w' where after: "afterAttempt E e job run (effectivePolicy (GetEffectiveConfig job task)) n
      rep ar w = (r, w')"
    by (cases "afterAttempt E e job run (effectivePolicy (GetEffectiveConfig job task)) n rep ar w")
  note facts = assms [unfolded G_Attempted routine_ok.simps]
  have "0 \<le> n" using facts failed_so_far_nonneg by blast
  then show ?thesis
    using afterAttempt_cases [OF _ _ _ after] facts after
    by (cases r) (auto simp: G_Attempted)
next
  case (G_Report task rep)
  then show ?thesis using assms by simp
next
  case (G_Check task rep)
  then show ?thesis using assms by simp
qed simp_all

subsection \<open>A goroutine alone runs the task\<close>

definition stepPair ::
  "Env \<Rightarrow> ('s, 'm) Executor \<Rightarrow> 'tk Job \<Rightarrow> JobOccurrence \<Rightarrow> goroutine \<times> ('s, 'm) World
   \<Rightarrow> goroutine \<times> ('s, 'm) World" where
  "stepPair E e job oc p = taskStep E e job oc (fst p) (snd p)"

lemma funpow_trans: "(f ^^ k) x = y \<Longrightarrow> (f ^^ l) y = z \<Longrightarrow> (f ^^ (l + k)) x = z"
  by (simp add: funpow_add)

abbreviation loop_result where
  "loop_result task r p \<equiv>
     (case r of Some (rep, w') \<Rightarrow> p = (G_Report task rep, w') | None \<Rightarrow> fst p = G_Panicked task)"

lemma retryLoop_steps:
  "\<exists>k. loop_result task
     (retryLoop E e job task run (GetEffectiveConfig job task)
        (effectivePolicy (GetEffectiveConfig job task)) n rep lastErr w)
     ((stepPair E e job oc ^^ k) (G_Loop task run n rep lastErr, w))"
proof (induction "nat (max_retries job task + 1 - n)" arbitrary: n rep lastErr w)
  case 0
  then have n: "\<not> n \<le> max_retries job task" by simp
  then show ?case
    by (intro exI [of _ 1])
      (simp add: stepPair_def retryLoop.simps [of _ _ _ _ _ _ _ n] split: option.splits prod.splits)
next
  case (Suc m)
  then have n: "n \<le> max_retries job task" by simp
  let ?cfg = "GetEffectiveConfig job task" and ?pol = "effectivePolicy (GetEffectiveConfig job task)"
  obtain att w1 where b: "beginAttempt E e run n w = (att, w1)"
    by (cases "beginAttempt E e run n w")
  obtain ar w2 where f: "endAttempt E e job task run ?cfg att w1 = (ar, w2)"
    by (cases "endAttempt E e job task run ?cfg att w1")
  obtain r w3 where a: "afterAttempt E e job run ?pol n rep ar w2 = (r, w3)"
    by (cases "afterAttempt E e job run ?pol n rep ar w2")
  have three: "(stepPair E e job oc ^^ 3) (G_Loop task run n rep lastErr, w) =
      (case r of Finished rep' \<Rightarrow> (G_Report task rep', w3)
       | Retry rep' msg \<Rightarrow> (G_Loop task run (n + 1) rep' (Some msg), w3))"
    using n b f a by (simp add: stepPair_def numeral_3_eq_3 split: round.splits)
  note unf = retryLoop.simps [of E e job task run ?cfg ?pol n rep lastErr w]
  show ?case
  proof (cases r)
    case (Finished rep')
    then show ?thesis using three unf n b f a
      by (intro exI [of _ 3]) (simp add: executeAttempt_def)
  next
    case (Retry rep' msg)
    have "m = nat (max_retries job task + 1 - (n + 1))" using Suc.hyps(2) by simp
    from Suc.hyps(1) [OF this, of rep' "Some msg" w3] obtain k where
      k: "loop_result task (retryLoop E e job task run ?cfg ?pol (n + 1) rep' (Some msg) w3)
        ((stepPair E e job oc ^^ k) (G_Loop task run (n + 1) rep' (Some msg), w3))" ..
    have "(stepPair E e job oc ^^ (k + 3)) (G_Loop task run n rep lastErr, w)
        = (stepPair E e job oc ^^ k) (G_Loop task run (n + 1) rep' (Some msg), w3)"
      using funpow_trans [OF three refl] Retry by simp
    moreover have "retryLoop E e job task run ?cfg ?pol n rep lastErr w
        = retryLoop E e job task run ?cfg ?pol (n + 1) rep' (Some msg) w3"
      using unf n b f a Retry by (simp add: executeAttempt_def)
    ultimately show ?thesis using k by (intro exI [of _ "k + 3"]) (simp only:)
  qed
qed

lemma executeTask_steps:
  "\<exists>k. loop_result task (executeTask E e job task oc w) ((stepPair E e job oc ^^ k) (G_Start task, w))"
proof -
  obtain run w1 where s: "startTask E e task oc w = (run, w1)" by (cases "startTask E e task oc w")
  obtain k where k: "loop_result task
     (retryLoop E e job task run (GetEffectiveConfig job task)
        (effectivePolicy (GetEffectiveConfig job task)) 0 (newTaskReport task) None w1)
     ((stepPair E e job oc ^^ k) (G_Loop task run 0 (newTaskReport task) None, w1))"
    using retryLoop_steps by blast
  have one: "(stepPair E e job oc ^^ 1) (G_Start task, w)
      = (G_Loop task run 0 (newTaskReport task) None, w1)"
    by (simp add: stepPair_def s)
  have "executeTask E e job task oc w = retryLoop E e job task run (GetEffectiveConfig job task)
        (effectivePolicy (GetEffectiveConfig job task)) 0 (newTaskReport task) None w1"
    using s by (simp add: executeTask_def Let_def)
  then show ?thesis using k funpow_trans [OF one refl, of k]
    by (intro exI [of _ "k + 1"]) (simp only:)
qed

lemma steps_ok: "routine_ok E job oc g \<Longrightarrow> routine_ok E job oc (fst ((stepPair E e job oc ^^ k) (g, w)))"
  by (induction k) (auto simp: stepPair_def intro: taskStep_ok)

text \<open>So the report of a task run to its end is as it should be, and it ends unless it panics.\<close>

lemma executeTask_report:
  assumes "executeTask E e job task oc w = Some (rep, w')"
  shows "report_ok E job oc task rep"
proof -
  obtain k where "(stepPair E e job oc ^^ k) (G_Start task, w) = (G_Report task rep, w')"
    using executeTask_steps [where E = E and e = e and job = job and oc = oc and task = task and w = w] assms by auto
  then show ?thesis using steps_ok [of E job oc "G_Start task" k e w] by simp
qed

lemma retryLoop_panics:
  "retryLoop E e job task run cfg policy n rep lastErr w = None \<longleftrightarrow>
     lastErr = None \<and> MaxRetries policy < n"
proof (induction "nat (MaxRetries policy + 1 - n)" arbitrary: n rep lastErr w)
  case 0
  then have "\<not> n \<le> MaxRetries policy" by simp
  then show ?case
    by (simp add: retryLoop.simps [of _ _ _ _ _ _ _ n] failTask_def split: option.splits)
next
  case (Suc m)
  then have n: "n \<le> MaxRetries policy" and m: "m = nat (MaxRetries policy + 1 - (n + 1))" by simp_all
  note IH = Suc.hyps(1) [OF m]
  show ?case using n
    by (simp add: retryLoop.simps [of _ _ _ _ _ _ _ n] IH del: not_None_eq
        split: prod.splits round.splits)
qed

lemma executeTask_panics: "executeTask E e job task oc w = None \<longleftrightarrow> max_retries job task < 0"
  by (simp add: executeTask_def retryLoop_panics Let_def split: prod.splits)

subsection \<open>The goroutines of a group\<close>

fun pending_task :: "goroutine \<Rightarrow> Task list" where
  "pending_task (G_Start task) = [task]"
| "pending_task (G_Loop task run n rep lastErr) = [task]"
| "pending_task (G_Running task run n rep att) = [task]"
| "pending_task (G_Attempted task run n rep ar) = [task]"
| "pending_task (G_Report task rep) = [task]"
| "pending_task (G_Check task rep) = []"
| "pending_task G_Done = []"
| "pending_task (G_Panicked task) = [task]"

text \<open>
  Each task is either still with its goroutine or has exactly one report, and every report is as it
  should be.
\<close>

definition group_ok :: "Env \<Rightarrow> 'tk Job \<Rightarrow> JobOccurrence \<Rightarrow> ('s, 'm) group \<Rightarrow> bool" where
  "group_ok E job oc g \<longleftrightarrow>
     (\<forall>r \<in> set (g_routines g). routine_ok E job oc r) \<and>
     er_OccurrenceID (g_report g) = jo_ID oc \<and>
     (\<exists>ts. list_all2 (report_ok E job oc) ts (er_TaskReports (g_report g)) \<and>
        mset ts + mset (concat (map pending_task (g_routines g))) = mset (j_Tasks job))"

lemma taskStep_pending: "pending_task (fst (taskStep E e job oc r w)) = pending_task r"
  by (cases r) (auto simp: Let_def split: prod.splits option.splits round.splits)

lemma startGroup_ok: "group_ok E job oc (startGroup job oc w)"
proof -
  have "concat (map pending_task (map G_Start ts)) = ts" for ts by (induction ts) auto
  then show ?thesis by (simp add: group_ok_def startGroup_def NewExecutionReport_def)
qed

lemma mset_concat_update:
  assumes "i < length xs"
  shows "mset (concat (map f (xs[i := y]))) + mset (f (xs ! i)) = mset (concat (map f xs)) + mset (f y)"
  using assms
proof (induction xs arbitrary: i)
  case (Cons x xs)
  then show ?case by (cases i) (auto simp: ac_simps)
qed simp

lemma routines_update:
  "\<forall>r \<in> set rs. P r \<Longrightarrow> P r' \<Longrightarrow> \<forall>r \<in> set (rs[i := r']). P r"
  by (auto dest: set_update_subset_insert [THEN subsetD])

lemma groupStep_ok:
  assumes ok: "group_ok E job oc g"
  shows "group_ok E job oc (groupStep E e job oc i g)"
proof (cases "i < length (g_routines g)")
  case True
  let ?r = "g_routines g ! i"
  have r: "routine_ok E job oc ?r" using ok True by (simp add: group_ok_def)
  from ok obtain ts where ts: "list_all2 (report_ok E job oc) ts (er_TaskReports (g_report g))"
    "mset ts + mset (concat (map pending_task (g_routines g))) = mset (j_Tasks job)"
    by (auto simp: group_ok_def)
  note upd = mset_concat_update [OF True, of pending_task]
  show ?thesis
  proof (cases "\<exists>task rep. ?r = G_Report task rep")
    case True
    then obtain task rep where rr: "?r = G_Report task rep" by blast
    have "list_all2 (report_ok E job oc) (ts @ [task]) (er_TaskReports (AddTaskReport (g_report g) rep))"
      using ts(1) r rr by (simp add: AddTaskReport_def list_all2_appendI)
    moreover have "mset (ts @ [task]) + mset (concat (map pending_task ((g_routines g)[i := G_Check task rep])))
        = mset (j_Tasks job)"
    proof -
      have "mset (concat (map pending_task (g_routines g)))
          = add_mset task (mset (concat (map pending_task ((g_routines g)[i := G_Check task rep]))))"
        using upd [of "G_Check task rep"] rr by simp
      then show ?thesis using ts(2) by simp
    qed
    ultimately show ?thesis
      using ok r rr \<open>i < length (g_routines g)\<close>
      unfolding group_ok_def groupStep_def
      by (auto simp: AddTaskReport_def intro!: routines_update dest: set_update_subset_insert [THEN subsetD])
  next
    case False
    define r' where "r' = (case ?r of G_Check task rep \<Rightarrow> G_Done
      | _ \<Rightarrow> fst (taskStep E e job oc ?r (g_world g)))"
    have step: "g_routines (groupStep E e job oc i g) = (g_routines g)[i := r']"
      "g_report (groupStep E e job oc i g) = g_report g"
      using True False
      by (auto simp: groupStep_def r'_def Let_def split: goroutine.splits prod.splits)
    have "routine_ok E job oc r'"
      using r taskStep_ok [OF r, of e "g_world g"] by (auto simp: r'_def split: goroutine.splits)
    then have all: "\<forall>r \<in> set ((g_routines g)[i := r']). routine_ok E job oc r"
      using ok by (intro routines_update) (auto simp: group_ok_def)
    have "pending_task r' = pending_task ?r"
      using taskStep_pending [of E e job oc ?r "g_world g"] False
      by (auto simp: r'_def split: goroutine.splits)
    then have "mset (concat (map pending_task ((g_routines g)[i := r'])))
        = mset (concat (map pending_task (g_routines g)))"
      using upd [of r'] by simp
    then show ?thesis using ok ts all unfolding group_ok_def step by auto
  qed
qed (simp add: groupStep_def ok)

lemma runGroup_ok: "group_ok E job oc g \<Longrightarrow> group_ok E job oc (runGroup E e job oc sched g)"
  unfolding runGroup_def by (induction sched arbitrary: g) (auto intro: groupStep_ok)

lemma executeParallel_report:
  assumes "executeParallel E e job sched oc w = Some (rep, err, w')"
  shows "err = None" "er_OccurrenceID rep = jo_ID oc"
    "\<exists>ts. mset ts = mset (j_Tasks job) \<and> list_all2 (report_ok E job oc) ts (er_TaskReports rep)"
    "er_GroupOutcome rep = ''canceled'' \<or>
     er_GroupOutcome rep =
       (if \<exists>tr \<in> set (er_TaskReports rep). rp_FinalStatus tr = TaskStatusFailed
        then ''failed'' else ''completed'')"
proof -
  let ?g = "runGroup E e job oc sched (startGroup job oc w)"
  have fin: "\<forall>r \<in> set (g_routines ?g). r = G_Done" "finishGroup E job ?g = (rep, err, w')"
    using assms by (auto simp: executeParallel_def Let_def split: if_splits)
  then have none: "mset (concat (map pending_task (g_routines ?g))) = {#}" by auto
  obtain ts where ts: "mset ts = mset (j_Tasks job)"
    "list_all2 (report_ok E job oc) ts (er_TaskReports (g_report ?g))"
    "er_OccurrenceID (g_report ?g) = jo_ID oc"
    using runGroup_ok [OF startGroup_ok, of E job oc e sched w] unfolding group_ok_def none by auto
  show "err = None" "er_OccurrenceID rep = jo_ID oc"
    "\<exists>ts. mset ts = mset (j_Tasks job) \<and> list_all2 (report_ok E job oc) ts (er_TaskReports rep)"
    "er_GroupOutcome rep = ''canceled'' \<or>
     er_GroupOutcome rep =
       (if \<exists>tr \<in> set (er_TaskReports rep). rp_FinalStatus tr = TaskStatusFailed
        then ''failed'' else ''completed'')"
    using fin(2) ts by (auto simp: finishGroup_def look_at_ctx_def Let_def split: if_splits)
qed

subsection \<open>A group ends\<close>

text \<open>How many steps a goroutine can still take.\<close>

fun rank :: "'tk Job \<Rightarrow> goroutine \<Rightarrow> nat" where
  "rank job (G_Start task) = 3 * nat (max_retries job task + 1) + 4"
| "rank job (G_Loop task run n rep lastErr) = 3 * nat (max_retries job task + 1 - n) + 3"
| "rank job (G_Running task run n rep att) = 3 * nat (max_retries job task + 1 - n) + 2"
| "rank job (G_Attempted task run n rep ar) = 3 * nat (max_retries job task + 1 - n) + 1"
| "rank job (G_Report task rep) = 2"
| "rank job (G_Check task rep) = 1"
| "rank job G_Done = 0"
| "rank job (G_Panicked task) = 0"

text \<open>A goroutine that cannot panic: it has a retry policy that allows the first attempt.\<close>

fun sound :: "'tk Job \<Rightarrow> goroutine \<Rightarrow> bool" where
  "sound job (G_Start task) = (0 \<le> max_retries job task)"
| "sound job (G_Loop task run n rep lastErr) = (0 \<le> max_retries job task \<and> (n = 0 \<or> lastErr \<noteq> None))"
| "sound job (G_Running task run n rep att) = (0 \<le> n \<and> n \<le> max_retries job task)"
| "sound job (G_Attempted task run n rep ar) = (0 \<le> n \<and> n \<le> max_retries job task)"
| "sound job (G_Report task rep) = True"
| "sound job (G_Check task rep) = True"
| "sound job G_Done = True"
| "sound job (G_Panicked task) = False"

lemma sound_done: "sound job r \<Longrightarrow> rank job r = 0 \<Longrightarrow> r = G_Done"
  by (cases r) auto

lemma taskStep_rank:
  assumes ok: "routine_ok E job oc r" and s: "sound job r"
  shows "sound job (fst (taskStep E e job oc r w)) \<and>
    (r \<noteq> G_Done \<longrightarrow> (\<forall>task rep. r \<noteq> G_Report task rep \<and> r \<noteq> G_Check task rep) \<longrightarrow>
      rank job (fst (taskStep E e job oc r w)) < rank job r)"
proof (cases r)
  case (G_Loop task run n rep lastErr)
  have n: "0 \<le> n" using ok G_Loop failed_so_far_nonneg by auto
  show ?thesis
  proof (cases "n \<le> max_retries job task")
    case True
    then show ?thesis using n by (auto simp: G_Loop split: prod.splits)
  next
    case False
    then obtain msg where "lastErr = Some msg" using s G_Loop by auto
    then show ?thesis using False by (simp add: G_Loop failTask_def)
  qed
next
  case (G_Attempted task run n rep ar)
  obtain rd w' where "afterAttempt E e job run (effectivePolicy (GetEffectiveConfig job task)) n rep ar w
      = (rd, w')"
    by (cases "afterAttempt E e job run (effectivePolicy (GetEffectiveConfig job task)) n rep ar w")
  then show ?thesis using s by (cases rd) (auto simp: G_Attempted nat_less_eq_zless)
next
  case (G_Start task)
  then show ?thesis using s by (auto simp: Let_def split: prod.splits)
next
  case (G_Running task run n rep att)
  then show ?thesis using s by (auto simp: Let_def split: prod.splits)
next
  case (G_Panicked task)
  then show ?thesis using s by simp
qed simp_all

lemma groupStep_rank:
  assumes ok: "group_ok E job oc g" and s: "\<forall>r \<in> set (g_routines g). sound job r"
    and k: "k < length (g_routines g)"
  shows "(\<forall>r \<in> set (g_routines (groupStep E e job oc i g)). sound job r)
    \<and> rank job (g_routines (groupStep E e job oc i g) ! k) \<le> rank job (g_routines g ! k) - (if i = k then 1 else 0)"
proof (cases "i < length (g_routines g)")
  case True
  let ?r = "g_routines g ! i"
  define r' where "r' = (case ?r of G_Report task rep \<Rightarrow> G_Check task rep | G_Check task rep \<Rightarrow> G_Done
    | _ \<Rightarrow> fst (taskStep E e job oc ?r (g_world g)))"
  have step: "g_routines (groupStep E e job oc i g) = (g_routines g)[i := r']"
    using True by (auto simp: groupStep_def r'_def Let_def split: goroutine.splits prod.splits)
  have r: "routine_ok E job oc ?r" "sound job ?r" using ok s True by (auto simp: group_ok_def)
  note tr = taskStep_rank [OF r, of e "g_world g"]
  have "sound job r' \<and> rank job r' \<le> rank job ?r - 1"
    using tr r(2) by (cases ?r) (auto simp: r'_def simp del: taskStep.simps(1-4))
  moreover from this have "\<forall>r \<in> set ((g_routines g)[i := r']). sound job r"
    using s by (intro routines_update) auto
  ultimately show ?thesis unfolding step using k True by (auto simp: nth_list_update)
next
  case False
  then show ?thesis using s k by (simp add: groupStep_def)
qed

lemma groupStep_length: "length (g_routines (groupStep E e job oc i g)) = length (g_routines g)"
  by (auto simp: groupStep_def Let_def split: goroutine.splits prod.splits)

lemma runGroup_length: "length (g_routines (runGroup E e job oc sched g)) = length (g_routines g)"
  unfolding runGroup_def by (induction sched arbitrary: g) (auto simp: groupStep_length)

lemma runGroup_rank:
  assumes "group_ok E job oc g" "\<forall>r \<in> set (g_routines g). sound job r" "k < length (g_routines g)"
  shows "(\<forall>r \<in> set (g_routines (runGroup E e job oc sched g)). sound job r)
    \<and> rank job (g_routines (runGroup E e job oc sched g) ! k)
        \<le> rank job (g_routines g ! k) - count_list sched k"
  using assms
proof (induction sched arbitrary: g)
  case (Cons i sched)
  note step = groupStep_rank [OF Cons.prems, of e i]
  have "(\<forall>r \<in> set (g_routines (runGroup E e job oc sched (groupStep E e job oc i g))). sound job r)
    \<and> rank job (g_routines (runGroup E e job oc sched (groupStep E e job oc i g)) ! k)
        \<le> rank job (g_routines (groupStep E e job oc i g) ! k) - count_list sched k"
    using Cons.prems step by (intro Cons.IH groupStep_ok) (auto simp: groupStep_length)
  then show ?case using step by (auto simp: runGroup_def split: if_splits)
qed (simp add: runGroup_def)

text \<open>A schedule in which every goroutine has its steps lets the group return.\<close>

lemma executeParallel_returns:
  assumes "\<forall>k < length (j_Tasks job). 0 \<le> max_retries job (j_Tasks job ! k)
      \<and> 3 * nat (max_retries job (j_Tasks job ! k) + 1) + 4 \<le> count_list sched k"
  shows "executeParallel E e job sched oc w \<noteq> None"
proof -
  let ?g = "startGroup job oc w" and ?f = "runGroup E e job oc sched (startGroup job oc w)"
  have s: "\<forall>r \<in> set (g_routines ?g). sound job r"
    using assms by (auto simp: startGroup_def in_set_conv_nth)
  have len: "length (g_routines ?g) = length (j_Tasks job)" by (simp add: startGroup_def)
  have "g_routines ?f ! k = G_Done"
    if k: "k < length (j_Tasks job)" for k
  proof -
    note rk = runGroup_rank [where E = E and e = e and sched = sched, OF startGroup_ok s, unfolded len, OF k]
    have "rank job (g_routines ?g ! k) \<le> count_list sched k"
      using assms k by (simp add: startGroup_def)
    then have "rank job (g_routines ?f ! k) = 0" using rk by simp
    moreover have "sound job (g_routines ?f ! k)" using rk k by (simp add: runGroup_length len)
    ultimately show ?thesis using sound_done by blast
  qed
  moreover have "length (g_routines ?f) = length (j_Tasks job)"
    unfolding runGroup_length by (rule len)
  ultimately have "\<forall>r \<in> set (g_routines ?f). r = G_Done" by (auto simp: in_set_conv_nth)
  then show ?thesis by (simp add: executeParallel_def Let_def)
qed

subsection \<open>The tasks in sequence\<close>

text \<open>
  What a sequential run over the tasks \<open>tasks\<close> that gives the reports \<open>reps\<close>, the outcome and the
  error tells: the tasks run are a prefix of the list, one report each; under fail-fast no task
  before the last one reported has failed.
\<close>

definition sequential_ok ::
  "Env \<Rightarrow> 'tk Job \<Rightarrow> JobOccurrence \<Rightarrow> Task list \<Rightarrow> TaskReport list \<Rightarrow> string \<Rightarrow> error option \<Rightarrow> bool" where
  "sequential_ok E job oc tasks reps outcome err \<longleftrightarrow>
     (let fast = (jc_FailureStrategy (j_Config job) = FailureStrategyFailFast);
          failed = (\<lambda>r. rp_FinalStatus r = TaskStatusFailed) in
      list_all2 (report_ok E job oc) (take (length reps) tasks) reps \<and>
      (fast \<longrightarrow> (\<forall>r \<in> set (butlast reps). \<not> failed r)) \<and>
      (outcome = ''completed'' \<and> err = None \<and> length reps = length tasks
         \<and> (fast \<longrightarrow> (\<forall>r \<in> set reps. \<not> failed r))
       \<or> outcome = ''failed'' \<and> fast \<and> reps \<noteq> [] \<and> failed (last reps)
         \<and> err = Some (ErrTaskFailFast (rp_TaskName (last reps)))
       \<or> outcome = ''canceled'' \<and> err \<noteq> None \<and> reps \<noteq> []))"

lemma sequential_ok_Cons:
  assumes "sequential_ok E job oc tasks reps outcome err" "report_ok E job oc task r"
    and "jc_FailureStrategy (j_Config job) = FailureStrategyFailFast \<Longrightarrow> rp_FinalStatus r \<noteq> TaskStatusFailed"
  shows "sequential_ok E job oc (task # tasks) (r # reps) outcome err"
  using assms unfolding sequential_ok_def Let_def by (cases reps) auto

lemma sequentialLoop_ok:
  assumes "sequentialLoop E e job oc tasks report w = Some (rep, err, w')"
  shows "\<exists>reps. er_TaskReports rep = er_TaskReports report @ reps \<and>
    er_OccurrenceID rep = er_OccurrenceID report \<and>
    sequential_ok E job oc tasks reps (er_GroupOutcome rep) err"
  using assms
proof (induction tasks arbitrary: report w)
  case Nil
  then show ?case by (auto simp: sequential_ok_def)
next
  case (Cons task tasks)
  obtain tr w1 where t: "executeTask E e job task oc w = Some (tr, w1)"
    using Cons.prems by (auto split: option.splits)
  note ok = executeTask_report [OF t]
  have names: "rp_TaskName tr = t_Name task" using ok by (simp add: report_ok_def Let_def)
  let ?fast = "rp_FinalStatus tr = TaskStatusFailed \<and> jc_FailureStrategy (j_Config job) = FailureStrategyFailFast"
  obtain c w2 where l: "look_at_ctx E (jc_ExecutionTimeout (j_Config job)) w1 = (c, w2)"
    by (cases "look_at_ctx E (jc_ExecutionTimeout (j_Config job)) w1")
  show ?case
  proof (cases ?fast)
    case True
    then have "rep = (AddTaskReport report tr)\<lparr>er_GroupOutcome := ''failed''\<rparr>"
      "err = Some (ErrTaskFailFast (t_Name task))"
      using Cons.prems t by (auto simp: Let_def)
    then show ?thesis using ok True names
      by (intro exI [of _ "[tr]"]) (simp add: AddTaskReport_def sequential_ok_def)
  next
    case notfast: False
    show ?thesis
    proof (cases c)
      case (Some c')
      then have "rep = (AddTaskReport report tr)\<lparr>er_GroupOutcome := ''canceled''\<rparr>" "err = Some c'"
        using Cons.prems t l notfast by (auto simp: Let_def split: if_splits)
      then show ?thesis using ok
        by (intro exI [of _ "[tr]"]) (simp add: AddTaskReport_def sequential_ok_def)
    next
      case None
      then have "sequentialLoop E e job oc tasks (AddTaskReport report tr) w2 = Some (rep, err, w')"
        using Cons.prems t l notfast by (auto simp: Let_def split: if_splits)
      from Cons.IH [OF this] obtain reps where
        reps: "er_TaskReports rep = er_TaskReports (AddTaskReport report tr) @ reps"
          "er_OccurrenceID rep = er_OccurrenceID (AddTaskReport report tr)"
          "sequential_ok E job oc tasks reps (er_GroupOutcome rep) err" by blast
      show ?thesis
        using reps sequential_ok_Cons [OF reps(3) ok] notfast
        by (intro exI [of _ "tr # reps"]) (auto simp: AddTaskReport_def)
    qed
  qed
qed

lemma executeSequential_ok:
  assumes "executeSequential E e job oc w = Some (rep, err, w')"
  shows "sequential_ok E job oc (j_Tasks job) (er_TaskReports rep) (er_GroupOutcome rep) err"
    "er_OccurrenceID rep = jo_ID oc"
  using sequentialLoop_ok [OF assms [unfolded executeSequential_def]]
  by (auto simp: NewExecutionReport_def)

lemma sequentialLoop_returns:
  "\<forall>task \<in> set tasks. 0 \<le> max_retries job task \<Longrightarrow> sequentialLoop E e job oc tasks report w \<noteq> None"
proof (induction tasks arbitrary: report w)
  case (Cons task tasks)
  then have "executeTask E e job task oc w \<noteq> None" by (simp add: executeTask_panics)
  then obtain tr w1 where t: "executeTask E e job task oc w = Some (tr, w1)" by auto
  have IH: "sequentialLoop E e job oc tasks report w \<noteq> None" for report w
    using Cons by simp
  show ?case by (simp add: t Let_def IH del: not_None_eq split: prod.splits option.splits)
qed simp

end
