(* ===== verification/ExecutorStore.thy ===== *)
theory ExecutorStore
  imports ExecutorFacts
begin

text \<open>
  The executor as a client of the storage contract. On any store, even one that fails, executing the
  tasks of an occurrence touches only the records of that occurrence's runs and attempts and keeps
  the store's invariant; on a store that does not fail, the stored runs and attempts agree with the
  report, whatever the interleaving of parallel tasks.
\<close>

subsection \<open>What an execution may touch\<close>

definition task_frame ::
  "Env \<Rightarrow> 'tk Job \<Rightarrow> JobOccurrence \<Rightarrow> Task set \<Rightarrow> AStore \<Rightarrow> AStore \<Rightarrow> bool" where
  "task_frame E job oc T a a' \<longleftrightarrow>
     a_jobs a' = a_jobs a \<and> a_tasks a' = a_tasks a \<and> a_occs a' = a_occs a \<and>
     (\<forall>k. (\<forall>t \<in> T. k \<noteq> run_id E oc t) \<longrightarrow> a_runs a' k = a_runs a k) \<and>
     (\<forall>k. (\<forall>t \<in> T. \<forall>i. int i \<le> max_retries job t \<longrightarrow> k \<noteq> attempt_id E oc t i) \<longrightarrow>
        a_attempts a' k = a_attempts a k)"

lemma task_frame_refl [simp]: "task_frame E job oc T a a"
  by (simp add: task_frame_def)

lemma task_frame_trans:
  "task_frame E job oc T a b \<Longrightarrow> task_frame E job oc T b c \<Longrightarrow> task_frame E job oc T a c"
  by (simp add: task_frame_def)

lemma task_frame_mono: "task_frame E job oc T a b \<Longrightarrow> T \<subseteq> U \<Longrightarrow> task_frame E job oc U a b"
  unfolding task_frame_def by blast

lemma run_id_slash_free: "uuid_text (NewSHA1 E) \<Longrightarrow> slash_free (run_id E oc task)"
  by (simp add: run_id_def generated_slash_free)

lemma attempt_id_slash_free: "uuid_text (NewSHA1 E) \<Longrightarrow> slash_free (attempt_id E oc task i)"
  by (simp add: attempt_id_def generated_slash_free)

lemma runs_frame:
  assumes "a' = a\<lparr>a_runs := a_runs a'\<rparr>" "\<forall>k. k \<noteq> run_id E oc task \<longrightarrow> a_runs a' k = a_runs a k"
  shows "task_frame E job oc {task} a a'"
proof -
  have "a_jobs a' = a_jobs a" "a_tasks a' = a_tasks a" "a_occs a' = a_occs a"
    "a_attempts a' = a_attempts a" by (subst assms(1), simp)+
  then show ?thesis using assms(2) by (simp add: task_frame_def)
qed

lemma attempts_frame:
  assumes "a' = a\<lparr>a_attempts := a_attempts a'\<rparr>" "int i \<le> max_retries job task"
    and "\<forall>k. k \<noteq> attempt_id E oc task i \<longrightarrow> a_attempts a' k = a_attempts a k"
  shows "task_frame E job oc {task} a a'"
proof -
  have "a_jobs a' = a_jobs a" "a_tasks a' = a_tasks a" "a_occs a' = a_occs a" "a_runs a' = a_runs a"
    by (subst assms(1), simp)+
  then show ?thesis using assms(2,3) by (auto simp: task_frame_def)
qed

fun routine_task :: "goroutine \<Rightarrow> Task set" where
  "routine_task (G_Start task) = {task}"
| "routine_task (G_Loop task run n rep lastErr) = {task}"
| "routine_task (G_Running task run n rep att) = {task}"
| "routine_task (G_Attempted task run n rep ar) = {task}"
| "routine_task (G_Report task rep) = {task}"
| "routine_task (G_Check task rep) = {task}"
| "routine_task G_Done = {}"
| "routine_task (G_Panicked task) = {task}"

lemma routine_task_step: "routine_task (fst (taskStep E e job oc r w)) = routine_task r"
  by (cases r) (auto simp: Let_def split: prod.splits option.splits round.splits)

subsection \<open>The store calls of the pieces\<close>

text \<open>The records the pieces write, as functions of the clock.\<close>

definition created_run :: "Env \<Rightarrow> JobOccurrence \<Rightarrow> Task \<Rightarrow> instant \<Rightarrow> TaskRun" where
  "created_run E oc task t =
     \<lparr>tr_ID = run_id E oc task, tr_OccurrenceID = jo_ID oc, tr_TaskID = t_ID task,
      tr_Status = TaskStatusPending, tr_RetryCount = 0, tr_StartTime = None, tr_EndTime = None,
      tr_ErrorMessage = '''', tr_CreatedAt = t, tr_UpdatedAt = zero_time\<rparr>"

lemma startTask_eq:
  "startTask E e task oc w =
     (created_run E oc task (Now E (w_clock w)),
      w\<lparr>w_clock := Suc (w_clock w),
        w_store := snd (CreateTaskRun (ex_store e) (w_store w)
                          (created_run E oc task (Now E (w_clock w))))\<rparr>)"
  by (simp add: startTask_def created_run_def run_id_def time_Now_def Let_def split: prod.splits)

lemma finishRun_store:
  "w_store (finishRun E e run w) =
     snd (UpdateTaskRun (ex_store e) (w_store w) (Now E (Suc (w_clock w)))
            (run\<lparr>tr_EndTime := Some (Now E (w_clock w))\<rparr>))"
  by (simp add: finishRun_def time_Now_def Let_def split: prod.splits)

lemma beginAttempt_store:
  "w_store (snd (beginAttempt E e run n w)) =
     snd (CreateExecutionAttempt (ex_store e) (w_store w) (fst (beginAttempt E e run n w)))"
  by (simp add: beginAttempt_def time_Now_def Let_def split: prod.splits)

definition completed_attempt :: "ExecutionAttempt \<Rightarrow> AttemptReport \<Rightarrow> ExecutionAttempt" where
  "completed_attempt att ar =
     att\<lparr>ea_EndTime := ar_EndTime ar, ea_Status := ar_Status ar, ea_ErrorMessage := ar_ErrorMessage ar\<rparr>"

lemma endAttempt_store:
  "w_store (snd (endAttempt E e job task run cfg att w)) =
     snd (UpdateExecutionAttempt (ex_store e) (w_store w)
            (completed_attempt att (fst (endAttempt E e job task run cfg att w))))"
  by (simp add: endAttempt_def completed_attempt_def time_Now_def look_at_ctx_def Let_def
      split: prod.splits option.splits)

lemma afterAttempt_world:
  "afterAttempt E e job run policy n rep ar w = (r, w') \<Longrightarrow>
     (\<exists>rep'. r = Finished rep' \<and>
        (w' = finishRun E e (run\<lparr>tr_Status := rp_FinalStatus rep'\<rparr>) w \<or>
         w' = finishRun E e (run\<lparr>tr_Status := rp_FinalStatus rep'\<rparr>)
                (w\<lparr>w_waits := w_waits w @ [backoff E policy n], w_polls := Suc (w_polls w)\<rparr>))) \<or>
     (\<exists>rep' msg. r = Retry rep' msg) \<and> w_store w' = w_store w"
  by (auto simp: afterAttempt_def look_at_ctx_def Let_def split: if_splits option.splits)

lemma afterAttempt_store:
  "afterAttempt E e job run policy n rep ar w = (r, w') \<Longrightarrow>
     (\<exists>rep'. r = Finished rep' \<and>
        (\<exists>v. w' = finishRun E e (run\<lparr>tr_Status := rp_FinalStatus rep'\<rparr>) v \<and> w_store v = w_store w)) \<or>
     (\<exists>rep' msg. r = Retry rep' msg) \<and> w_store w' = w_store w"
  by (drule afterAttempt_world) fastforce

subsection \<open>On a store that may fail\<close>

context storage
begin

lemma create_run_frame:
  assumes "invar s" "slash_free (tr_ID rn)" "tr_ID rn = run_id E oc task" "CreateTaskRun S s rn = (r, s')"
  shows "invar s'" "task_frame E job oc {task} (abs s) (abs s')"
  using CreateTaskRun_law [OF assms(1,2,4)] assms(3)
  by (auto simp: create_spec_def split: option.splits intro!: runs_frame)

lemma update_run_frame:
  assumes "invar s" "slash_free (tr_ID rn)" "tr_ID rn = run_id E oc task" "UpdateTaskRun S s now rn = (r, s')"
  shows "invar s'" "task_frame E job oc {task} (abs s) (abs s')"
  using UpdateTaskRun_law [OF assms(1,2,4)] assms(3)
  by (auto simp: update_spec_def split: option.splits intro!: runs_frame)

lemma create_attempt_frame:
  assumes "invar s" "slash_free (ea_ID att)" "ea_ID att = attempt_id E oc task i" "int i \<le> max_retries job task"
    "CreateExecutionAttempt S s att = (r, s')"
  shows "invar s'" "task_frame E job oc {task} (abs s) (abs s')"
  using CreateExecutionAttempt_law [OF assms(1,2,5)] assms(3,4)
  by (auto simp: create_spec_def split: option.splits intro!: attempts_frame [of _ _ i])

lemma update_attempt_frame:
  assumes "invar s" "slash_free (ea_ID att)" "ea_ID att = attempt_id E oc task i" "int i \<le> max_retries job task"
    "UpdateExecutionAttempt S s att = (r, s')"
  shows "invar s'" "task_frame E job oc {task} (abs s) (abs s')"
  using UpdateExecutionAttempt_law [OF assms(1,2,5)] assms(3,4)
  by (auto simp: update_spec_def split: option.splits intro!: attempts_frame [of _ _ i])

lemma finishRun_frame:
  assumes "ex_store e = S" "uuid_text (NewSHA1 E)" "invar (w_store w)" "tr_ID run = run_id E oc task"
  shows "invar (w_store (finishRun E e run w))
    \<and> task_frame E job oc {task} (abs (w_store w)) (abs (w_store (finishRun E e run w)))"
proof -
  let ?run = "run\<lparr>tr_EndTime := Some (Now E (w_clock w))\<rparr>"
  obtain r s' where u: "UpdateTaskRun S (w_store w) (Now E (Suc (w_clock w))) ?run = (r, s')"
    by (cases "UpdateTaskRun S (w_store w) (Now E (Suc (w_clock w))) ?run")
  have id: "slash_free (tr_ID ?run)" "tr_ID ?run = run_id E oc task"
    using assms by (simp_all add: run_id_slash_free)
  show ?thesis using update_run_frame [OF assms(3) id u] u assms(1) by (simp add: finishRun_store)
qed

lemma taskStep_frame:
  assumes e: "ex_store e = S" and u: "uuid_text (NewSHA1 E)" and inv: "invar (w_store w)"
    and ok: "routine_ok E job oc r"
  shows "invar (w_store (snd (taskStep E e job oc r w)))
    \<and> task_frame E job oc (routine_task r) (abs (w_store w)) (abs (w_store (snd (taskStep E e job oc r w))))"
proof (cases r)
  case (G_Start task)
  let ?run = "created_run E oc task (Now E (w_clock w))"
  have "tr_ID ?run = run_id E oc task" "slash_free (tr_ID ?run)"
    using u by (simp_all add: created_run_def run_id_slash_free)
  then show ?thesis
    using create_run_frame [OF inv, of ?run E oc task] e
    by (auto simp: G_Start startTask_eq prod_eq_iff)
next
  case (G_Loop task run n rep lastErr)
  with ok have run: "run_of E oc task run" and n: "0 \<le> n" using failed_so_far_nonneg by auto
  show ?thesis
  proof (cases "n \<le> max_retries job task")
    case True
    obtain att w' where b: "beginAttempt E e run n w = (att, w')" by (cases "beginAttempt E e run n w")
    have "ea_ID att = attempt_id E oc task (nat n)" using beginAttempt_ok [OF run n, of e w] b by simp
    moreover have "w_store w' = snd (CreateExecutionAttempt S (w_store w) att)"
      using beginAttempt_store [of E e run n w] b e by simp
    ultimately show ?thesis
      using create_attempt_frame [OF inv, of att E oc task "nat n" job] True n u
      by (auto simp: G_Loop b attempt_id_slash_free prod_eq_iff)
  next
    case False
    then show ?thesis
      using finishRun_frame [OF e u inv, of _ oc task job] inv run
      by (auto simp: G_Loop failTask_def run_of_def split: option.splits)
  qed
next
  case (G_Running task run n rep att)
  with ok have n: "0 \<le> n" "n \<le> max_retries job task" "ea_ID att = attempt_id E oc task (nat n)"
    using failed_so_far_nonneg by auto
  obtain ar w' where f: "endAttempt E e job task run (GetEffectiveConfig job task) att w = (ar, w')"
    by (cases "endAttempt E e job task run (GetEffectiveConfig job task) att w")
  have "w_store w' = snd (UpdateExecutionAttempt S (w_store w) (completed_attempt att ar))"
    using endAttempt_store [of E e job task run "GetEffectiveConfig job task" att w] f e by simp
  moreover have "ea_ID (completed_attempt att ar) = attempt_id E oc task (nat n)"
    using n by (simp add: completed_attempt_def)
  ultimately show ?thesis
    using update_attempt_frame [OF inv, of "completed_attempt att ar" E oc task "nat n" job] n u
    by (auto simp: G_Running f attempt_id_slash_free prod_eq_iff)
next
  case (G_Attempted task run n rep ar)
  let ?pol = "effectivePolicy (GetEffectiveConfig job task)"
  obtain rd w' where a: "afterAttempt E e job run ?pol n rep ar w = (rd, w')"
    by (cases "afterAttempt E e job run ?pol n rep ar w")
  have run: "tr_ID run = run_id E oc task" using ok G_Attempted by (simp add: run_of_def)
  from afterAttempt_store [OF a] show ?thesis
  proof (elim disjE exE conjE)
    fix rep' v
    assume fin: "rd = Finished rep'" "w' = finishRun E e (run\<lparr>tr_Status := rp_FinalStatus rep'\<rparr>) v"
      "w_store v = w_store w"
    have "invar (w_store v)" using inv fin(3) by simp
    from finishRun_frame [OF e u this, of "run\<lparr>tr_Status := rp_FinalStatus rep'\<rparr>" oc task job]
    show ?thesis using run a fin by (simp add: G_Attempted)
  next
    fix rep' msg
    assume "rd = Retry rep' msg" "w_store w' = w_store w"
    then show ?thesis using inv a by (simp add: G_Attempted)
  qed
qed (simp_all add: inv)

text \<open>So every step of a group, and every run of it, touches only the records of its tasks.\<close>

lemma groupStep_frame:
  assumes e: "ex_store e = S" and u: "uuid_text (NewSHA1 E)" and ok: "group_ok E job oc g"
    and T: "\<forall>r \<in> set (g_routines g). routine_task r \<subseteq> T" and inv: "invar (w_store (g_world g))"
  shows "invar (w_store (g_world (groupStep E e job oc i g)))
    \<and> task_frame E job oc T (abs (w_store (g_world g))) (abs (w_store (g_world (groupStep E e job oc i g))))
    \<and> (\<forall>r \<in> set (g_routines (groupStep E e job oc i g)). routine_task r \<subseteq> T)"
proof (cases "i < length (g_routines g)")
  case True
  let ?r = "g_routines g ! i"
  have r: "routine_ok E job oc ?r" "routine_task ?r \<subseteq> T" using ok T True by (auto simp: group_ok_def)
  note fr = taskStep_frame [OF e u inv r(1)]
  show ?thesis
  proof (cases "\<exists>task rep. ?r = G_Report task rep \<or> ?r = G_Check task rep")
    case True
    then obtain task rep where rr: "?r = G_Report task rep \<or> ?r = G_Check task rep" by blast
    have "\<forall>r \<in> set ((g_routines g)[i := r']). routine_task r \<subseteq> T"
      if "r' = G_Check task rep \<or> r' = G_Done" for r'
      using T r(2) rr that by (intro routines_update) auto
    from this [of "G_Check task rep"] this [of G_Done] show ?thesis
      using \<open>i < length (g_routines g)\<close> inv rr by (elim disjE) (simp_all add: groupStep_def)
  next
    case False
    then have "groupStep E e job oc i g =
        g\<lparr>g_routines := (g_routines g)[i := fst (taskStep E e job oc ?r (g_world g))],
          g_world := snd (taskStep E e job oc ?r (g_world g))\<rparr>"
      using True by (cases ?r) (simp_all add: groupStep_def case_prod_beta)
    moreover have "\<forall>r \<in> set ((g_routines g)[i := fst (taskStep E e job oc ?r (g_world g))]). routine_task r \<subseteq> T"
      using T r(2) by (intro routines_update) (simp_all add: routine_task_step)
    ultimately show ?thesis using fr task_frame_mono [OF fr [THEN conjunct2] r(2)] by simp
  qed
qed (simp add: groupStep_def inv T)

lemma runGroup_frame:
  assumes "ex_store e = S" "uuid_text (NewSHA1 E)" "group_ok E job oc g"
    "\<forall>r \<in> set (g_routines g). routine_task r \<subseteq> T" "invar (w_store (g_world g))"
  shows "invar (w_store (g_world (runGroup E e job oc sched g)))
    \<and> task_frame E job oc T (abs (w_store (g_world g)))
        (abs (w_store (g_world (runGroup E e job oc sched g))))"
  using assms(3-5)
proof (induction sched arbitrary: g)
  case (Cons i sched)
  let ?g = "groupStep E e job oc i g"
  note step = groupStep_frame [OF assms(1,2) Cons.prems, of i]
  have "invar (w_store (g_world (runGroup E e job oc sched ?g)))
      \<and> task_frame E job oc T (abs (w_store (g_world ?g)))
          (abs (w_store (g_world (runGroup E e job oc sched ?g))))"
    using step groupStep_ok [OF Cons.prems(1)] by (intro Cons.IH) auto
  then show ?case using step task_frame_trans by (auto simp: runGroup_def)
qed (simp add: runGroup_def)

lemma steps_frame:
  assumes "ex_store e = S" "uuid_text (NewSHA1 E)" "routine_ok E job oc r" "invar (w_store w)"
  shows "routine_ok E job oc (fst ((stepPair E e job oc ^^ k) (r, w)))
    \<and> routine_task (fst ((stepPair E e job oc ^^ k) (r, w))) = routine_task r
    \<and> invar (w_store (snd ((stepPair E e job oc ^^ k) (r, w))))
    \<and> task_frame E job oc (routine_task r) (abs (w_store w))
        (abs (w_store (snd ((stepPair E e job oc ^^ k) (r, w)))))"
proof (induction k)
  case (Suc k)
  obtain r' w' where p: "(stepPair E e job oc ^^ k) (r, w) = (r', w')"
    by (cases "(stepPair E e job oc ^^ k) (r, w)")
  have step: "(stepPair E e job oc ^^ Suc k) (r, w) = taskStep E e job oc r' w'"
    by (simp add: p) (simp add: stepPair_def)
  note IH = Suc [unfolded p fst_conv snd_conv]
  have "invar (w_store w')" "routine_ok E job oc r'" using IH by simp_all
  from taskStep_frame [OF assms(1,2) this] taskStep_ok [OF this(2)] IH task_frame_trans
  show ?case unfolding step by (simp add: routine_task_step) blast
qed (simp add: assms)

lemma executeTask_frame:
  assumes "ex_store e = S" "uuid_text (NewSHA1 E)" "invar (w_store w)"
    and "executeTask E e job task oc w = Some (rep, w')"
  shows "invar (w_store w') \<and> task_frame E job oc {task} (abs (w_store w)) (abs (w_store w'))"
proof -
  obtain k where "(stepPair E e job oc ^^ k) (G_Start task, w) = (G_Report task rep, w')"
    using executeTask_steps [where E = E and e = e and job = job and oc = oc and task = task and w = w]
      assms(4) by auto
  then show ?thesis using steps_frame [OF assms(1,2) _ assms(3), of job oc "G_Start task" k] by simp
qed

lemma look_at_ctx_store: "w_store (snd (look_at_ctx E d w)) = w_store w"
  by (simp add: look_at_ctx_def)

lemma sequentialLoop_frame:
  assumes "ex_store e = S" "uuid_text (NewSHA1 E)" "invar (w_store w)"
    and "sequentialLoop E e job oc tasks report w = Some (rep, err, w')" "set tasks \<subseteq> T"
  shows "invar (w_store w') \<and> task_frame E job oc T (abs (w_store w)) (abs (w_store w'))"
  using assms(3-)
proof (induction tasks arbitrary: report w)
  case (Cons task tasks)
  obtain tr w1 where t: "executeTask E e job task oc w = Some (tr, w1)"
    using Cons.prems by (auto split: option.splits)
  have f: "invar (w_store w1)" "task_frame E job oc T (abs (w_store w)) (abs (w_store w1))"
    using executeTask_frame [OF assms(1,2) Cons.prems(1) t] Cons.prems(3)
      task_frame_mono [of E job oc "{task}" _ _ T] by auto
  obtain c w2 where l: "look_at_ctx E (jc_ExecutionTimeout (j_Config job)) w1 = (c, w2)"
    by (cases "look_at_ctx E (jc_ExecutionTimeout (j_Config job)) w1")
  have s2: "w_store w2 = w_store w1"
    using look_at_ctx_store [of E "jc_ExecutionTimeout (j_Config job)" w1] l by simp
  consider "w_store w' = w_store w1"
    | "sequentialLoop E e job oc tasks (AddTaskReport report tr) w2 = Some (rep, err, w')"
    using Cons.prems(2) t l s2 by (auto simp: Let_def split: if_splits option.splits)
  then show ?case
  proof cases
    case 1
    then show ?thesis using f by simp
  next
    case 2
    then have "invar (w_store w') \<and> task_frame E job oc T (abs (w_store w2)) (abs (w_store w'))"
      using Cons.prems(3) f(1) s2 by (intro Cons.IH) auto
    then show ?thesis using f(2) s2 task_frame_trans by auto
  qed
qed simp

lemma runTasks_frame:
  assumes "ex_store e = S" "uuid_text (NewSHA1 E)" "invar (w_store w)"
    and "runTasks E e job sched oc w = Some (rep, err, w')"
  shows "invar (w_store w') \<and>
    task_frame E job oc (set (j_Tasks job)) (abs (w_store w)) (abs (w_store w'))"
proof -
  have par: ?thesis if "executeParallel E e job sched oc w = Some (rep, err, w')"
  proof -
    let ?g = "startGroup job oc w"
    have "w_store w' = w_store (g_world (runGroup E e job oc sched ?g))"
      using that by (auto simp: executeParallel_def finishGroup_def look_at_ctx_def Let_def split: if_splits)
    moreover have "\<forall>r \<in> set (g_routines ?g). routine_task r \<subseteq> set (j_Tasks job)"
      "w_store (g_world ?g) = w_store w" by (auto simp: startGroup_def)
    ultimately show ?thesis
      using runGroup_frame [OF assms(1,2) startGroup_ok [of E job oc w], of "set (j_Tasks job)" sched]
        assms(3) by simp
  qed
  have "?thesis" if "executeSequential E e job oc w = Some (rep, err, w')"
    using that unfolding executeSequential_def by (intro sequentialLoop_frame [OF assms(1-3)]) auto
  then show ?thesis using assms(4) par by (auto simp: runTasks_def split: if_splits)
qed

end

subsection \<open>On a store that does not fail\<close>

text \<open>The stored attempt and the stored run that belong to a report.\<close>

definition stored_attempt ::
  "Env \<Rightarrow> JobOccurrence \<Rightarrow> Task \<Rightarrow> nat \<Rightarrow> AttemptReport \<Rightarrow> ExecutionAttempt \<Rightarrow> bool" where
  "stored_attempt E oc task i ar att \<longleftrightarrow>
     ea_ID att = attempt_id E oc task i \<and> ea_TaskRunID att = run_id E oc task \<and>
     ea_AttemptNumber att = int i \<and> ea_Status att = ar_Status ar \<and>
     ea_StartTime att = ar_StartTime ar \<and> ea_EndTime att = ar_EndTime ar \<and>
     ea_ErrorMessage att = ar_ErrorMessage ar"

definition stored_attempts :: "Env \<Rightarrow> JobOccurrence \<Rightarrow> Task \<Rightarrow> AttemptReport list \<Rightarrow> AStore \<Rightarrow> bool" where
  "stored_attempts E oc task ars a \<longleftrightarrow>
     (\<forall>i < length ars. \<exists>att. a_attempts a (attempt_id E oc task i) = Some att
        \<and> stored_attempt E oc task i (ars ! i) att)"

definition stored_run :: "Env \<Rightarrow> JobOccurrence \<Rightarrow> Task \<Rightarrow> TaskReport \<Rightarrow> AStore \<Rightarrow> bool" where
  "stored_run E oc task rep a \<longleftrightarrow>
     (\<exists>run. a_runs a (run_id E oc task) = Some run \<and>
        tr_OccurrenceID run = jo_ID oc \<and> tr_TaskID run = t_ID task \<and>
        tr_Status run = rp_FinalStatus rep \<and> tr_EndTime run \<noteq> None \<and>
        (rp_FinalStatus rep = TaskStatusFailed \<longrightarrow>
           tr_RetryCount run = int (length (rp_Attempts rep)) \<and>
           tr_ErrorMessage run = ar_ErrorMessage (last (rp_Attempts rep))))"

definition stored_ok :: "Env \<Rightarrow> JobOccurrence \<Rightarrow> Task \<Rightarrow> TaskReport \<Rightarrow> AStore \<Rightarrow> bool" where
  "stored_ok E oc task rep a \<longleftrightarrow>
     stored_run E oc task rep a \<and> stored_attempts E oc task (rp_Attempts rep) a"

text \<open>No record of the task from attempt \<open>n\<close> on exists yet.\<close>

definition fresh_attempts :: "Env \<Rightarrow> 'tk Job \<Rightarrow> JobOccurrence \<Rightarrow> Task \<Rightarrow> int \<Rightarrow> AStore \<Rightarrow> bool" where
  "fresh_attempts E job oc task n a \<longleftrightarrow>
     (\<forall>i. n \<le> int i \<longrightarrow> int i \<le> max_retries job task \<longrightarrow> a_attempts a (attempt_id E oc task i) = None)"

fun routine_stored :: "Env \<Rightarrow> 'tk Job \<Rightarrow> JobOccurrence \<Rightarrow> goroutine \<Rightarrow> AStore \<Rightarrow> bool" where
  "routine_stored E job oc (G_Start task) a =
     (a_runs a (run_id E oc task) = None \<and> fresh_attempts E job oc task 0 a)"
| "routine_stored E job oc (G_Loop task run n rep lastErr) a =
     (a_runs a (run_id E oc task) = Some run \<and> run_times_ok run \<and> tr_TaskID run = t_ID task
      \<and> stored_attempts E oc task (rp_Attempts rep) a \<and> fresh_attempts E job oc task n a
      \<and> (\<forall>msg. lastErr = Some msg \<longrightarrow> msg = ar_ErrorMessage (last (rp_Attempts rep))))"
| "routine_stored E job oc (G_Running task run n rep att) a =
     (a_runs a (run_id E oc task) = Some run \<and> run_times_ok run \<and> tr_TaskID run = t_ID task
      \<and> stored_attempts E oc task (rp_Attempts rep) a \<and> fresh_attempts E job oc task (n + 1) a
      \<and> a_attempts a (attempt_id E oc task (nat n)) = Some att \<and> attempt_times_ok att
      \<and> ea_TaskRunID att = run_id E oc task)"
| "routine_stored E job oc (G_Attempted task run n rep ar) a =
     (a_runs a (run_id E oc task) = Some run \<and> run_times_ok run \<and> tr_TaskID run = t_ID task
      \<and> stored_attempts E oc task (rp_Attempts rep @ [ar]) a \<and> fresh_attempts E job oc task (n + 1) a)"
| "routine_stored E job oc (G_Report task rep) a = stored_ok E oc task rep a"
| "routine_stored E job oc (G_Check task rep) a = True"
| "routine_stored E job oc G_Done a = True"
| "routine_stored E job oc (G_Panicked task) a = True"

text \<open>Identifiers of different tasks and attempts of the occurrence differ.\<close>

definition ids_apart :: "Env \<Rightarrow> 'tk Job \<Rightarrow> JobOccurrence \<Rightarrow> bool" where
  "ids_apart E job oc \<longleftrightarrow>
     distinct (map (run_id E oc) (j_Tasks job)) \<and>
     (\<forall>t \<in> set (j_Tasks job). \<forall>u \<in> set (j_Tasks job). \<forall>i j.
        int i \<le> max_retries job t \<longrightarrow> int j \<le> max_retries job u \<longrightarrow>
        attempt_id E oc t i = attempt_id E oc u j \<longrightarrow> t = u \<and> i = j)"

definition clock_ok :: "Env \<Rightarrow> bool" where
  "clock_ok E \<longleftrightarrow> (\<forall>n. year_ok (Now E n))"

lemma year_ok_zero_time [simp]: "year_ok zero_time"
  by code_simp

lemma created_run_times: "clock_ok E \<Longrightarrow> run_times_ok (created_run E oc task (Now E n))"
  by (simp add: created_run_def run_times_ok_def opt_year_ok_def clock_ok_def)

lemma stored_attempts_snoc:
  assumes "stored_attempts E oc task ars a" "a_attempts a (attempt_id E oc task (length ars)) = Some att"
    "stored_attempt E oc task (length ars) ar att"
  shows "stored_attempts E oc task (ars @ [ar]) a"
  using assms by (auto simp: stored_attempts_def nth_append less_Suc_eq)

lemma stored_attempts_upd:
  assumes "stored_attempts E oc task ars a" "a_attempts a' = (a_attempts a)(attempt_id E oc task n \<mapsto> att)"
    "\<forall>i < length ars. attempt_id E oc task i \<noteq> attempt_id E oc task n"
  shows "stored_attempts E oc task ars a'"
  using assms by (auto simp: stored_attempts_def)

lemma endAttempt_fields:
  "ar_StartTime (fst (endAttempt E e job task run cfg att w)) = ea_StartTime att"
  "ar_AttemptNumber (fst (endAttempt E e job task run cfg att w)) = ea_AttemptNumber att"
  "ar_EndTime (fst (endAttempt E e job task run cfg att w)) = Some (Now E (w_clock w))"
  by (simp_all add: endAttempt_def time_Now_def look_at_ctx_def Let_def split: prod.splits option.splits)

lemma beginAttempt_fields:
  "ea_TaskRunID (fst (beginAttempt E e run n w)) = tr_ID run"
  "clock_ok E \<Longrightarrow> attempt_times_ok (fst (beginAttempt E e run n w))"
  by (simp_all add: beginAttempt_def time_Now_def attempt_times_ok_def opt_year_ok_def clock_ok_def
      Let_def split: prod.splits)

lemma afterAttempt_fields:
  "afterAttempt E e job run policy n rep ar w = (Finished rep', w') \<Longrightarrow>
     rp_FinalStatus rep' \<noteq> TaskStatusFailed \<and> rp_Attempts rep' = rp_Attempts rep @ [ar]"
  "afterAttempt E e job run policy n rep ar w = (Retry rep' msg, w') \<Longrightarrow>
     rp_Attempts rep' = rp_Attempts rep @ [ar] \<and> msg = ar_ErrorMessage ar"
  by (auto simp: afterAttempt_def look_at_ctx_def Let_def split: if_splits option.splits)

context reliable_storage
begin

lemma create_run_ok:
  assumes "invar s" "slash_free (tr_ID rn)" "run_times_ok rn" "a_runs (abs s) (tr_ID rn) = None"
  shows "abs (snd (CreateTaskRun S s rn)) = (abs s)\<lparr>a_runs := (a_runs (abs s))(tr_ID rn \<mapsto> rn)\<rparr>"
proof -
  obtain r s' where c: "CreateTaskRun S s rn = (r, s')" by (cases "CreateTaskRun S s rn")
  have "r = None" using CreateTaskRun_ok [OF assms(1-3)] c assms(4) by simp
  then show ?thesis using CreateTaskRun_law [OF assms(1,2) c] c by (auto simp: create_spec_def)
qed

lemma update_run_ok:
  assumes "invar s" "slash_free (tr_ID rn)" "run_times_ok (rn\<lparr>tr_UpdatedAt := now\<rparr>)"
    "a_runs (abs s) (tr_ID rn) \<noteq> None"
  shows "abs (snd (UpdateTaskRun S s now rn)) =
    (abs s)\<lparr>a_runs := (a_runs (abs s))(tr_ID rn \<mapsto> rn\<lparr>tr_UpdatedAt := now\<rparr>)\<rparr>"
proof -
  obtain r s' where c: "UpdateTaskRun S s now rn = (r, s')" by (cases "UpdateTaskRun S s now rn")
  have "r = None" using UpdateTaskRun_ok [OF assms(1-3)] c assms(4) by simp
  then show ?thesis using UpdateTaskRun_law [OF assms(1,2) c] c by (auto simp: update_spec_def)
qed

lemma create_attempt_ok:
  assumes "invar s" "slash_free (ea_ID att)" "attempt_times_ok att" "a_attempts (abs s) (ea_ID att) = None"
  shows "abs (snd (CreateExecutionAttempt S s att)) =
    (abs s)\<lparr>a_attempts := (a_attempts (abs s))(ea_ID att \<mapsto> att)\<rparr>"
proof -
  obtain r s' where c: "CreateExecutionAttempt S s att = (r, s')" by (cases "CreateExecutionAttempt S s att")
  have "r = None" using CreateExecutionAttempt_ok [OF assms(1-3)] c assms(4) by simp
  then show ?thesis using CreateExecutionAttempt_law [OF assms(1,2) c] c by (auto simp: create_spec_def)
qed

lemma update_attempt_ok:
  assumes "invar s" "slash_free (ea_ID att)" "attempt_times_ok att" "a_attempts (abs s) (ea_ID att) \<noteq> None"
  shows "abs (snd (UpdateExecutionAttempt S s att)) =
    (abs s)\<lparr>a_attempts := (a_attempts (abs s))(ea_ID att \<mapsto> att)\<rparr>"
proof -
  obtain r s' where c: "UpdateExecutionAttempt S s att = (r, s')" by (cases "UpdateExecutionAttempt S s att")
  have "r = None" using UpdateExecutionAttempt_ok [OF assms(1-3)] c assms(4) by simp
  then show ?thesis using UpdateExecutionAttempt_law [OF assms(1,2) c] c by (auto simp: update_spec_def)
qed

lemma finishRun_stored:
  assumes e: "ex_store e = S" and u: "uuid_text (NewSHA1 E)" and clk: "clock_ok E"
    and inv: "invar (w_store w)" and run: "run_of E oc task run" "run_times_ok run" "tr_TaskID run = t_ID task"
    and stored: "a_runs (abs (w_store w)) (run_id E oc task) \<noteq> None"
    and status: "tr_Status run = rp_FinalStatus rep"
    and failed: "rp_FinalStatus rep = TaskStatusFailed \<Longrightarrow>
      tr_RetryCount run = int (length (rp_Attempts rep))
      \<and> tr_ErrorMessage run = ar_ErrorMessage (last (rp_Attempts rep))"
  shows "stored_run E oc task rep (abs (w_store (finishRun E e run w)))"
    "a_attempts (abs (w_store (finishRun E e run w))) = a_attempts (abs (w_store w))"
proof -
  let ?run = "run\<lparr>tr_EndTime := Some (Now E (w_clock w))\<rparr>" and ?now = "Now E (Suc (w_clock w))"
  have id: "tr_ID ?run = run_id E oc task" using run by (simp add: run_of_def)
  have "run_times_ok (?run\<lparr>tr_UpdatedAt := ?now\<rparr>)"
    using run(2) clk by (simp add: run_times_ok_def opt_year_ok_def clock_ok_def)
  then have "abs (w_store (finishRun E e run w)) =
      (abs (w_store w))\<lparr>a_runs := (a_runs (abs (w_store w)))(run_id E oc task \<mapsto> ?run\<lparr>tr_UpdatedAt := ?now\<rparr>)\<rparr>"
    using update_run_ok [OF inv, of ?run ?now] id stored u e
    by (simp add: finishRun_store run_id_slash_free)
  then show "stored_run E oc task rep (abs (w_store (finishRun E e run w)))"
    "a_attempts (abs (w_store (finishRun E e run w))) = a_attempts (abs (w_store w))"
    using run status failed by (auto simp: stored_run_def run_of_def)
qed

text \<open>The attempts of one task have different identifiers.\<close>

lemma own_attempts_apart:
  assumes "ids_apart E job oc" "task \<in> set (j_Tasks job)"
    and "int i \<le> max_retries job task" "int j \<le> max_retries job task" "i \<noteq> j"
  shows "attempt_id E oc task i \<noteq> attempt_id E oc task j"
  using assms unfolding ids_apart_def by blast

lemma loop_stored:
  assumes e: "ex_store e = S" and u: "uuid_text (NewSHA1 E)" and clk: "clock_ok E"
    and inv: "invar (w_store w)" and apart: "ids_apart E job oc" "task \<in> set (j_Tasks job)"
    and ok: "routine_ok E job oc (G_Loop task run n rep lastErr)"
    and st: "routine_stored E job oc (G_Loop task run n rep lastErr) (abs (w_store w))"
  shows "routine_stored E job oc (fst (taskStep E e job oc (G_Loop task run n rep lastErr) w))
    (abs (w_store (snd (taskStep E e job oc (G_Loop task run n rep lastErr) w))))"
proof -
  from ok have run: "run_of E oc task run" and hist: "failed_so_far E oc task n rep" by auto
  note n = failed_so_far_nonneg [OF hist]
  have len: "n = int (length (rp_Attempts rep))" using hist by (simp add: failed_so_far_def)
  show ?thesis
  proof (cases "n \<le> max_retries job task")
    case True
    obtain att w' where b: "beginAttempt E e run n w = (att, w')" by (cases "beginAttempt E e run n w")
    have att: "ea_ID att = attempt_id E oc task (nat n)" "ea_TaskRunID att = run_id E oc task"
        "attempt_times_ok att"
      using beginAttempt_ok [OF run n, of e w] beginAttempt_fields [of E e run n w] clk b run
      by (simp_all add: run_of_def)
    have "a_attempts (abs (w_store w)) (ea_ID att) = None"
      using st True n att(1) by (simp add: fresh_attempts_def)
    then have a': "abs (w_store w') = (abs (w_store w))
        \<lparr>a_attempts := (a_attempts (abs (w_store w)))(attempt_id E oc task (nat n) \<mapsto> att)\<rparr>"
      using create_attempt_ok [OF inv, of att] att u beginAttempt_store [of E e run n w] b e
      by (simp add: attempt_id_slash_free)
    have "\<forall>i < length (rp_Attempts rep). attempt_id E oc task i \<noteq> attempt_id E oc task (nat n)"
      using own_attempts_apart [OF apart] True len n by auto
    then have "stored_attempts E oc task (rp_Attempts rep) (abs (w_store w'))"
      using stored_attempts_upd [of E oc task "rp_Attempts rep" "abs (w_store w)"] st a' by simp
    moreover have "fresh_attempts E job oc task (n + 1) (abs (w_store w'))"
      using st a' own_attempts_apart [OF apart, of _ "nat n"] True n by (auto simp: fresh_attempts_def)
    ultimately show ?thesis using True b st a' att by simp
  next
    case False
    show ?thesis
    proof (cases lastErr)
      case None
      then show ?thesis using False by (simp add: failTask_def)
    next
      case (Some msg)
      let ?rep = "rep\<lparr>rp_FinalStatus := TaskStatusFailed\<rparr>"
      let ?run = "run\<lparr>tr_Status := TaskStatusFailed, tr_RetryCount := int (length (rp_Attempts rep)),
                      tr_ErrorMessage := msg\<rparr>"
      have r: "run_of E oc task ?run" "run_times_ok ?run" "tr_TaskID ?run = t_ID task"
        using run st by (simp_all add: run_of_def run_times_ok_def)
      have "a_runs (abs (w_store w)) (run_id E oc task) \<noteq> None" using st by simp
      from finishRun_stored [OF e u clk inv r this, of ?rep] show ?thesis
        using False Some st by (simp add: failTask_def stored_ok_def stored_attempts_def)
    qed
  qed
qed

lemma taskStep_stored:
  assumes e: "ex_store e = S" and u: "uuid_text (NewSHA1 E)" and clk: "clock_ok E"
    and inv: "invar (w_store w)" and apart: "ids_apart E job oc" "routine_task r \<subseteq> set (j_Tasks job)"
    and ok: "routine_ok E job oc r" and st: "routine_stored E job oc r (abs (w_store w))"
  shows "routine_stored E job oc (fst (taskStep E e job oc r w)) (abs (w_store (snd (taskStep E e job oc r w))))"
proof (cases r)
  case (G_Start task)
  let ?run = "created_run E oc task (Now E (w_clock w))"
  have id: "tr_ID ?run = run_id E oc task" "tr_TaskID ?run = t_ID task" by (simp_all add: created_run_def)
  have "abs (snd (CreateTaskRun S (w_store w) ?run)) =
      (abs (w_store w))\<lparr>a_runs := (a_runs (abs (w_store w)))(run_id E oc task \<mapsto> ?run)\<rparr>"
    using create_run_ok [OF inv, of ?run] created_run_times [OF clk] u st id
    by (simp add: G_Start run_id_slash_free)
  then show ?thesis using st created_run_times [OF clk] id e
    by (simp add: G_Start startTask_eq newTaskReport_def stored_attempts_def fresh_attempts_def)
next
  case (G_Loop task run n rep lastErr)
  then show ?thesis using loop_stored [OF e u clk inv apart(1)] apart(2) ok st by simp
next
  case (G_Running task run n rep att)
  from ok G_Running have run: "run_of E oc task run" and hist: "failed_so_far E oc task n rep"
    and n: "n \<le> max_retries job task" and att: "ea_ID att = attempt_id E oc task (nat n)"
      "ea_AttemptNumber att = n" by auto
  note nn = failed_so_far_nonneg [OF hist]
  have len: "nat n = length (rp_Attempts rep)" using hist by (simp add: failed_so_far_def)
  note stg = st [unfolded G_Running routine_stored.simps]
  let ?cfg = "GetEffectiveConfig job task"
  obtain ar w' where f: "endAttempt E e job task run ?cfg att w = (ar, w')"
    by (cases "endAttempt E e job task run ?cfg att w")
  let ?att = "completed_attempt att ar"
  have ar: "ar_StartTime ar = ea_StartTime att" "ar_AttemptNumber ar = n" "ar_EndTime ar = Some (Now E (w_clock w))"
    using endAttempt_fields [of E e job task run ?cfg att w] f att by simp_all
  have times: "attempt_times_ok ?att"
    using stg ar clk by (simp add: completed_attempt_def attempt_times_ok_def opt_year_ok_def clock_ok_def)
  have id: "ea_ID ?att = attempt_id E oc task (nat n)" using att by (simp add: completed_attempt_def)
  have a': "abs (w_store w') = (abs (w_store w))
      \<lparr>a_attempts := (a_attempts (abs (w_store w)))(attempt_id E oc task (nat n) \<mapsto> ?att)\<rparr>"
    using update_attempt_ok [OF inv _ times] id u stg endAttempt_store [of E e job task run ?cfg att w] f e
    by (simp add: attempt_id_slash_free)
  have task: "task \<in> set (j_Tasks job)" using apart(2) by (simp add: G_Running)
  have "\<forall>i < length (rp_Attempts rep). attempt_id E oc task i \<noteq> attempt_id E oc task (nat n)"
    using own_attempts_apart [OF apart(1) task] n len nn by auto
  then have "stored_attempts E oc task (rp_Attempts rep) (abs (w_store w'))"
    using stored_attempts_upd [of E oc task "rp_Attempts rep" "abs (w_store w)"] stg a' by simp
  moreover have "stored_attempt E oc task (nat n) ar ?att"
    using att ar stg nn by (simp add: stored_attempt_def completed_attempt_def)
  ultimately have "stored_attempts E oc task (rp_Attempts rep @ [ar]) (abs (w_store w'))"
    using a' len by (intro stored_attempts_snoc [of _ _ _ _ _ ?att]) simp_all
  moreover have "fresh_attempts E job oc task (n + 1) (abs (w_store w'))"
    using stg a' own_attempts_apart [OF apart(1) task, of _ "nat n"] n nn by (auto simp: fresh_attempts_def)
  ultimately show ?thesis using stg a' f by (simp add: G_Running)
next
  case (G_Attempted task run n rep ar)
  let ?pol = "effectivePolicy (GetEffectiveConfig job task)"
  obtain rd w' where a: "afterAttempt E e job run ?pol n rep ar w = (rd, w')"
    by (cases "afterAttempt E e job run ?pol n rep ar w")
  note stg = st [unfolded G_Attempted routine_stored.simps]
  have run: "run_of E oc task run" using ok G_Attempted by simp
  from afterAttempt_store [OF a] show ?thesis
  proof (elim disjE exE conjE)
    fix rep' v
    assume fin: "rd = Finished rep'" "w' = finishRun E e (run\<lparr>tr_Status := rp_FinalStatus rep'\<rparr>) v"
      "w_store v = w_store w"
    let ?run = "run\<lparr>tr_Status := rp_FinalStatus rep'\<rparr>"
    have r: "run_of E oc task ?run" "run_times_ok ?run" "tr_TaskID ?run = t_ID task"
      using run stg by (simp_all add: run_of_def run_times_ok_def)
    have inv': "invar (w_store v)" "a_runs (abs (w_store v)) (run_id E oc task) \<noteq> None"
      using inv fin(3) stg by simp_all
    have f: "rp_FinalStatus rep' \<noteq> TaskStatusFailed" "rp_Attempts rep' = rp_Attempts rep @ [ar]"
      using afterAttempt_fields(1) a fin(1) by blast+
    from finishRun_stored [OF e u clk inv'(1) r inv'(2), of rep'] show ?thesis
      using a fin f stg by (simp add: G_Attempted stored_ok_def stored_attempts_def)
  next
    fix rep' msg
    assume retry: "rd = Retry rep' msg" "w_store w' = w_store w"
    then have "rp_Attempts rep' = rp_Attempts rep @ [ar] \<and> msg = ar_ErrorMessage ar"
      using afterAttempt_fields(2) a by blast
    then show ?thesis using a retry stg by (simp add: G_Attempted)
  qed
next
  case (G_Report task rep)
  then show ?thesis using st by simp
next
  case (G_Check task rep)
  then show ?thesis using st by simp
qed simp_all

end

subsection \<open>Parallel tasks do not disturb each other's records\<close>

text \<open>The records of task \<open>u\<close> are the same in both stores.\<close>

definition same_records :: "Env \<Rightarrow> 'tk Job \<Rightarrow> JobOccurrence \<Rightarrow> Task \<Rightarrow> AStore \<Rightarrow> AStore \<Rightarrow> bool" where
  "same_records E job oc u a a' \<longleftrightarrow>
     a_runs a' (run_id E oc u) = a_runs a (run_id E oc u) \<and>
     (\<forall>i. int i \<le> max_retries job u \<longrightarrow>
        a_attempts a' (attempt_id E oc u i) = a_attempts a (attempt_id E oc u i))"

lemma frame_same_records:
  assumes "task_frame E job oc T a a'" "ids_apart E job oc" "T \<subseteq> set (j_Tasks job)"
    "u \<in> set (j_Tasks job)" "u \<notin> T"
  shows "same_records E job oc u a a'"
proof -
  have "run_id E oc u \<noteq> run_id E oc t" if "t \<in> T" for t
    using assms(2-5) that by (auto simp: ids_apart_def distinct_map inj_on_def)
  moreover have "attempt_id E oc u i \<noteq> attempt_id E oc t j"
    if "t \<in> T" "int i \<le> max_retries job u" "int j \<le> max_retries job t" for t i j
    using assms(2-5) that unfolding ids_apart_def by blast
  ultimately show ?thesis using assms(1) by (simp add: same_records_def task_frame_def)
qed

lemma stored_attempts_same:
  "same_records E job oc u a a' \<Longrightarrow> int (length ars) \<le> max_retries job u + 1 \<Longrightarrow>
     stored_attempts E oc u ars a' = stored_attempts E oc u ars a"
  by (auto simp: same_records_def stored_attempts_def)

lemma stored_ok_same:
  "same_records E job oc u a a' \<Longrightarrow> report_ok E job oc u rep \<Longrightarrow> stored_ok E oc u rep a
     \<Longrightarrow> stored_ok E oc u rep a'"
  using stored_attempts_same [of E job oc u a a' "rp_Attempts rep"]
  by (auto simp: stored_ok_def stored_run_def report_ok_def same_records_def Let_def)

lemma fresh_attempts_same:
  "same_records E job oc u a a' \<Longrightarrow> fresh_attempts E job oc u n a' = fresh_attempts E job oc u n a"
  by (simp add: same_records_def fresh_attempts_def)

lemma routine_stored_same:
  assumes same: "same_records E job oc u a a'" and ok: "routine_ok E job oc r"
    and st: "routine_stored E job oc r a" and u: "pending_task r = [u]"
  shows "routine_stored E job oc r a'"
proof -
  note keep = stored_attempts_same [OF same] fresh_attempts_same [OF same] stored_ok_same [OF same]
  have rec: "a_runs a' (run_id E oc u) = a_runs a (run_id E oc u)" using same by (simp add: same_records_def)
  have att: "a_attempts a' (attempt_id E oc u i) = a_attempts a (attempt_id E oc u i)"
    if "int i \<le> max_retries job u" for i using same that by (simp add: same_records_def)
  show ?thesis
  proof (cases r)
    case (G_Loop task run n rep lastErr)
    have "int (length (rp_Attempts rep)) \<le> max_retries job task + 1 \<or> rp_Attempts rep = []"
      using ok G_Loop by (auto simp: failed_so_far_def)
    then show ?thesis using st u rec keep(1) [of "rp_Attempts rep"] keep(2)
      by (auto simp: G_Loop stored_attempts_def)
  next
    case (G_Running task run n rep att)
    then show ?thesis
      using ok st u rec att [of "nat n"] keep(1) [of "rp_Attempts rep"] keep(2)
      by (auto simp: failed_so_far_def)
  next
    case (G_Attempted task run n rep ar)
    then show ?thesis
      using ok st u rec keep(1) [of "rp_Attempts rep @ [ar]"] keep(2) by (auto simp: failed_so_far_def)
  next
    case (G_Start task)
    then show ?thesis using st u rec keep(2) by simp
  next
    case (G_Report task rep)
    then show ?thesis using st ok u keep(3) by simp
  qed (simp_all add: st)
qed

definition group_stored :: "Env \<Rightarrow> 'tk Job \<Rightarrow> JobOccurrence \<Rightarrow> ('s, 'm) group \<Rightarrow> AStore \<Rightarrow> bool" where
  "group_stored E job oc g a \<longleftrightarrow>
     (\<forall>r \<in> set (g_routines g). routine_ok E job oc r \<and> routine_stored E job oc r a) \<and>
     (\<exists>ts. list_all2 (\<lambda>t rep. report_ok E job oc t rep \<and> stored_ok E oc t rep a) ts
             (er_TaskReports (g_report g)) \<and>
        mset ts + mset (concat (map pending_task (g_routines g))) = mset (j_Tasks job))"

lemma pending_subset: "routine_task r \<subseteq> T \<Longrightarrow> set (pending_task r) \<subseteq> T"
  by (cases r) auto

lemma ids_apart_distinct: "ids_apart E job oc \<Longrightarrow> distinct (j_Tasks job)"
  by (simp add: ids_apart_def distinct_map)

text \<open>The task of a goroutine is not that of another one, nor one already reported.\<close>

lemma pending_apart:
  assumes "mset ts + mset (concat (map pending_task rs)) = mset tasks" "distinct tasks"
    and "i < length rs" "pending_task (rs ! i) = [u]"
  shows "u \<notin> set ts" "\<forall>r \<in> set (rs[i := G_Done]). u \<notin> set (pending_task r)" "u \<in> set tasks"
proof -
  have "mset (concat (map pending_task rs))
      = mset (concat (map pending_task (rs[i := G_Done]))) + {#u#}"
    using mset_concat_update [OF assms(3), of pending_task G_Done] assms(4) by simp
  then have m: "mset tasks = add_mset u (mset (ts @ concat (map pending_task (rs[i := G_Done]))))"
    using assms(1) by simp
  then have "distinct (u # ts @ concat (map pending_task (rs[i := G_Done])))"
    using assms(2) by (metis mset.simps(2) mset_eq_imp_distinct_iff)
  then show "u \<notin> set ts" "\<forall>r \<in> set (rs[i := G_Done]). u \<notin> set (pending_task r)" by auto
  show "u \<in> set tasks" using m by (metis mset.simps(2) mset_eq_setD list.set_intros(1))
qed

lemma group_stored_report:
  assumes st: "group_stored E job oc g a" and i: "i < length (g_routines g)"
    and r: "g_routines g ! i = G_Report task rep"
  shows "group_stored E job oc
    (g\<lparr>g_routines := (g_routines g)[i := G_Check task rep], g_report := AddTaskReport (g_report g) rep\<rparr>) a"
proof -
  from st obtain ts where
    ts: "list_all2 (\<lambda>t rep. report_ok E job oc t rep \<and> stored_ok E oc t rep a) ts (er_TaskReports (g_report g))"
      "mset ts + mset (concat (map pending_task (g_routines g))) = mset (j_Tasks job)"
    and all: "\<forall>r \<in> set (g_routines g). routine_ok E job oc r \<and> routine_stored E job oc r a"
    by (auto simp: group_stored_def)
  have ok: "report_ok E job oc task rep" "stored_ok E oc task rep a"
    using all i r nth_mem [OF i] by fastforce+
  have "mset (concat (map pending_task (g_routines g)))
      = add_mset task (mset (concat (map pending_task ((g_routines g)[i := G_Check task rep]))))"
    using mset_concat_update [OF i, of pending_task "G_Check task rep"] r by simp
  then have "mset (ts @ [task]) + mset (concat (map pending_task ((g_routines g)[i := G_Check task rep])))
      = mset (j_Tasks job)" using ts(2) by simp
  moreover have "list_all2 (\<lambda>t rep. report_ok E job oc t rep \<and> stored_ok E oc t rep a) (ts @ [task])
      (er_TaskReports (AddTaskReport (g_report g) rep))"
    using ts(1) ok by (simp add: AddTaskReport_def list_all2_appendI)
  moreover have "\<forall>r \<in> set ((g_routines g)[i := G_Check task rep]).
      routine_ok E job oc r \<and> routine_stored E job oc r a"
    using all ok by (intro routines_update) auto
  ultimately show ?thesis by (auto simp: group_stored_def)
qed

lemma group_stored_same_world:
  assumes "group_stored E job oc g a" "i < length (g_routines g)" "pending_task (g_routines g ! i) = []"
    and "pending_task r' = []" "routine_ok E job oc r'" "routine_stored E job oc r' a"
  shows "group_stored E job oc (g\<lparr>g_routines := (g_routines g)[i := r'], g_world := w\<rparr>) a"
proof -
  have "mset (concat (map pending_task ((g_routines g)[i := r']))) = mset (concat (map pending_task (g_routines g)))"
    using mset_concat_update [OF assms(2), of pending_task r'] assms(3,4) by simp
  moreover have "\<forall>r \<in> set ((g_routines g)[i := r']). routine_ok E job oc r \<and> routine_stored E job oc r a"
    using assms(1,5,6) by (intro routines_update) (simp_all add: group_stored_def)
  ultimately show ?thesis using assms(1) by (simp add: group_stored_def)
qed

lemma elsewhere:
  assumes "x \<in> set (xs[i := y])" "x \<noteq> y"
  shows "x \<in> set xs \<and> x \<in> set (xs[i := z])"
proof -
  obtain k where k: "k < length xs" "xs[i := y] ! k = x"
    using assms(1) by (auto simp: in_set_conv_nth)
  then have "k \<noteq> i" using assms(2) by auto
  then have "xs ! k = x" "xs[i := z] ! k = x" using k by auto
  then show ?thesis using k(1) by (metis length_list_update nth_mem)
qed

text \<open>A step of one goroutine that leaves the records of the other tasks alone.\<close>

lemma group_stored_step:
  assumes st: "group_stored E job oc g a" and i: "i < length (g_routines g)"
    and u: "pending_task (g_routines g ! i) = [u]" "pending_task r' = [u]"
    and apart: "ids_apart E job oc" and fr: "task_frame E job oc {u} a a'"
    and r': "routine_ok E job oc r'" "routine_stored E job oc r' a'"
    and tasks: "\<forall>r \<in> set (g_routines g). set (pending_task r) \<subseteq> set (j_Tasks job)"
  shows "group_stored E job oc (g\<lparr>g_routines := (g_routines g)[i := r'], g_world := w\<rparr>) a'"
proof -
  from st obtain ts where
    ts: "list_all2 (\<lambda>t rep. report_ok E job oc t rep \<and> stored_ok E oc t rep a) ts (er_TaskReports (g_report g))"
      "mset ts + mset (concat (map pending_task (g_routines g))) = mset (j_Tasks job)"
    and all: "\<forall>r \<in> set (g_routines g). routine_ok E job oc r \<and> routine_stored E job oc r a"
    by (auto simp: group_stored_def)
  note un = pending_apart [OF ts(2) ids_apart_distinct [OF apart] i u(1)]
  have tsin: "set ts \<subseteq> set (j_Tasks job)" using ts(2) by (metis mset_eq_setD set_mset_mset set_mset_union Un_upper1)
  have same: "same_records E job oc t a a'" if "t \<in> set (j_Tasks job)" "t \<noteq> u" for t
    using frame_same_records [OF fr apart _ that(1)] un(3) that(2) by simp
  have "list_all2 (\<lambda>t rep. report_ok E job oc t rep \<and> stored_ok E oc t rep a') ts (er_TaskReports (g_report g))"
    using ts(1)
  proof (rule list.rel_mono_strong)
    fix t rep
    assume "t \<in> set ts" "rep \<in> set (er_TaskReports (g_report g))"
      "report_ok E job oc t rep \<and> stored_ok E oc t rep a"
    then show "report_ok E job oc t rep \<and> stored_ok E oc t rep a'"
      using stored_ok_same [OF same [of t]] tsin un(1) by blast
  qed
  moreover have "mset (concat (map pending_task ((g_routines g)[i := r']))) = mset (concat (map pending_task (g_routines g)))"
    using mset_concat_update [OF i, of pending_task r'] u by simp
  moreover have "routine_ok E job oc r \<and> routine_stored E job oc r a'"
    if r: "r \<in> set ((g_routines g)[i := r'])" for r
  proof (cases "r = r'")
    case True
    then show ?thesis using r' by simp
  next
    case False
    then have "r \<in> set (g_routines g)" "r \<in> set ((g_routines g)[i := G_Done])"
      using elsewhere [OF r] by auto
    then have ok: "routine_ok E job oc r" "routine_stored E job oc r a"
      and v: "u \<notin> set (pending_task r)" "set (pending_task r) \<subseteq> set (j_Tasks job)"
      using all un(2) tasks by auto
    show ?thesis
    proof (cases "pending_task r")
      case Nil
      then show ?thesis using ok by (cases r) auto
    next
      case (Cons v vs)
      then have "pending_task r = [v]" by (cases r) auto
      then show ?thesis using routine_stored_same [OF same [of v] ok] v ok by auto
    qed
  qed
  ultimately show ?thesis using ts(2) by (auto simp: group_stored_def)
qed

context reliable_storage
begin

lemma groupStep_stored:
  assumes e: "ex_store e = S" and u: "uuid_text (NewSHA1 E)" and clk: "clock_ok E"
    and inv: "invar (w_store (g_world g))" and apart: "ids_apart E job oc"
    and T: "\<forall>r \<in> set (g_routines g). routine_task r \<subseteq> set (j_Tasks job)"
    and st: "group_stored E job oc g (abs (w_store (g_world g)))"
  shows "group_stored E job oc (groupStep E e job oc i g) (abs (w_store (g_world (groupStep E e job oc i g))))"
proof (cases "i < length (g_routines g)")
  case True
  let ?r = "g_routines g ! i" and ?w = "g_world g"
  have r: "routine_ok E job oc ?r" "routine_stored E job oc ?r (abs (w_store ?w))" "routine_task ?r \<subseteq> set (j_Tasks job)"
    using st T nth_mem [OF True] by (auto simp: group_stored_def)
  have pend: "\<forall>r \<in> set (g_routines g). set (pending_task r) \<subseteq> set (j_Tasks job)"
    using T pending_subset by blast
  let ?s = "taskStep E e job oc ?r ?w"
  note own = taskStep_stored [OF e u clk inv apart r(3,1,2)] taskStep_ok [OF r(1), of e ?w]
  consider (report) task rep where "?r = G_Report task rep" | (check) task rep where "?r = G_Check task rep"
    | (idle) "?r = G_Done \<or> (\<exists>task. ?r = G_Panicked task)"
    | (busy) t where "pending_task ?r = [t]" "routine_task ?r = {t}"
        "groupStep E e job oc i g = g\<lparr>g_routines := (g_routines g)[i := fst ?s], g_world := snd ?s\<rparr>"
    using True by (cases ?r) (simp_all add: groupStep_def case_prod_beta)
  then show ?thesis
  proof cases
    case report
    then show ?thesis using group_stored_report [OF st True report] True by (simp add: groupStep_def)
  next
    case check
    have "group_stored E job oc (g\<lparr>g_routines := (g_routines g)[i := G_Done], g_world := w\<rparr>) (abs (w_store ?w))" for w
      using group_stored_same_world [OF st True, of G_Done] check by simp
    then show ?thesis using True check by (simp add: groupStep_def group_stored_def)
  next
    case idle
    then have "groupStep E e job oc i g = g" using True by (auto simp: groupStep_def list_update_same_conv)
    then show ?thesis using st by simp
  next
    case busy
    then show ?thesis
      using group_stored_step [OF st True busy(1) _ apart _ own(2,1) pend] taskStep_frame [OF e u inv r(1)]
      by (simp add: taskStep_pending)
  qed
next
  case False
  then show ?thesis using st by (simp add: groupStep_def)
qed

lemma runGroup_stored:
  assumes "ex_store e = S" "uuid_text (NewSHA1 E)" "clock_ok E" "ids_apart E job oc"
    and "invar (w_store (g_world g))" "\<forall>r \<in> set (g_routines g). routine_task r \<subseteq> set (j_Tasks job)"
    "group_ok E job oc g" "group_stored E job oc g (abs (w_store (g_world g)))"
  shows "group_stored E job oc (runGroup E e job oc sched g) (abs (w_store (g_world (runGroup E e job oc sched g))))"
  using assms(5-)
proof (induction sched arbitrary: g)
  case (Cons i sched)
  note fr = groupStep_frame [OF assms(1,2) Cons.prems(3,2,1), of i]
  have "group_stored E job oc (runGroup E e job oc sched (groupStep E e job oc i g))
      (abs (w_store (g_world (runGroup E e job oc sched (groupStep E e job oc i g)))))"
    using fr groupStep_ok [OF Cons.prems(3)] groupStep_stored [OF assms(1-3) Cons.prems(1) assms(4) Cons.prems(2,4)]
    by (intro Cons.IH) simp_all
  then show ?case by (simp add: runGroup_def)
qed (simp add: runGroup_def)

text \<open>No record of the occurrence's runs and attempts exists before it is executed.\<close>

lemma executeParallel_stored:
  assumes e: "ex_store e = S" "uuid_text (NewSHA1 E)" "clock_ok E" and apart: "ids_apart E job oc"
    and inv: "invar (w_store w)"
    and fresh: "\<forall>t \<in> set (j_Tasks job). routine_stored E job oc (G_Start t) (abs (w_store w))"
    and ex: "executeParallel E e job sched oc w = Some (rep, err, w')"
  shows "\<exists>ts. mset ts = mset (j_Tasks job) \<and>
    list_all2 (\<lambda>t r. report_ok E job oc t r \<and> stored_ok E oc t r (abs (w_store w'))) ts (er_TaskReports rep)"
proof -
  let ?g = "startGroup job oc w" and ?f = "runGroup E e job oc sched (startGroup job oc w)"
  have start: "concat (map pending_task (map G_Start ts)) = ts" for ts by (induction ts) auto
  have "group_stored E job oc ?g (abs (w_store (g_world ?g)))"
    using fresh start by (auto simp: group_stored_def startGroup_def NewExecutionReport_def)
  then have st: "group_stored E job oc ?f (abs (w_store (g_world ?f)))"
    using inv by (intro runGroup_stored [OF e apart _ _ startGroup_ok]) (auto simp: startGroup_def)
  have fin: "\<forall>r \<in> set (g_routines ?f). r = G_Done" "er_TaskReports rep = er_TaskReports (g_report ?f)"
    "w_store w' = w_store (g_world ?f)"
    using ex by (auto simp: executeParallel_def finishGroup_def look_at_ctx_def Let_def split: if_splits)
  from fin(1) have none: "mset (concat (map pending_task (g_routines ?f))) = {#}" by auto
  show ?thesis using st unfolding group_stored_def none fin(2,3) by auto
qed

lemma steps_stored:
  assumes "ex_store e = S" "uuid_text (NewSHA1 E)" "clock_ok E" "ids_apart E job oc"
    and "routine_task r \<subseteq> set (j_Tasks job)" "routine_ok E job oc r" "invar (w_store w)"
    "routine_stored E job oc r (abs (w_store w))"
  shows "routine_stored E job oc (fst ((stepPair E e job oc ^^ k) (r, w)))
    (abs (w_store (snd ((stepPair E e job oc ^^ k) (r, w)))))"
proof (induction k)
  case (Suc k)
  obtain r' w' where p: "(stepPair E e job oc ^^ k) (r, w) = (r', w')"
    by (cases "(stepPair E e job oc ^^ k) (r, w)")
  have step: "(stepPair E e job oc ^^ Suc k) (r, w) = taskStep E e job oc r' w'"
    by (simp add: p) (simp add: stepPair_def)
  have "routine_ok E job oc r'" "routine_task r' \<subseteq> set (j_Tasks job)" "invar (w_store w')"
    using steps_frame [OF assms(1,2,6,7), of k] assms(5) p by auto
  then show ?case unfolding step
    using taskStep_stored [OF assms(1-3) _ assms(4)] Suc [unfolded p fst_conv snd_conv] by blast
qed (simp add: assms)

lemma executeTask_stored:
  assumes "ex_store e = S" "uuid_text (NewSHA1 E)" "clock_ok E" "ids_apart E job oc"
    and "task \<in> set (j_Tasks job)" "invar (w_store w)"
    "routine_stored E job oc (G_Start task) (abs (w_store w))"
    and "executeTask E e job task oc w = Some (rep, w')"
  shows "stored_ok E oc task rep (abs (w_store w'))"
proof -
  obtain k where "(stepPair E e job oc ^^ k) (G_Start task, w) = (G_Report task rep, w')"
    using executeTask_steps [where E = E and e = e and job = job and oc = oc and task = task and w = w]
      assms(8) by auto
  then show ?thesis
    using steps_stored [OF assms(1-4), of "G_Start task" w k] assms(5-7) by simp
qed

lemma sequentialLoop_stored:
  assumes "ex_store e = S" "uuid_text (NewSHA1 E)" "clock_ok E" "ids_apart E job oc"
    and "invar (w_store w)" "set tasks \<subseteq> set (j_Tasks job)" "distinct tasks"
    "\<forall>t \<in> set tasks. routine_stored E job oc (G_Start t) (abs (w_store w))"
    "sequentialLoop E e job oc tasks report w = Some (rep, err, w')"
  shows "\<exists>reps. er_TaskReports rep = er_TaskReports report @ reps \<and>
    list_all2 (\<lambda>t r. report_ok E job oc t r \<and> stored_ok E oc t r (abs (w_store w')))
      (take (length reps) tasks) reps"
  using assms(5-)
proof (induction tasks arbitrary: report w)
  case (Cons task tasks)
  obtain tr w1 where t: "executeTask E e job task oc w = Some (tr, w1)"
    using Cons.prems by (auto split: option.splits)
  have task: "task \<in> set (j_Tasks job)" and rest: "set tasks \<subseteq> set (j_Tasks job)" "task \<notin> set tasks"
    using Cons.prems(2,3) by auto
  note fr = executeTask_frame [OF assms(1,2) Cons.prems(1) t]
  have ok: "report_ok E job oc task tr" "stored_ok E oc task tr (abs (w_store w1))"
    using executeTask_report [OF t] executeTask_stored [OF assms(1-4) task Cons.prems(1) _ t] Cons.prems(4)
    by simp_all
  obtain c w2 where l: "look_at_ctx E (jc_ExecutionTimeout (j_Config job)) w1 = (c, w2)"
    by (cases "look_at_ctx E (jc_ExecutionTimeout (j_Config job)) w1")
  have s2: "w_store w2 = w_store w1"
    using look_at_ctx_store [of E "jc_ExecutionTimeout (j_Config job)" w1] l by simp
  consider "w_store w' = w_store w1" "er_TaskReports rep = er_TaskReports report @ [tr]"
    | "sequentialLoop E e job oc tasks (AddTaskReport report tr) w2 = Some (rep, err, w')"
    using Cons.prems(5) t l s2 by (auto simp: Let_def AddTaskReport_def split: if_splits option.splits)
  then show ?case
  proof cases
    case 1
    then show ?thesis using ok by (intro exI [of _ "[tr]"]) simp
  next
    case 2
    have fresh: "\<forall>t \<in> set tasks. routine_stored E job oc (G_Start t) (abs (w_store w2))"
    proof
      fix t assume "t \<in> set tasks"
      then have "same_records E job oc t (abs (w_store w)) (abs (w_store w1))"
        using frame_same_records [OF fr [THEN conjunct2] assms(4)] rest task by auto
      then show "routine_stored E job oc (G_Start t) (abs (w_store w2))"
        using Cons.prems(4) \<open>t \<in> set tasks\<close> s2
          routine_stored_same [of E job oc t _ _ "G_Start t"] by (simp add: routine_stored.simps(1))
    qed
    obtain reps where reps: "er_TaskReports rep = er_TaskReports (AddTaskReport report tr) @ reps"
      "list_all2 (\<lambda>t r. report_ok E job oc t r \<and> stored_ok E oc t r (abs (w_store w')))
        (take (length reps) tasks) reps"
      using Cons.IH [OF _ rest(1) _ fresh 2] fr Cons.prems(3) s2 by auto
    have "task_frame E job oc (set tasks) (abs (w_store w2)) (abs (w_store w'))"
      using sequentialLoop_frame [OF assms(1,2) _ 2] fr s2 by simp
    then have "same_records E job oc task (abs (w_store w2)) (abs (w_store w'))"
      using rest task by (intro frame_same_records [OF _ assms(4)])
    then have "stored_ok E oc task tr (abs (w_store w'))" using stored_ok_same ok s2 by metis
    then show ?thesis using reps ok(1)
      by (intro exI [of _ "tr # reps"]) (simp add: AddTaskReport_def)
  qed
qed auto

text \<open>In either mode, every reported task is one of the job's, and its records agree with the report.\<close>

lemma runTasks_stored:
  assumes "ex_store e = S" "uuid_text (NewSHA1 E)" "clock_ok E" "ids_apart E job oc" "invar (w_store w)"
    and "\<forall>t \<in> set (j_Tasks job). routine_stored E job oc (G_Start t) (abs (w_store w))"
    and "runTasks E e job sched oc w = Some (rep, err, w')"
  shows "\<exists>ts. mset ts \<subseteq># mset (j_Tasks job) \<and>
    list_all2 (\<lambda>t r. report_ok E job oc t r \<and> stored_ok E oc t r (abs (w_store w'))) ts (er_TaskReports rep)"
proof -
  have "?thesis" if seq: "executeSequential E e job oc w = Some (rep, err, w')"
  proof -
    obtain reps where reps: "er_TaskReports rep = reps"
      "list_all2 (\<lambda>t r. report_ok E job oc t r \<and> stored_ok E oc t r (abs (w_store w')))
        (take (length reps) (j_Tasks job)) reps"
      using sequentialLoop_stored [OF assms(1-5) subset_refl ids_apart_distinct [OF assms(4)] assms(6)
        seq [unfolded executeSequential_def]] by (auto simp: NewExecutionReport_def)
    have "mset (take n xs) \<subseteq># mset xs" for n and xs :: "Task list"
      by (metis append_take_drop_id mset_append mset_subset_eq_add_left)
    then show ?thesis using reps by blast
  qed
  moreover have "?thesis" if par: "executeParallel E e job sched oc w = Some (rep, err, w')"
  proof -
    obtain ts where "mset ts = mset (j_Tasks job)"
      "list_all2 (\<lambda>t r. report_ok E job oc t r \<and> stored_ok E oc t r (abs (w_store w'))) ts
        (er_TaskReports rep)"
      using executeParallel_stored [OF assms(1-6) par] by blast
    then show ?thesis by (intro exI [of _ ts]) simp
  qed
  ultimately show ?thesis using assms(7) by (auto simp: runTasks_def split: if_splits)
qed

end

end
