(* ===== verification/Badger.thy ===== *)
theory Badger
  imports Json
begin

text \<open>
  The BadgerDB implementation of the storage interface, \<^verbatim>\<open>storage/badger/badger.go\<close>: the key schema,
  and one definition per method. The database itself (\<^verbatim>\<open>github.com/dgraph-io/badger/v4\<close>) is external:
  its transaction operations are the fields of the record \<open>badger\<close>, an argument of every definition,
  and the locale \<open>badger_db\<close> states the documented behaviour the methods rely on. Values are the JSON
  documents the methods encode and decode.
\<close>

subsection \<open>The database operations used\<close>

text \<open>
  \<open>db_Update db f\<close> runs \<open>f\<close> in a read-write transaction; a read-only transaction reads the current
  state. \<open>txn_Get\<close> gives the error of the lookup, if any; \<open>item_Value\<close> the value of an item;
  \<open>txn_Keys db p\<close> the keys with prefix \<open>p\<close> in the order the iterator visits them.
\<close>

record 'db badger =
  db_Update :: "'db \<Rightarrow> ('db \<Rightarrow> 'db result) \<Rightarrow> error option \<times> 'db"
  txn_Get :: "'db \<Rightarrow> string \<Rightarrow> error option"
  item_Value :: "'db \<Rightarrow> string \<Rightarrow> json result"
  txn_Set :: "'db \<Rightarrow> string \<Rightarrow> json \<Rightarrow> 'db result"
  txn_Delete :: "'db \<Rightarrow> string \<Rightarrow> 'db result"
  txn_Keys :: "'db \<Rightarrow> string \<Rightarrow> string list"

subsection \<open>Keys\<close>

definition jobKey :: "string \<Rightarrow> string" where
  "jobKey i = ''job/'' @ i"

definition taskKey :: "string \<Rightarrow> string \<Rightarrow> string" where
  "taskKey jobID taskID = ''job/'' @ jobID @ ''/task/'' @ taskID"

definition occurrenceKey :: "string \<Rightarrow> string \<Rightarrow> string" where
  "occurrenceKey jobID occurrenceID = ''job/'' @ jobID @ ''/occurrence/'' @ occurrenceID"

definition taskRunKey :: "string \<Rightarrow> string \<Rightarrow> string \<Rightarrow> string" where
  "taskRunKey jobID occurrenceID taskID =
     ''job/'' @ jobID @ ''/occurrence/'' @ occurrenceID @ ''/task/'' @ taskID @ ''/run''"

definition attemptKey :: "string \<Rightarrow> string \<Rightarrow> string \<Rightarrow> string \<Rightarrow> string" where
  "attemptKey jobID occurrenceID taskID attemptID =
     ''job/'' @ jobID @ ''/occurrence/'' @ occurrenceID @ ''/task/'' @ taskID @ ''/run/attempt/''
     @ attemptID"

text \<open>Task runs and attempts are stored under the simplified keys the methods build inline.\<close>

definition simpleRunKey :: "string \<Rightarrow> string" where
  "simpleRunKey runID = ''taskrun/'' @ runID"

definition simpleAttemptKey :: "string \<Rightarrow> string" where
  "simpleAttemptKey attemptID = ''attempt/'' @ attemptID"

subsection \<open>The transaction bodies the methods share\<close>

definition createTxn ::
  "'db badger \<Rightarrow> error \<Rightarrow> string \<Rightarrow> string \<Rightarrow> json result \<Rightarrow> 'db \<Rightarrow> 'db result" where
  "createTxn B exists what key marshalled txn =
     (case txn_Get B txn key of
        None \<Rightarrow> Inl exists
      | Some err \<Rightarrow>
          if err \<noteq> ErrKeyNotFound then Inl err
          else (case marshalled of
                  Inl e \<Rightarrow> Inl (ErrWrap what e)
                | Inr data \<Rightarrow> txn_Set B txn key data))"

definition updateTxn ::
  "'db badger \<Rightarrow> error \<Rightarrow> string \<Rightarrow> string \<Rightarrow> json result \<Rightarrow> 'db \<Rightarrow> 'db result" where
  "updateTxn B missing what key marshalled txn =
     (case txn_Get B txn key of
        Some err \<Rightarrow> if err = ErrKeyNotFound then Inl missing else Inl err
      | None \<Rightarrow> (case marshalled of
                  Inl e \<Rightarrow> Inl (ErrWrap what e)
                | Inr data \<Rightarrow> txn_Set B txn key data))"

definition viewGet :: "'db badger \<Rightarrow> error \<Rightarrow> string \<Rightarrow> (json \<Rightarrow> 'a result) \<Rightarrow> 'db \<Rightarrow> 'a result" where
  "viewGet B missing key unmarshal s =
     (case (case txn_Get B s key of
              Some err \<Rightarrow> Inl err | None \<Rightarrow> bindE (item_Value B s key) unmarshal) of
        Inl err \<Rightarrow> if err = ErrKeyNotFound then Inl missing else Inl err
      | Inr v \<Rightarrow> Inr v)"

text \<open>Iteration: the first item whose key passes a test, and all items that pass a filter.\<close>

fun findFirst ::
  "'db badger \<Rightarrow> 'db \<Rightarrow> (string \<Rightarrow> bool) \<Rightarrow> (json \<Rightarrow> 'a result) \<Rightarrow> string list \<Rightarrow> 'a option result" where
  "findFirst B s P unmarshal [] = Inr None"
| "findFirst B s P unmarshal (key # keys) =
     (if P key then bindE (bindE (item_Value B s key) unmarshal) (\<lambda>v. Inr (Some v))
      else findFirst B s P unmarshal keys)"

fun collect ::
  "'db badger \<Rightarrow> 'db \<Rightarrow> (string \<Rightarrow> bool) \<Rightarrow> (json \<Rightarrow> 'a result) \<Rightarrow> ('a \<Rightarrow> bool) \<Rightarrow> string list
   \<Rightarrow> 'a list result" where
  "collect B s P unmarshal Q [] = Inr []"
| "collect B s P unmarshal Q (key # keys) =
     (if \<not> P key then collect B s P unmarshal Q keys
      else bindE (bindE (item_Value B s key) unmarshal)
             (\<lambda>v. bindE (collect B s P unmarshal Q keys)
                (\<lambda>vs. Inr (if Q v then v # vs else vs))))"

subsection \<open>Jobs\<close>

definition BadgerStorage_CreateJob :: "'db badger \<Rightarrow> 'db \<Rightarrow> StoredJob \<Rightarrow> error option \<times> 'db" where
  "BadgerStorage_CreateJob B s job =
     db_Update B s (createTxn B (ErrJobExists (sj_ID job)) ''failed to marshal job''
       (jobKey (sj_ID job)) (marshal_job job))"

definition BadgerStorage_GetJob :: "'db badger \<Rightarrow> 'db \<Rightarrow> string \<Rightarrow> StoredJob result" where
  "BadgerStorage_GetJob B s jobID = viewGet B (ErrJobNotFound jobID) (jobKey jobID) unmarshal_job s"

definition BadgerStorage_UpdateJob ::
  "'db badger \<Rightarrow> 'db \<Rightarrow> instant \<Rightarrow> StoredJob \<Rightarrow> error option \<times> 'db" where
  "BadgerStorage_UpdateJob B s now job =
     db_Update B s (updateTxn B (ErrJobNotFound (sj_ID job)) ''failed to marshal job''
       (jobKey (sj_ID job)) (marshal_job (job\<lparr>sj_UpdatedAt := now\<rparr>)))"

definition BadgerStorage_DeleteJob :: "'db badger \<Rightarrow> 'db \<Rightarrow> string \<Rightarrow> error option \<times> 'db" where
  "BadgerStorage_DeleteJob B s jobID = db_Update B s (\<lambda>txn. txn_Delete B txn (jobKey jobID))"

definition BadgerStorage_ListJobs :: "'db badger \<Rightarrow> 'db \<Rightarrow> StoredJob list result" where
  "BadgerStorage_ListJobs B s =
     collect B s (\<lambda>key. \<not> Count key (CHR ''/'') > 1) unmarshal_job (\<lambda>_. True)
       (txn_Keys B s ''job/'')"

subsection \<open>Tasks\<close>

definition BadgerStorage_CreateTask :: "'db badger \<Rightarrow> 'db \<Rightarrow> StoredTask \<Rightarrow> error option \<times> 'db" where
  "BadgerStorage_CreateTask B s task =
     db_Update B s (createTxn B (ErrTaskExists (st_ID task)) ''failed to marshal task''
       (taskKey (st_JobID task) (st_ID task)) (marshal_task task))"

definition BadgerStorage_GetTask :: "'db badger \<Rightarrow> 'db \<Rightarrow> string \<Rightarrow> StoredTask result" where
  "BadgerStorage_GetTask B s taskID =
     (case findFirst B s (\<lambda>key. Contains key ''/task/'' \<and> HasSuffix key taskID) unmarshal_task
             (txn_Keys B s ''job/'') of
        Inl err \<Rightarrow> Inl err
      | Inr None \<Rightarrow> Inl (ErrTaskNotFound taskID)
      | Inr (Some task) \<Rightarrow> Inr task)"

definition BadgerStorage_UpdateTask ::
  "'db badger \<Rightarrow> 'db \<Rightarrow> instant \<Rightarrow> StoredTask \<Rightarrow> error option \<times> 'db" where
  "BadgerStorage_UpdateTask B s now task =
     db_Update B s (updateTxn B (ErrTaskNotFound (st_ID task)) ''failed to marshal task''
       (taskKey (st_JobID task) (st_ID task)) (marshal_task (task\<lparr>st_UpdatedAt := now\<rparr>)))"

definition BadgerStorage_DeleteTask :: "'db badger \<Rightarrow> 'db \<Rightarrow> string \<Rightarrow> error option \<times> 'db" where
  "BadgerStorage_DeleteTask B s taskID =
     (case BadgerStorage_GetTask B s taskID of
        Inl err \<Rightarrow> (Some err, s)
      | Inr task \<Rightarrow> db_Update B s (\<lambda>txn. txn_Delete B txn (taskKey (st_JobID task) (st_ID task))))"

definition BadgerStorage_ListTasksByJobID ::
  "'db badger \<Rightarrow> 'db \<Rightarrow> string \<Rightarrow> StoredTask list result" where
  "BadgerStorage_ListTasksByJobID B s jobID =
     collect B s (\<lambda>_. True) unmarshal_task (\<lambda>_. True)
       (txn_Keys B s (''job/'' @ jobID @ ''/task/''))"

subsection \<open>Job occurrences\<close>

definition BadgerStorage_CreateJobOccurrence ::
  "'db badger \<Rightarrow> 'db \<Rightarrow> StoredOccurrence \<Rightarrow> error option \<times> 'db" where
  "BadgerStorage_CreateJobOccurrence B s oc =
     db_Update B s (createTxn B (ErrOccurrenceExists (so_ID oc)) ''failed to marshal occurrence''
       (occurrenceKey (so_JobID oc) (so_ID oc)) (marshal_occurrence oc))"

definition BadgerStorage_GetJobOccurrence ::
  "'db badger \<Rightarrow> 'db \<Rightarrow> string \<Rightarrow> StoredOccurrence result" where
  "BadgerStorage_GetJobOccurrence B s occurrenceID =
     (case findFirst B s (\<lambda>key. Contains key ''/occurrence/'' \<and> HasSuffix key occurrenceID)
             unmarshal_occurrence (txn_Keys B s ''job/'') of
        Inl err \<Rightarrow> Inl err
      | Inr None \<Rightarrow> Inl (ErrOccurrenceNotFound occurrenceID)
      | Inr (Some oc) \<Rightarrow> Inr oc)"

definition BadgerStorage_UpdateJobOccurrence ::
  "'db badger \<Rightarrow> 'db \<Rightarrow> instant \<Rightarrow> StoredOccurrence \<Rightarrow> error option \<times> 'db" where
  "BadgerStorage_UpdateJobOccurrence B s now oc =
     db_Update B s (updateTxn B (ErrOccurrenceNotFound (so_ID oc)) ''failed to marshal occurrence''
       (occurrenceKey (so_JobID oc) (so_ID oc)) (marshal_occurrence (oc\<lparr>so_UpdatedAt := now\<rparr>)))"

definition BadgerStorage_DeleteJobOccurrence ::
  "'db badger \<Rightarrow> 'db \<Rightarrow> string \<Rightarrow> error option \<times> 'db" where
  "BadgerStorage_DeleteJobOccurrence B s occurrenceID =
     (case BadgerStorage_GetJobOccurrence B s occurrenceID of
        Inl err \<Rightarrow> (Some err, s)
      | Inr oc \<Rightarrow>
          db_Update B s (\<lambda>txn. txn_Delete B txn (occurrenceKey (so_JobID oc) (so_ID oc))))"

definition BadgerStorage_ListRunningOccurrences ::
  "'db badger \<Rightarrow> 'db \<Rightarrow> StoredOccurrence list result" where
  "BadgerStorage_ListRunningOccurrences B s =
     collect B s (\<lambda>key. Contains key ''/occurrence/'') unmarshal_occurrence
       (\<lambda>oc. so_Status oc = JobStatusRunning) (txn_Keys B s ''job/'')"

definition BadgerStorage_ListStaleOccurrences ::
  "'db badger \<Rightarrow> 'db \<Rightarrow> instant \<Rightarrow> duration \<Rightarrow> StoredOccurrence list result" where
  "BadgerStorage_ListStaleOccurrences B s now threshold =
     collect B s (\<lambda>key. Contains key ''/occurrence/'') unmarshal_occurrence
       (stale now threshold) (txn_Keys B s ''job/'')"

definition BadgerStorage_ListQueuedOccurrencesByJobID ::
  "'db badger \<Rightarrow> 'db \<Rightarrow> string \<Rightarrow> StoredOccurrence list result" where
  "BadgerStorage_ListQueuedOccurrencesByJobID B s jobID =
     collect B s (\<lambda>_. True) unmarshal_occurrence (\<lambda>oc. so_Status oc = JobStatusQueued)
       (txn_Keys B s (''job/'' @ jobID @ ''/occurrence/''))"

definition BadgerStorage_ListPendingOccurrences ::
  "'db badger \<Rightarrow> 'db \<Rightarrow> string \<Rightarrow> StoredOccurrence list result" where
  "BadgerStorage_ListPendingOccurrences B s jobID =
     collect B s (\<lambda>_. True) unmarshal_occurrence (\<lambda>oc. so_Status oc = JobStatusPending)
       (txn_Keys B s (''job/'' @ jobID @ ''/occurrence/''))"

subsection \<open>Task runs\<close>

definition BadgerStorage_CreateTaskRun :: "'db badger \<Rightarrow> 'db \<Rightarrow> TaskRun \<Rightarrow> error option \<times> 'db" where
  "BadgerStorage_CreateTaskRun B s run =
     db_Update B s (createTxn B (ErrTaskRunExists (tr_ID run)) ''failed to marshal task run''
       (simpleRunKey (tr_ID run)) (marshal_run run))"

definition BadgerStorage_GetTaskRun :: "'db badger \<Rightarrow> 'db \<Rightarrow> string \<Rightarrow> TaskRun result" where
  "BadgerStorage_GetTaskRun B s runID =
     viewGet B (ErrTaskRunNotFound runID) (simpleRunKey runID) unmarshal_run s"

definition BadgerStorage_UpdateTaskRun ::
  "'db badger \<Rightarrow> 'db \<Rightarrow> instant \<Rightarrow> TaskRun \<Rightarrow> error option \<times> 'db" where
  "BadgerStorage_UpdateTaskRun B s now run =
     db_Update B s (updateTxn B (ErrTaskRunNotFound (tr_ID run)) ''failed to marshal task run''
       (simpleRunKey (tr_ID run)) (marshal_run (run\<lparr>tr_UpdatedAt := now\<rparr>)))"

definition BadgerStorage_DeleteTaskRun :: "'db badger \<Rightarrow> 'db \<Rightarrow> string \<Rightarrow> error option \<times> 'db" where
  "BadgerStorage_DeleteTaskRun B s runID =
     db_Update B s (\<lambda>txn. txn_Delete B txn (simpleRunKey runID))"

definition BadgerStorage_ListTaskRunsByOccurrenceID ::
  "'db badger \<Rightarrow> 'db \<Rightarrow> string \<Rightarrow> TaskRun list result" where
  "BadgerStorage_ListTaskRunsByOccurrenceID B s occurrenceID =
     collect B s (\<lambda>_. True) unmarshal_run (\<lambda>run. tr_OccurrenceID run = occurrenceID)
       (txn_Keys B s ''taskrun/'')"

subsection \<open>Execution attempts\<close>

definition BadgerStorage_CreateExecutionAttempt ::
  "'db badger \<Rightarrow> 'db \<Rightarrow> ExecutionAttempt \<Rightarrow> error option \<times> 'db" where
  "BadgerStorage_CreateExecutionAttempt B s a =
     db_Update B s (createTxn B (ErrAttemptExists (ea_ID a)) ''failed to marshal execution attempt''
       (simpleAttemptKey (ea_ID a)) (marshal_attempt a))"

definition BadgerStorage_GetExecutionAttempt ::
  "'db badger \<Rightarrow> 'db \<Rightarrow> string \<Rightarrow> ExecutionAttempt result" where
  "BadgerStorage_GetExecutionAttempt B s attemptID =
     viewGet B (ErrAttemptNotFound attemptID) (simpleAttemptKey attemptID) unmarshal_attempt s"

definition BadgerStorage_UpdateExecutionAttempt ::
  "'db badger \<Rightarrow> 'db \<Rightarrow> ExecutionAttempt \<Rightarrow> error option \<times> 'db" where
  "BadgerStorage_UpdateExecutionAttempt B s a =
     db_Update B s (updateTxn B (ErrAttemptNotFound (ea_ID a)) ''failed to marshal execution attempt''
       (simpleAttemptKey (ea_ID a)) (marshal_attempt a))"

definition BadgerStorage_ListExecutionAttemptsByTaskRunID ::
  "'db badger \<Rightarrow> 'db \<Rightarrow> string \<Rightarrow> ExecutionAttempt list result" where
  "BadgerStorage_ListExecutionAttemptsByTaskRunID B s taskRunID =
     collect B s (\<lambda>_. True) unmarshal_attempt (\<lambda>a. ea_TaskRunID a = taskRunID)
       (txn_Keys B s ''attempt/'')"

text \<open>The implementation as a value of the interface.\<close>

definition BadgerStorage :: "'db badger \<Rightarrow> 'db Storage" where
  "BadgerStorage B =
     \<lparr>CreateJob = BadgerStorage_CreateJob B, GetJob = BadgerStorage_GetJob B,
      UpdateJob = BadgerStorage_UpdateJob B, DeleteJob = BadgerStorage_DeleteJob B,
      ListJobs = BadgerStorage_ListJobs B, CreateTask = BadgerStorage_CreateTask B,
      GetTask = BadgerStorage_GetTask B, UpdateTask = BadgerStorage_UpdateTask B,
      DeleteTask = BadgerStorage_DeleteTask B,
      ListTasksByJobID = BadgerStorage_ListTasksByJobID B,
      CreateJobOccurrence = BadgerStorage_CreateJobOccurrence B,
      GetJobOccurrence = BadgerStorage_GetJobOccurrence B,
      UpdateJobOccurrence = BadgerStorage_UpdateJobOccurrence B,
      DeleteJobOccurrence = BadgerStorage_DeleteJobOccurrence B,
      ListRunningOccurrences = BadgerStorage_ListRunningOccurrences B,
      ListStaleOccurrences = BadgerStorage_ListStaleOccurrences B,
      ListQueuedOccurrencesByJobID = BadgerStorage_ListQueuedOccurrencesByJobID B,
      ListPendingOccurrences = BadgerStorage_ListPendingOccurrences B,
      CreateTaskRun = BadgerStorage_CreateTaskRun B, GetTaskRun = BadgerStorage_GetTaskRun B,
      UpdateTaskRun = BadgerStorage_UpdateTaskRun B,
      DeleteTaskRun = BadgerStorage_DeleteTaskRun B,
      ListTaskRunsByOccurrenceID = BadgerStorage_ListTaskRunsByOccurrenceID B,
      CreateExecutionAttempt = BadgerStorage_CreateExecutionAttempt B,
      GetExecutionAttempt = BadgerStorage_GetExecutionAttempt B,
      UpdateExecutionAttempt = BadgerStorage_UpdateExecutionAttempt B,
      ListExecutionAttemptsByTaskRunID = BadgerStorage_ListExecutionAttemptsByTaskRunID B\<rparr>"

end
