(* ===== verification/BadgerFamilies.thy ===== *)
theory BadgerFamilies
  imports Badger
begin

text \<open>
  Towards the refinement of the storage contract by the BadgerDB implementation. The locale
  \<open>badger_db\<close> states what the database documents of the operations used, whether or not they fail;
  \<open>badger_db_reliable\<close> adds that they do not fail. The invariant says that every key of the database
  is one the key schema builds from admissible identifiers and holds the encoding of the matching
  record; the abstraction reads the five maps off the keys. The five kinds of records are instances
  of one locale, in which the transaction bodies of the methods are proved correct once.
\<close>

subsection \<open>The contract of the database\<close>

definition is_db_error :: "error \<Rightarrow> bool" where
  "is_db_error e \<longleftrightarrow> (\<exists>m. e = ErrDB m)"

locale badger_db =
  fixes B :: "'db badger"
    and contents :: "'db \<Rightarrow> string \<rightharpoonup> json"
  assumes Update_abort: "f s = Inl e \<Longrightarrow> db_Update B s f = (Some e, s)"
    and Update_commit: "f s = Inr t \<Longrightarrow>
      db_Update B s f = (None, t) \<or> (\<exists>e. is_db_error e \<and> db_Update B s f = (Some e, s))"
    and Get_found: "txn_Get B s k = None \<Longrightarrow> contents s k \<noteq> None"
    and Get_missing: "txn_Get B s k = Some ErrKeyNotFound \<Longrightarrow> contents s k = None"
    and Get_error: "txn_Get B s k = Some e \<Longrightarrow> e = ErrKeyNotFound \<or> is_db_error e"
    and Value_found: "item_Value B s k = Inr v \<Longrightarrow> contents s k = Some v"
    and Value_error: "item_Value B s k = Inl e \<Longrightarrow> is_db_error e"
    and Set_ok: "txn_Set B s k v = Inr t \<Longrightarrow> contents t = (contents s)(k \<mapsto> v)"
    and Set_error: "txn_Set B s k v = Inl e \<Longrightarrow> is_db_error e"
    and Delete_ok: "txn_Delete B s k = Inr t \<Longrightarrow> contents t = (contents s)(k := None)"
    and Delete_error: "txn_Delete B s k = Inl e \<Longrightarrow> is_db_error e"
    and Keys_sorted: "sorted (txn_Keys B s p)" and Keys_distinct: "distinct (txn_Keys B s p)"
    and Keys_set: "set (txn_Keys B s p) = {k. contents s k \<noteq> None \<and> prefix p k}"

locale badger_db_reliable = badger_db +
  assumes Update_total: "f s = Inr t \<Longrightarrow> db_Update B s f = (None, t)"
    and Get_total: "txn_Get B s k = (if contents s k = None then Some ErrKeyNotFound else None)"
    and Value_total: "contents s k = Some v \<Longrightarrow> item_Value B s k = Inr v"
    and Set_total: "\<exists>t. txn_Set B s k v = Inr t"
    and Delete_total: "\<exists>t. txn_Delete B s k = Inr t"

subsection \<open>Invariant and abstraction\<close>

definition record_key :: "string \<Rightarrow> json \<Rightarrow> bool" where
  "record_key k v \<longleftrightarrow>
     (\<exists>j. job_id_ok (sj_ID j) \<and> k = jobKey (sj_ID j) \<and> marshal_job j = Inr v) \<or>
     (\<exists>t. job_id_ok (st_JobID t) \<and> task_id_ok (st_ID t) \<and> k = taskKey (st_JobID t) (st_ID t)
        \<and> marshal_task t = Inr v) \<or>
     (\<exists>oc. job_id_ok (so_JobID oc) \<and> occ_id_ok (so_ID oc)
        \<and> k = occurrenceKey (so_JobID oc) (so_ID oc) \<and> marshal_occurrence oc = Inr v) \<or>
     (\<exists>r. slash_free (tr_ID r) \<and> k = simpleRunKey (tr_ID r) \<and> marshal_run r = Inr v) \<or>
     (\<exists>a. slash_free (ea_ID a) \<and> k = simpleAttemptKey (ea_ID a) \<and> marshal_attempt a = Inr v)"

definition keys_ok :: "(string \<rightharpoonup> json) \<Rightarrow> bool" where
  "keys_ok c \<longleftrightarrow> (\<forall>k v. c k = Some v \<longrightarrow> record_key k v)"

definition decode :: "(json \<Rightarrow> 'a result) \<Rightarrow> json option \<Rightarrow> 'a option" where
  "decode u v = (case v of None \<Rightarrow> None | Some d \<Rightarrow> (case u d of Inl e \<Rightarrow> None | Inr x \<Rightarrow> Some x))"

definition abs_of :: "(string \<rightharpoonup> json) \<Rightarrow> AStore" where
  "abs_of c =
     \<lparr>a_jobs = (\<lambda>i. if slash_free i then decode unmarshal_job (c (jobKey i)) else None),
      a_tasks = (\<lambda>(j, i). if slash_free j \<and> slash_free i
                   then decode unmarshal_task (c (taskKey j i)) else None),
      a_occs = (\<lambda>(j, i). if slash_free j \<and> slash_free i
                   then decode unmarshal_occurrence (c (occurrenceKey j i)) else None),
      a_runs = (\<lambda>i. if slash_free i then decode unmarshal_run (c (simpleRunKey i)) else None),
      a_attempts = (\<lambda>i. if slash_free i
                   then decode unmarshal_attempt (c (simpleAttemptKey i)) else None)\<rparr>"

subsection \<open>The keys do not clash\<close>

lemma slash_free_consts [simp]:
  "slash_free ''job''" "slash_free ''task''" "slash_free ''occurrence''" "slash_free ''taskrun''"
  "slash_free ''attempt''"
  by (simp_all add: slash_free_def)

lemma job_id_ok_slash_free: "job_id_ok i \<Longrightarrow> slash_free i"
  by (simp add: job_id_ok_def)

lemma task_id_ok_slash_free: "task_id_ok i \<Longrightarrow> slash_free i"
  by (simp add: task_id_ok_def)

lemma occ_id_ok_slash_free: "occ_id_ok i \<Longrightarrow> slash_free i"
  by (simp add: occ_id_ok_def)

lemmas id_ok_slash_free = job_id_ok_slash_free task_id_ok_slash_free occ_id_ok_slash_free

lemma keys_split:
  "slash_free i \<Longrightarrow> split_slash (jobKey i) = [''job'', i]"
  "slash_free j \<Longrightarrow> slash_free i \<Longrightarrow> split_slash (taskKey j i) = [''job'', j, ''task'', i]"
  "slash_free j \<Longrightarrow> slash_free i \<Longrightarrow>
     split_slash (occurrenceKey j i) = [''job'', j, ''occurrence'', i]"
  "slash_free i \<Longrightarrow> split_slash (simpleRunKey i) = [''taskrun'', i]"
  "slash_free i \<Longrightarrow> split_slash (simpleAttemptKey i) = [''attempt'', i]"
proof -
  have split: "split_slash (join_slash xs) = xs" if "list_all slash_free xs" "xs \<noteq> []" for xs
    using that by (simp add: split_join_slash list_all_iff)
  show "slash_free i \<Longrightarrow> split_slash (jobKey i) = [''job'', i]"
    using split [of "[''job'', i]"] by (simp add: jobKey_def)
  show "slash_free j \<Longrightarrow> slash_free i \<Longrightarrow> split_slash (taskKey j i) = [''job'', j, ''task'', i]"
    using split [of "[''job'', j, ''task'', i]"] by (simp add: taskKey_def)
  show "slash_free j \<Longrightarrow> slash_free i \<Longrightarrow>
     split_slash (occurrenceKey j i) = [''job'', j, ''occurrence'', i]"
    using split [of "[''job'', j, ''occurrence'', i]"] by (simp add: occurrenceKey_def)
  show "slash_free i \<Longrightarrow> split_slash (simpleRunKey i) = [''taskrun'', i]"
    using split [of "[''taskrun'', i]"] by (simp add: simpleRunKey_def)
  show "slash_free i \<Longrightarrow> split_slash (simpleAttemptKey i) = [''attempt'', i]"
    using split [of "[''attempt'', i]"] by (simp add: simpleAttemptKey_def)
qed

text \<open>Keys of slash-free identifiers are equal only if they are built the same way.\<close>

lemma keys_inject:
  "jobKey i = jobKey i' \<longleftrightarrow> i = i'"
  "simpleRunKey i = simpleRunKey i' \<longleftrightarrow> i = i'"
  "simpleAttemptKey i = simpleAttemptKey i' \<longleftrightarrow> i = i'"
  by (simp_all add: jobKey_def simpleRunKey_def simpleAttemptKey_def)

lemma pair_keys_inject:
  assumes "slash_free j" "slash_free i" "slash_free j'" "slash_free i'"
  shows "taskKey j i = taskKey j' i' \<longleftrightarrow> j = j' \<and> i = i'"
    "occurrenceKey j i = occurrenceKey j' i' \<longleftrightarrow> j = j' \<and> i = i'"
proof -
  note s = keys_split(2,3) [OF assms(1,2)] and s' = keys_split(2,3) [OF assms(3,4)]
  have four: "[a, j, b, i] = [a, j', b, i'] \<longleftrightarrow> j = j' \<and> i = i'" for a b :: string by simp
  have "taskKey j i = taskKey j' i' \<longleftrightarrow> split_slash (taskKey j i) = split_slash (taskKey j' i')"
    by (rule split_slash_inject [symmetric])
  then show "taskKey j i = taskKey j' i' \<longleftrightarrow> j = j' \<and> i = i'" unfolding s s' four .
  have "occurrenceKey j i = occurrenceKey j' i' \<longleftrightarrow>
      split_slash (occurrenceKey j i) = split_slash (occurrenceKey j' i')"
    by (rule split_slash_inject [symmetric])
  then show "occurrenceKey j i = occurrenceKey j' i' \<longleftrightarrow> j = j' \<and> i = i'" unfolding s s' four .
qed

lemma split_neqI: "split_slash a \<noteq> split_slash b \<Longrightarrow> a \<noteq> b"
  by auto

lemma keys_distinct:
  assumes "slash_free i" "slash_free i'" "slash_free j" "slash_free j'"
  shows "jobKey i \<noteq> taskKey j' i'" "jobKey i \<noteq> occurrenceKey j' i'" "jobKey i \<noteq> simpleRunKey i'"
    "jobKey i \<noteq> simpleAttemptKey i'" "taskKey j i \<noteq> occurrenceKey j' i'"
    "taskKey j i \<noteq> simpleRunKey i'" "taskKey j i \<noteq> simpleAttemptKey i'"
    "occurrenceKey j i \<noteq> simpleRunKey i'" "occurrenceKey j i \<noteq> simpleAttemptKey i'"
    "simpleRunKey i \<noteq> simpleAttemptKey i'"
  by (rule split_neqI, simp add: keys_split assms)+

lemmas keys_distinct_sym = keys_distinct [symmetric]
lemmas key_facts = keys_inject pair_keys_inject keys_distinct keys_distinct_sym
  id_ok_slash_free

subsection \<open>The five record families\<close>

text \<open>
  What the five kinds of records have in common: their map in the abstract store (\<open>get\<close>, \<open>put\<close>),
  their encoding, the key of a record, and the database key of it. The lemmas on the methods are
  proved once for any such family.
\<close>

locale record_family =
  fixes get :: "AStore \<Rightarrow> 'k \<rightharpoonup> 'v"
    and put :: "('k \<rightharpoonup> 'v) \<Rightarrow> AStore \<Rightarrow> AStore"
    and enc :: "'v \<Rightarrow> json result"
    and dec :: "json \<Rightarrow> 'v result"
    and keyof :: "'v \<Rightarrow> 'k"
    and mk :: "'k \<Rightarrow> string"
    and ok :: "'k \<Rightarrow> bool"
  assumes get_put: "get (put m a) = m"
    and put_get: "put (get a) a = a"
    and mk_inject: "ok k \<Longrightarrow> ok k' \<Longrightarrow> mk k = mk k' \<Longrightarrow> k = k'"
    and abs_upd: "ok k \<Longrightarrow> abs_of (c(mk k := x)) = put ((get (abs_of c))(k := decode dec x)) (abs_of c)"
    and dec_enc: "enc v = Inr d \<Longrightarrow> dec d = Inr v"
    and enc_record: "ok (keyof v) \<Longrightarrow> enc v = Inr d \<Longrightarrow> record_key (mk (keyof v)) d"
    and look: "keys_ok c \<Longrightarrow> ok k \<Longrightarrow> c (mk k) = Some d \<Longrightarrow> \<exists>v. keyof v = k \<and> enc v = Inr d"
    and get_dom: "keys_ok c \<Longrightarrow> get (abs_of c) k = Some v \<Longrightarrow> ok k"
begin

lemma get_decode: "ok k \<Longrightarrow> get (abs_of c) k = decode dec (c (mk k))"
proof -
  assume "ok k"
  then have "abs_of c = put ((get (abs_of c))(k := decode dec (c (mk k)))) (abs_of c)"
    using abs_upd [of k c "c (mk k)"] by simp
  then have "get (abs_of c) = (get (abs_of c))(k := decode dec (c (mk k)))" by (metis get_put)
  then show ?thesis by (metis fun_upd_same)
qed

lemma get_None: "keys_ok c \<Longrightarrow> ok k \<Longrightarrow> get (abs_of c) k = None \<longleftrightarrow> c (mk k) = None"
  using look [of c k] by (auto simp: get_decode decode_def dec_enc split: option.splits sum.splits)

lemma get_Some:
  "keys_ok c \<Longrightarrow> get (abs_of c) k = Some v \<longleftrightarrow>
     ok k \<and> keyof v = k \<and> (\<exists>d. c (mk k) = Some d \<and> enc v = Inr d)"
proof
  assume c: "keys_ok c" and g: "get (abs_of c) k = Some v"
  then have k: "ok k" by (rule get_dom)
  with g obtain d where d: "c (mk k) = Some d" "dec d = Inr v"
    by (auto simp: get_decode decode_def split: option.splits sum.splits)
  from look [OF c k d(1)] obtain w where "keyof w = k" "enc w = Inr d" by blast
  with d dec_enc [of w d] k show "ok k \<and> keyof v = k \<and> (\<exists>d. c (mk k) = Some d \<and> enc v = Inr d)"
    by auto
qed (auto simp: get_decode decode_def dec_enc)

lemma keys_ok_set:
  "keys_ok c \<Longrightarrow> ok (keyof v) \<Longrightarrow> enc v = Inr d \<Longrightarrow> keys_ok (c(mk (keyof v) \<mapsto> d))"
  using enc_record by (auto simp: keys_ok_def)

lemma abs_set:
  "ok (keyof v) \<Longrightarrow> enc v = Inr d \<Longrightarrow>
     abs_of (c(mk (keyof v) \<mapsto> d)) = put ((get (abs_of c))(keyof v \<mapsto> v)) (abs_of c)"
  by (simp add: abs_upd decode_def dec_enc)

lemma abs_del: "ok k \<Longrightarrow> abs_of (c(mk k := None)) = put ((get (abs_of c))(k := None)) (abs_of c)"
  by (simp add: abs_upd decode_def)

end

lemma keys_ok_delete: "keys_ok c \<Longrightarrow> keys_ok (c(k := None))"
  by (auto simp: keys_ok_def)

lemma record_split:
  assumes "record_key k v"
  obtains (job) j where "job_id_ok (sj_ID j)" "k = jobKey (sj_ID j)" "marshal_job j = Inr v"
      "split_slash k = [''job'', sj_ID j]"
  | (task) t where "job_id_ok (st_JobID t)" "task_id_ok (st_ID t)"
      "k = taskKey (st_JobID t) (st_ID t)" "marshal_task t = Inr v"
      "split_slash k = [''job'', st_JobID t, ''task'', st_ID t]"
  | (occurrence) oc where "job_id_ok (so_JobID oc)" "occ_id_ok (so_ID oc)"
      "k = occurrenceKey (so_JobID oc) (so_ID oc)" "marshal_occurrence oc = Inr v"
      "split_slash k = [''job'', so_JobID oc, ''occurrence'', so_ID oc]"
  | (run) r where "slash_free (tr_ID r)" "k = simpleRunKey (tr_ID r)" "marshal_run r = Inr v"
      "split_slash k = [''taskrun'', tr_ID r]"
  | (attempt) a where "slash_free (ea_ID a)" "k = simpleAttemptKey (ea_ID a)"
      "marshal_attempt a = Inr v" "split_slash k = [''attempt'', ea_ID a]"
  using assms unfolding record_key_def
  by (elim disjE exE conjE) (auto simp: keys_split id_ok_slash_free)

subsection \<open>The families of this schema\<close>

lemma abs_of_upd:
  "slash_free i \<Longrightarrow> abs_of (c(jobKey i := x)) =
     (abs_of c)\<lparr>a_jobs := (a_jobs (abs_of c))(i := decode unmarshal_job x)\<rparr>"
  "slash_free j \<Longrightarrow> slash_free i \<Longrightarrow> abs_of (c(taskKey j i := x)) =
     (abs_of c)\<lparr>a_tasks := (a_tasks (abs_of c))((j, i) := decode unmarshal_task x)\<rparr>"
  "slash_free j \<Longrightarrow> slash_free i \<Longrightarrow> abs_of (c(occurrenceKey j i := x)) =
     (abs_of c)\<lparr>a_occs := (a_occs (abs_of c))((j, i) := decode unmarshal_occurrence x)\<rparr>"
  "slash_free i \<Longrightarrow> abs_of (c(simpleRunKey i := x)) =
     (abs_of c)\<lparr>a_runs := (a_runs (abs_of c))(i := decode unmarshal_run x)\<rparr>"
  "slash_free i \<Longrightarrow> abs_of (c(simpleAttemptKey i := x)) =
     (abs_of c)\<lparr>a_attempts := (a_attempts (abs_of c))(i := decode unmarshal_attempt x)\<rparr>"
  unfolding abs_of_def by (auto simp: fun_eq_iff key_facts)

lemma keys_ok_look:
  "keys_ok c \<Longrightarrow> slash_free i \<Longrightarrow> c (jobKey i) = Some d \<Longrightarrow>
     \<exists>v. sj_ID v = i \<and> job_id_ok i \<and> marshal_job v = Inr d"
  "keys_ok c \<Longrightarrow> slash_free j \<Longrightarrow> slash_free i \<Longrightarrow> c (taskKey j i) = Some d \<Longrightarrow>
     \<exists>v. st_JobID v = j \<and> st_ID v = i \<and> job_id_ok j \<and> task_id_ok i \<and> marshal_task v = Inr d"
  "keys_ok c \<Longrightarrow> slash_free j \<Longrightarrow> slash_free i \<Longrightarrow> c (occurrenceKey j i) = Some d \<Longrightarrow>
     \<exists>v. so_JobID v = j \<and> so_ID v = i \<and> job_id_ok j \<and> occ_id_ok i \<and> marshal_occurrence v = Inr d"
  "keys_ok c \<Longrightarrow> slash_free i \<Longrightarrow> c (simpleRunKey i) = Some d \<Longrightarrow>
     \<exists>v. tr_ID v = i \<and> marshal_run v = Inr d"
  "keys_ok c \<Longrightarrow> slash_free i \<Longrightarrow> c (simpleAttemptKey i) = Some d \<Longrightarrow>
     \<exists>v. ea_ID v = i \<and> marshal_attempt v = Inr d"
  unfolding keys_ok_def record_key_def by (force simp: key_facts)+

lemma abs_of_Some:
  "keys_ok c \<Longrightarrow> a_jobs (abs_of c) i = Some v \<Longrightarrow> job_id_ok i"
  "keys_ok c \<Longrightarrow> a_tasks (abs_of c) (j, i) = Some t \<Longrightarrow> job_id_ok j \<and> task_id_ok i"
  "keys_ok c \<Longrightarrow> a_occs (abs_of c) (j, i) = Some oc \<Longrightarrow> job_id_ok j \<and> occ_id_ok i"
  "keys_ok c \<Longrightarrow> a_runs (abs_of c) i = Some r \<Longrightarrow> slash_free i"
  "keys_ok c \<Longrightarrow> a_attempts (abs_of c) i = Some a \<Longrightarrow> slash_free i"
  using keys_ok_look(1) [of c i] keys_ok_look(2,3) [of c j i]
  by (auto simp: abs_of_def decode_def split: if_splits option.splits)

interpretation job_fam: record_family a_jobs "\<lambda>m a. a\<lparr>a_jobs := m\<rparr>" marshal_job unmarshal_job
  "sj_ID" "jobKey" "job_id_ok"
proof (unfold_locales, goal_cases)
  case (4 k c x)
  then show ?case by (auto simp: abs_of_upd id_ok_slash_free)
next
  case (7 c k d)
  then show ?case using keys_ok_look(1) [of c k d] by (auto simp: id_ok_slash_free)
qed (auto simp: key_facts record_key_def dest: job_roundtrip abs_of_Some(1))

interpretation task_fam: record_family a_tasks "\<lambda>m a. a\<lparr>a_tasks := m\<rparr>" marshal_task unmarshal_task
  "\<lambda>t. (st_JobID t, st_ID t)" "\<lambda>(j, i). taskKey j i" "\<lambda>(j, i). job_id_ok j \<and> task_id_ok i"
proof (unfold_locales, goal_cases)
  case (4 k c x)
  then show ?case by (auto simp: abs_of_upd id_ok_slash_free)
next
  case (7 c k d)
  then show ?case
    using keys_ok_look(2) [of c "fst k" "snd k" d] by (auto simp: split_beta prod_eq_iff id_ok_slash_free)
qed (auto simp: key_facts record_key_def dest: task_roundtrip abs_of_Some(2))

interpretation occ_fam: record_family a_occs "\<lambda>m a. a\<lparr>a_occs := m\<rparr>" marshal_occurrence unmarshal_occurrence
  "\<lambda>t. (so_JobID t, so_ID t)" "\<lambda>(j, i). occurrenceKey j i" "\<lambda>(j, i). job_id_ok j \<and> occ_id_ok i"
proof (unfold_locales, goal_cases)
  case (4 k c x)
  then show ?case by (auto simp: abs_of_upd id_ok_slash_free)
next
  case (7 c k d)
  then show ?case
    using keys_ok_look(3) [of c "fst k" "snd k" d] by (auto simp: split_beta prod_eq_iff id_ok_slash_free)
qed (auto simp: key_facts record_key_def dest: occurrence_roundtrip abs_of_Some(3))

interpretation run_fam: record_family a_runs "\<lambda>m a. a\<lparr>a_runs := m\<rparr>" marshal_run unmarshal_run
  "tr_ID" "simpleRunKey" "slash_free"
proof (unfold_locales, goal_cases)
  case (4 k c x)
  then show ?case by (auto simp: abs_of_upd id_ok_slash_free)
next
  case (7 c k d)
  then show ?case by (auto dest: keys_ok_look(4) simp: id_ok_slash_free)
qed (auto simp: key_facts record_key_def dest: run_roundtrip abs_of_Some(4))

interpretation attempt_fam: record_family a_attempts "\<lambda>m a. a\<lparr>a_attempts := m\<rparr>" marshal_attempt unmarshal_attempt
  "ea_ID" "simpleAttemptKey" "slash_free"
proof (unfold_locales, goal_cases)
  case (4 k c x)
  then show ?case by (auto simp: abs_of_upd id_ok_slash_free)
next
  case (7 c k d)
  then show ?case by (auto dest: keys_ok_look(5) simp: id_ok_slash_free)
qed (auto simp: key_facts record_key_def dest: attempt_roundtrip abs_of_Some(5))

subsection \<open>The methods on any family\<close>

text \<open>An error the application makes itself, not the database.\<close>

definition app_error :: "error \<Rightarrow> bool" where
  "app_error e \<longleftrightarrow> \<not> is_db_error e \<and> e \<noteq> ErrKeyNotFound \<and> e \<noteq> ErrUnmarshal \<and> (\<forall>w f. e \<noteq> ErrWrap w f)"

lemma app_errors [simp]:
  "app_error (ErrJobExists i)" "app_error (ErrJobNotFound i)" "app_error (ErrTaskExists i)"
  "app_error (ErrTaskNotFound i)" "app_error (ErrOccurrenceExists i)"
  "app_error (ErrOccurrenceNotFound i)" "app_error (ErrTaskRunExists i)"
  "app_error (ErrTaskRunNotFound i)" "app_error (ErrAttemptExists i)"
  "app_error (ErrAttemptNotFound i)"
  by (simp_all add: app_error_def is_db_error_def)

context badger_db
begin

lemma Update_cases:
  assumes "db_Update B s f = (r, s')"
  obtains (abort) e where "f s = Inl e" "r = Some e" "s' = s"
  | (commit) t where "f s = Inr t" "r = None" "s' = t"
  | (failed) t e where "f s = Inr t" "r = Some e" "s' = s" "is_db_error e"
proof (cases "f s")
  case (Inl e)
  then show ?thesis using Update_abort [of f s e] assms abort by auto
next
  case (Inr t)
  then show ?thesis using Update_commit [of f s t] assms commit failed by auto
qed

lemma createTxn_cases:
  assumes "createTxn B ex what key m s = x"
  obtains (exists) "x = Inl ex" "contents s key \<noteq> None"
  | (error) e where "x = Inl e" "is_db_error e \<or> (\<exists>f. e = ErrWrap what f)"
  | (ok) d t where "x = Inr t" "m = Inr d" "contents s key = None" "contents t = (contents s)(key \<mapsto> d)"
  using assms Get_found [of s key] Get_missing [of s key] Get_error [of s key] Set_error [of s key]
    Set_ok [of s key]
  unfolding createTxn_def
  by (cases "txn_Set B s key (projr m)") (auto split: option.splits if_splits sum.splits)

lemma updateTxn_cases:
  assumes "updateTxn B ms what key m s = x"
  obtains (missing) "x = Inl ms" "contents s key = None"
  | (error) e where "x = Inl e" "is_db_error e \<or> (\<exists>f. e = ErrWrap what f)"
  | (ok) d t where "x = Inr t" "m = Inr d" "contents s key \<noteq> None" "contents t = (contents s)(key \<mapsto> d)"
  using assms Get_found [of s key] Get_missing [of s key] Get_error [of s key] Set_error [of s key]
    Set_ok [of s key]
  unfolding updateTxn_def
  by (cases "txn_Set B s key (projr m)") (auto split: option.splits if_splits sum.splits)

end

locale badger_family = badger_db B contents + record_family get put enc dec keyof mk ok
  for B :: "'db badger" and contents :: "'db \<Rightarrow> string \<rightharpoonup> json"
    and get :: "AStore \<Rightarrow> 'k \<rightharpoonup> 'v" and put :: "('k \<rightharpoonup> 'v) \<Rightarrow> AStore \<Rightarrow> AStore"
    and enc :: "'v \<Rightarrow> json result" and dec :: "json \<Rightarrow> 'v result"
    and keyof :: "'v \<Rightarrow> 'k" and mk :: "'k \<Rightarrow> string" and ok :: "'k \<Rightarrow> bool"
begin

lemma family_create:
  assumes inv: "keys_ok (contents s)" and k: "ok (keyof v)" "mk (keyof v) = key" and ex: "app_error ex"
    and run: "db_Update B s (createTxn B ex what key (enc v)) = (r, s')"
  shows "keys_ok (contents s') \<and> abs_of (contents s') = put (get (abs_of (contents s'))) (abs_of (contents s))
    \<and> create_spec (get (abs_of (contents s))) (keyof v) v ex r (get (abs_of (contents s')))"
  using run
proof (cases rule: Update_cases)
  case (abort e)
  then show ?thesis using inv ex get_None [OF inv k(1)] unfolding k(2)
    by (auto elim!: createTxn_cases simp: create_spec_def put_get app_error_def)
next
  case (commit t)
  then obtain d where d: "enc v = Inr d" "contents s key = None" "contents s' = (contents s)(key \<mapsto> d)"
    by (auto elim: createTxn_cases)
  have "get (abs_of (contents s)) (keyof v) = None"
    using get_None [OF inv k(1)] d(2) unfolding k(2) by simp
  then show ?thesis
    using commit(2) keys_ok_set [OF inv k(1) d(1)] abs_set [OF k(1) d(1)] unfolding d(3) k(2)
    by (simp add: create_spec_def get_put)
next
  case (failed t e)
  then show ?thesis using inv ex by (auto simp: create_spec_def put_get app_error_def)
qed

lemma family_update:
  assumes inv: "keys_ok (contents s)" and k: "ok (keyof v)" "mk (keyof v) = key" and ms: "app_error ms"
    and run: "db_Update B s (updateTxn B ms what key (enc v)) = (r, s')"
  shows "keys_ok (contents s') \<and> abs_of (contents s') = put (get (abs_of (contents s'))) (abs_of (contents s))
    \<and> update_spec (get (abs_of (contents s))) (keyof v) v ms r (get (abs_of (contents s')))"
  using run
proof (cases rule: Update_cases)
  case (abort e)
  then show ?thesis using inv ms get_None [OF inv k(1)] unfolding k(2)
    by (auto elim!: updateTxn_cases simp: update_spec_def put_get app_error_def)
next
  case (commit t)
  then obtain d where d: "enc v = Inr d" "contents s key \<noteq> None" "contents s' = (contents s)(key \<mapsto> d)"
    by (auto elim: updateTxn_cases)
  have "get (abs_of (contents s)) (keyof v) \<noteq> None"
    using get_None [OF inv k(1)] d(2) unfolding k(2) by simp
  then show ?thesis
    using commit(2) keys_ok_set [OF inv k(1) d(1)] abs_set [OF k(1) d(1)] unfolding d(3) k(2)
    by (simp add: update_spec_def get_put)
next
  case (failed t e)
  then show ?thesis using inv ms by (auto simp: update_spec_def put_get app_error_def)
qed

lemma family_delete:
  assumes inv: "keys_ok (contents s)" and k: "ok k" "mk k = key"
    and run: "db_Update B s (\<lambda>txn. txn_Delete B txn key) = (r, s')"
  shows "keys_ok (contents s') \<and> abs_of (contents s') = put (get (abs_of (contents s'))) (abs_of (contents s))
    \<and> delete_spec (get (abs_of (contents s))) k r (get (abs_of (contents s')))"
  using run
proof (cases rule: Update_cases)
  case (commit t)
  then have "contents s' = (contents s)(key := None)" using Delete_ok by simp
  then show ?thesis
    using commit(2) keys_ok_delete [OF inv] abs_del [OF k(1)] unfolding k(2)
    by (simp add: delete_spec_def get_put)
qed (simp_all add: delete_spec_def put_get inv)

lemma family_get:
  assumes inv: "keys_ok (contents s)" and k: "ok k" "mk k = key" and ms: "app_error ms"
    and dec_app: "\<And>d e. dec d = Inl e \<Longrightarrow> e = ErrUnmarshal"
  shows "get_spec (get (abs_of (contents s))) k ms (viewGet B ms key dec s)"
proof (cases "txn_Get B s key")
  case None
  show ?thesis
  proof (cases "item_Value B s key")
    case (Inl e)
    then show ?thesis using None ms Value_error [OF Inl]
      by (auto simp: viewGet_def get_spec_def app_error_def is_db_error_def)
  next
    case (Inr d)
    with Value_found have d: "contents s key = Some d" by simp
    with look [OF inv k(1)] k(2) obtain v where "keyof v = k" "enc v = Inr d" by auto
    then show ?thesis using None Inr d k
      by (simp add: viewGet_def get_spec_def get_decode decode_def dec_enc)
  qed
next
  case (Some e)
  with Get_error [OF Some] Get_missing [of s key] show ?thesis
    using ms get_None [OF inv k(1)] unfolding k(2)
    by (auto simp: viewGet_def get_spec_def app_error_def is_db_error_def)
qed

end

end
