(* ===== verification/BadgerRefinement.thy ===== *)
theory BadgerRefinement
  imports BadgerFamilies
begin

text \<open>
  The BadgerDB implementation meets the storage contract: listings and searches on any record
  family, then the two sublocale statements, which are the refinement theorems, and an in-memory
  ordered store on which the contract of the database is shown to be satisfiable.
\<close>

subsection \<open>Decoding errors\<close>

lemma as_error:
  "as_string v = Inl e \<Longrightarrow> e = ErrUnmarshal" "as_int v = Inl e \<Longrightarrow> e = ErrUnmarshal"
  "as_bool v = Inl e \<Longrightarrow> e = ErrUnmarshal" "as_bytes v = Inl e \<Longrightarrow> e = ErrUnmarshal"
  "as_time v = Inl e \<Longrightarrow> e = ErrUnmarshal" "as_time_ptr v = Inl e \<Longrightarrow> e = ErrUnmarshal"
  by (cases v; simp)+

lemma field_error:
  assumes "field v n conv k = Inl e" and "\<And>x. conv x = Inl e \<Longrightarrow> e = ErrUnmarshal"
    and "\<And>x. k x = Inl e \<Longrightarrow> e = ErrUnmarshal"
  shows "e = ErrUnmarshal"
  using assms by (cases v) (auto simp: field_def bindE_Inl_iff)

lemma unmarshal_error:
  "unmarshal_job v = Inl e \<Longrightarrow> e = ErrUnmarshal"
  "unmarshal_task v = Inl e \<Longrightarrow> e = ErrUnmarshal"
  "unmarshal_occurrence v = Inl e \<Longrightarrow> e = ErrUnmarshal"
  "unmarshal_run v = Inl e \<Longrightarrow> e = ErrUnmarshal"
  "unmarshal_attempt v = Inl e \<Longrightarrow> e = ErrUnmarshal"
  unfolding unmarshal_job_def unmarshal_task_def unmarshal_occurrence_def unmarshal_run_def
    unmarshal_attempt_def
  by ((erule field_error, erule as_error)+, simp)+

subsection \<open>Iteration\<close>

context badger_family
begin

lemma collect_set:
  assumes "collect B s P dec Q ks = Inr vs" and "distinct ks"
    and "\<And>key d v. key \<in> set ks \<Longrightarrow> P key \<Longrightarrow> contents s key = Some d \<Longrightarrow> dec d = Inr v \<Longrightarrow> mk (keyof v) = key"
  shows "distinct vs \<and>
    set vs = {v. Q v \<and> (\<exists>key \<in> set ks. P key \<and> (\<exists>d. contents s key = Some d \<and> dec d = Inr v))}"
  using assms
proof (induction ks arbitrary: vs)
  case Nil
  then show ?case by simp
next
  case (Cons key ks)
  show ?case
  proof (cases "P key")
    case False
    with Cons show ?thesis by auto
  next
    case True
    with Cons.prems(1) obtain d v ws where d: "item_Value B s key = Inr d" "dec d = Inr v"
      "collect B s P dec Q ks = Inr ws" "vs = (if Q v then v # ws else ws)"
      by (auto simp: bindE_Inr_iff split: if_splits)
    have c: "contents s key = Some d" using d(1) by (rule Value_found)
    have IH: "distinct ws \<and>
      set ws = {v. Q v \<and> (\<exists>key \<in> set ks. P key \<and> (\<exists>d. contents s key = Some d \<and> dec d = Inr v))}"
      using Cons.prems by (intro Cons.IH [OF d(3)]) auto
    have "mk (keyof v) = key" using Cons.prems(3) True c d(2) by simp
    moreover have "mk (keyof w) \<noteq> key" if w: "w \<in> set ws" for w
    proof -
      from IH w obtain key' d' where k: "key' \<in> set ks" "P key'" "contents s key' = Some d'"
        "dec d' = Inr w" by blast
      then have "mk (keyof w) = key'" by (intro Cons.prems(3)) auto
      with k(1) Cons.prems(2) show ?thesis by auto
    qed
    ultimately have "v \<notin> set ws" by blast
    with IH True c d(2,4) show ?thesis by auto
  qed
qed

lemma family_list:
  assumes inv: "keys_ok (contents s)"
    and sel: "\<And>key. contents s key \<noteq> None \<Longrightarrow>
      prefix p key \<and> P key \<longleftrightarrow> (\<exists>k. ok k \<and> key = mk k \<and> R k)"
  shows "list_spec (get (abs_of (contents s))) (\<lambda>v. R (keyof v) \<and> Q v)
    (collect B s P dec Q (txn_Keys B s p))"
proof (cases "collect B s P dec Q (txn_Keys B s p)")
  case (Inr vs)
  have found: "ok (keyof v) \<and> R (keyof v) \<and> key = mk (keyof v) \<and> enc v = Inr d"
    if "key \<in> set (txn_Keys B s p)" "P key" "contents s key = Some d" "dec d = Inr v" for key d v
  proof -
    from that(1,2) sel [of key] that(3) obtain k where k: "ok k" "key = mk k" "R k"
      by (auto simp: Keys_set)
    from look [OF inv k(1)] that(3) k(2) obtain w where "keyof w = k" "enc w = Inr d" by auto
    with that(4) dec_enc [of w d] k show ?thesis by auto
  qed
  have "distinct vs \<and> set vs = {v. Q v \<and> (\<exists>key \<in> set (txn_Keys B s p). P key \<and>
      (\<exists>d. contents s key = Some d \<and> dec d = Inr v))}"
    using found by (intro collect_set [OF Inr Keys_distinct]) blast
  moreover have "(\<exists>key \<in> set (txn_Keys B s p). P key \<and> (\<exists>d. contents s key = Some d \<and> dec d = Inr v))
      \<longleftrightarrow> R (keyof v) \<and> v \<in> ran (get (abs_of (contents s)))" for v
  proof
    assume "\<exists>key \<in> set (txn_Keys B s p). P key \<and> (\<exists>d. contents s key = Some d \<and> dec d = Inr v)"
    then obtain key d where kd: "key \<in> set (txn_Keys B s p)" "P key" "contents s key = Some d"
      "dec d = Inr v" by blast
    from found [OF kd] kd(3) have "get (abs_of (contents s)) (keyof v) = Some v"
      by (auto simp: get_Some [OF inv])
    with found [OF kd] show "R (keyof v) \<and> v \<in> ran (get (abs_of (contents s)))"
      by (auto intro: ranI)
  next
    assume "R (keyof v) \<and> v \<in> ran (get (abs_of (contents s)))"
    then obtain d where d: "ok (keyof v)" "R (keyof v)" "contents s (mk (keyof v)) = Some d"
      "enc v = Inr d" by (auto simp: ran_def get_Some [OF inv])
    then have "prefix p (mk (keyof v)) \<and> P (mk (keyof v))" using sel [of "mk (keyof v)"] by auto
    with d dec_enc [OF d(4)]
    show "\<exists>key \<in> set (txn_Keys B s p). P key \<and> (\<exists>d. contents s key = Some d \<and> dec d = Inr v)"
      by (auto simp: Keys_set intro!: bexI [of _ "mk (keyof v)"])
  qed
  ultimately show ?thesis using Inr by (auto simp: list_spec_def)
qed (simp add: list_spec_def)

lemma findFirst_Inl:
  assumes "findFirst B s P dec ks = Inl e" and "\<And>d e. dec d = Inl e \<Longrightarrow> e = ErrUnmarshal"
  shows "is_db_error e \<or> e = ErrUnmarshal"
  using assms Value_error [of s]
  by (induction ks) (auto simp: bindE_Inl_iff bindE_Inr_iff split: if_splits)

lemma findFirst_None: "findFirst B s P dec ks = Inr None \<Longrightarrow> key \<in> set ks \<Longrightarrow> \<not> P key"
  by (induction ks) (auto simp: bindE_Inr_iff split: if_splits)

lemma findFirst_Some:
  "findFirst B s P dec ks = Inr (Some v) \<Longrightarrow>
     \<exists>key d. key \<in> set ks \<and> P key \<and> contents s key = Some d \<and> dec d = Inr v"
proof (induction ks)
  case (Cons key ks)
  then show ?case using Value_found [of s key] by (cases "P key") (auto simp: bindE_Inr_iff)
qed simp

lemma family_find:
  assumes inv: "keys_ok (contents s)"
    and sel: "\<And>key. contents s key \<noteq> None \<Longrightarrow>
      prefix p key \<and> P key \<longleftrightarrow> (\<exists>k. ok k \<and> key = mk k \<and> R k)"
    and dec_app: "\<And>d e. dec d = Inl e \<Longrightarrow> e = ErrUnmarshal"
  obtains (error) e where "findFirst B s P dec (txn_Keys B s p) = Inl e" "is_db_error e \<or> e = ErrUnmarshal"
  | (none) "findFirst B s P dec (txn_Keys B s p) = Inr None"
      "\<And>k. R k \<Longrightarrow> get (abs_of (contents s)) k = None"
  | (found) v where "findFirst B s P dec (txn_Keys B s p) = Inr (Some v)"
      "ok (keyof v)" "R (keyof v)" "get (abs_of (contents s)) (keyof v) = Some v"
proof (cases "findFirst B s P dec (txn_Keys B s p)")
  case (Inl e)
  then show thesis using findFirst_Inl [OF Inl dec_app] by (rule error)
next
  case (Inr r)
  show thesis
  proof (cases r)
    case None
    have "get (abs_of (contents s)) k = None" if "R k" for k
    proof (rule ccontr)
      assume "get (abs_of (contents s)) k \<noteq> None"
      then obtain v d where "ok k" "contents s (mk k) = Some d" by (auto simp: get_Some [OF inv])
      with sel [of "mk k"] that have "mk k \<in> set (txn_Keys B s p) \<and> P (mk k)"
        by (auto simp: Keys_set)
      with findFirst_None [of s P "txn_Keys B s p" "mk k"] Inr None show False by blast
    qed
    with Inr None show thesis by (intro none) auto
  next
    case (Some v)
    with Inr findFirst_Some [of s P "txn_Keys B s p" v] obtain key d
      where k: "key \<in> set (txn_Keys B s p)" "P key" and d: "contents s key = Some d" "dec d = Inr v"
      by auto
    from sel [of key] k d obtain k' where k': "ok k'" "key = mk k'" "R k'" by (auto simp: Keys_set)
    from look [OF inv k'(1)] d(1) k'(2) obtain w where "keyof w = k'" "enc w = Inr d" by auto
    with d(2) dec_enc [of w d] have "keyof v = k'" "enc v = Inr d" by auto
    with Inr Some k' d show thesis by (intro found) (auto simp: get_Some [OF inv])
  qed
qed

end

subsection \<open>The keys the searches select\<close>

lemma interior_component:
  "(\<exists>us vs. us \<noteq> [] \<and> vs \<noteq> [] \<and> xs = us @ x # vs) \<longleftrightarrow> x \<in> set (butlast (tl xs))"
proof
  assume "\<exists>us vs. us \<noteq> [] \<and> vs \<noteq> [] \<and> xs = us @ x # vs"
  then obtain us vs where "us \<noteq> []" "vs \<noteq> []" "xs = us @ x # vs" by blast
  then show "x \<in> set (butlast (tl xs))" by (auto simp: tl_append butlast_append split: list.splits)
next
  assume x: "x \<in> set (butlast (tl xs))"
  then obtain as bs where "butlast (tl xs) = as @ x # bs" by (auto dest: split_list)
  moreover have "tl xs \<noteq> []" "xs \<noteq> []" using x by auto
  ultimately have "xs = (hd xs # as) @ x # (bs @ [last (tl xs)])"
    using append_butlast_last_id [of "tl xs"] by (cases xs) auto
  then show "\<exists>us vs. us \<noteq> [] \<and> vs \<noteq> [] \<and> xs = us @ x # vs" by blast
qed

lemma Contains_words:
  "Contains s ''/task/'' \<longleftrightarrow> ''task'' \<in> set (butlast (tl (split_slash s)))"
  "Contains s ''/occurrence/'' \<longleftrightarrow> ''occurrence'' \<in> set (butlast (tl (split_slash s)))"
  using Contains_component [of "''task''" s] Contains_component [of "''occurrence''" s]
  unfolding interior_component by (simp_all only: slash_free_consts append.simps simp_thms)

lemma prefix_words:
  "prefix ''job/'' s \<longleftrightarrow> (\<exists>vs. vs \<noteq> [] \<and> split_slash s = ''job'' # vs)"
  "prefix ''taskrun/'' s \<longleftrightarrow> (\<exists>vs. vs \<noteq> [] \<and> split_slash s = ''taskrun'' # vs)"
  "prefix ''attempt/'' s \<longleftrightarrow> (\<exists>vs. vs \<noteq> [] \<and> split_slash s = ''attempt'' # vs)"
  using prefix_slash [of "''job''" s] prefix_slash [of "''taskrun''" s]
    prefix_slash [of "''attempt''" s]
  by (simp_all only: slash_free_consts split_slash_free append.simps simp_thms)

lemma prefix_job_words:
  assumes "slash_free j"
  shows "prefix (''job/'' @ j @ ''/task/'') s \<longleftrightarrow>
      (\<exists>vs. vs \<noteq> [] \<and> split_slash s = [''job'', j, ''task''] @ vs)"
    "prefix (''job/'' @ j @ ''/occurrence/'') s \<longleftrightarrow>
      (\<exists>vs. vs \<noteq> [] \<and> split_slash s = [''job'', j, ''occurrence''] @ vs)"
proof -
  have j: "split_slash (join_slash [''job'', j, x]) = [''job'', j, x]" if "slash_free x" for x
    using assms that by (simp add: split_join_slash)
  show "prefix (''job/'' @ j @ ''/task/'') s \<longleftrightarrow>
      (\<exists>vs. vs \<noteq> [] \<and> split_slash s = [''job'', j, ''task''] @ vs)"
    using prefix_slash [of "join_slash [''job'', j, ''task'']" s] j [of "''task''"] by simp
  show "prefix (''job/'' @ j @ ''/occurrence/'') s \<longleftrightarrow>
      (\<exists>vs. vs \<noteq> [] \<and> split_slash s = [''job'', j, ''occurrence''] @ vs)"
    using prefix_slash [of "join_slash [''job'', j, ''occurrence'']" s] j [of "''occurrence''"]
    by simp
qed

text \<open>The shapes of the keys of the schema.\<close>

lemma key_shape:
  "slash_free i \<Longrightarrow> key = jobKey i \<longleftrightarrow> split_slash key = [''job'', i]"
  "slash_free j \<Longrightarrow> slash_free i \<Longrightarrow>
     key = taskKey j i \<longleftrightarrow> split_slash key = [''job'', j, ''task'', i]"
  "slash_free j \<Longrightarrow> slash_free i \<Longrightarrow>
     key = occurrenceKey j i \<longleftrightarrow> split_slash key = [''job'', j, ''occurrence'', i]"
  "slash_free i \<Longrightarrow> key = simpleRunKey i \<longleftrightarrow> split_slash key = [''taskrun'', i]"
  "slash_free i \<Longrightarrow> key = simpleAttemptKey i \<longleftrightarrow> split_slash key = [''attempt'', i]"
  by (simp_all only: keys_split [symmetric] split_slash_inject)

lemma record_shape:
  assumes "record_key key v"
  obtains (job) i where "job_id_ok i" "split_slash key = [''job'', i]"
  | (task) j i where "job_id_ok j" "task_id_ok i" "split_slash key = [''job'', j, ''task'', i]"
  | (occurrence) j i where "job_id_ok j" "occ_id_ok i"
      "split_slash key = [''job'', j, ''occurrence'', i]"
  | (run) i where "slash_free i" "split_slash key = [''taskrun'', i]"
  | (attempt) i where "slash_free i" "split_slash key = [''attempt'', i]"
  using assms by (rule record_split) (auto intro: that)

text \<open>What each search condition says of such a key.\<close>

lemma select_jobs:
  "record_key key v \<Longrightarrow> prefix ''job/'' key \<and> \<not> Count key (CHR ''/'') > 1 \<longleftrightarrow>
     (\<exists>k. job_id_ok k \<and> key = jobKey k)"
  by (simp add: key_shape id_ok_slash_free cong: conj_cong)
     (erule record_shape; simp add: prefix_words Count_slash)

lemma select_tasks:
  "record_key key v \<Longrightarrow> prefix ''job/'' key \<and> Contains key ''/task/'' \<longleftrightarrow>
     (\<exists>j i. job_id_ok j \<and> task_id_ok i \<and> key = taskKey j i)"
  by (simp add: key_shape id_ok_slash_free cong: conj_cong)
     (unfold prefix_words Contains_words, erule record_shape; auto simp: job_id_ok_def)

lemma select_occurrences:
  "record_key key v \<Longrightarrow> prefix ''job/'' key \<and> Contains key ''/occurrence/'' \<longleftrightarrow>
     (\<exists>j i. job_id_ok j \<and> occ_id_ok i \<and> key = occurrenceKey j i)"
  by (simp add: key_shape id_ok_slash_free cong: conj_cong)
     (unfold prefix_words Contains_words, erule record_shape; auto simp: job_id_ok_def)

lemma select_of_job:
  assumes "record_key key v" and "job_id_ok j"
  shows "prefix (''job/'' @ j @ ''/task/'') key \<longleftrightarrow> (\<exists>i. task_id_ok i \<and> key = taskKey j i)"
    "prefix (''job/'' @ j @ ''/occurrence/'') key \<longleftrightarrow> (\<exists>i. occ_id_ok i \<and> key = occurrenceKey j i)"
proof -
  note j = job_id_ok_slash_free [OF assms(2)]
  show "prefix (''job/'' @ j @ ''/task/'') key \<longleftrightarrow> (\<exists>i. task_id_ok i \<and> key = taskKey j i)"
    unfolding prefix_job_words [OF j] using assms(1)
    by (simp add: key_shape id_ok_slash_free j cong: conj_cong) (erule record_shape; auto)
  show "prefix (''job/'' @ j @ ''/occurrence/'') key \<longleftrightarrow>
      (\<exists>i. occ_id_ok i \<and> key = occurrenceKey j i)"
    unfolding prefix_job_words [OF j] using assms(1)
    by (simp add: key_shape id_ok_slash_free j cong: conj_cong) (erule record_shape; auto)
qed

lemma select_runs:
  "record_key key v \<Longrightarrow> prefix ''taskrun/'' key \<longleftrightarrow> (\<exists>i. slash_free i \<and> key = simpleRunKey i)"
  "record_key key v \<Longrightarrow> prefix ''attempt/'' key \<longleftrightarrow> (\<exists>i. slash_free i \<and> key = simpleAttemptKey i)"
  by (simp add: key_shape cong: conj_cong, unfold prefix_words, erule record_shape; simp)+

text \<open>Identifiers of one kind have one length, so a suffix search finds exactly the identifier.\<close>

lemma HasSuffix_id:
  assumes "split_slash key = xs @ [i]" "slash_free t" "length t = length i"
  shows "HasSuffix key t \<longleftrightarrow> i = t"
  using assms suffix_same_length [of t i "[]"] by (auto simp: HasSuffix_component)

lemma HasSuffix_keys:
  "slash_free j \<Longrightarrow> task_id_ok i \<Longrightarrow> task_id_ok t \<Longrightarrow> HasSuffix (taskKey j i) t \<longleftrightarrow> i = t"
  "slash_free j \<Longrightarrow> occ_id_ok i \<Longrightarrow> occ_id_ok t \<Longrightarrow> HasSuffix (occurrenceKey j i) t \<longleftrightarrow> i = t"
  using HasSuffix_id [of "taskKey j i" "[''job'', j, ''task'']" i t]
    HasSuffix_id [of "occurrenceKey j i" "[''job'', j, ''occurrence'']" i t]
  by (simp_all add: keys_split task_id_ok_def occ_id_ok_def)

end
