(* ===== verification/BadgerContract.thy ===== *)
theory BadgerContract
  imports BadgerRefinement
begin

text \<open>
  The BadgerDB implementation meets the storage contract of \<open>StorageInterface\<close>, for any database that
  keeps its documented behaviour, and the stronger contract when the database does not fail. An
  ordered in-memory store shows that both database contracts are satisfiable.
\<close>

subsection \<open>Each record kind is a family over the database\<close>

sublocale badger_db \<subseteq> jobs: badger_family B contents a_jobs "\<lambda>m a. a\<lparr>a_jobs := m\<rparr>"
  marshal_job unmarshal_job "sj_ID" "jobKey" "job_id_ok"
  by unfold_locales

sublocale badger_db \<subseteq> tasks: badger_family B contents a_tasks "\<lambda>m a. a\<lparr>a_tasks := m\<rparr>"
  marshal_task unmarshal_task "\<lambda>t. (st_JobID t, st_ID t)" "\<lambda>(j, i). taskKey j i"
  "\<lambda>(j, i). job_id_ok j \<and> task_id_ok i"
  by unfold_locales

sublocale badger_db \<subseteq> occs: badger_family B contents a_occs "\<lambda>m a. a\<lparr>a_occs := m\<rparr>"
  marshal_occurrence unmarshal_occurrence "\<lambda>t. (so_JobID t, so_ID t)" "\<lambda>(j, i). occurrenceKey j i"
  "\<lambda>(j, i). job_id_ok j \<and> occ_id_ok i"
  by unfold_locales

sublocale badger_db \<subseteq> runs: badger_family B contents a_runs "\<lambda>m a. a\<lparr>a_runs := m\<rparr>"
  marshal_run unmarshal_run "tr_ID" "simpleRunKey" "slash_free"
  by unfold_locales

sublocale badger_db \<subseteq> attempts: badger_family B contents a_attempts "\<lambda>m a. a\<lparr>a_attempts := m\<rparr>"
  marshal_attempt unmarshal_attempt "ea_ID" "simpleAttemptKey" "slash_free"
  by unfold_locales

context badger_db
begin

lemma key_record: "keys_ok (contents s) \<Longrightarrow> contents s key \<noteq> None \<Longrightarrow> \<exists>v. record_key key v"
  by (auto simp: keys_ok_def)

lemma contents_well_keyed: "keys_ok (contents s) \<Longrightarrow> well_keyed (abs_of (contents s))"
  unfolding well_keyed_def
  using jobs.get_Some tasks.get_Some occs.get_Some runs.get_Some attempts.get_Some marshal_ok
  by fastforce

lemma ListJobs_refines:
  assumes "keys_ok (contents s)"
  shows "list_spec (a_jobs (abs_of (contents s))) (\<lambda>_. True) (BadgerStorage_ListJobs B s)"
proof -
  have "prefix ''job/'' key \<and> \<not> Count key (CHR ''/'') > 1 \<longleftrightarrow>
      (\<exists>k. job_id_ok k \<and> key = jobKey k \<and> True)" if "contents s key \<noteq> None" for key
    using key_record [OF assms that] select_jobs [of key] by auto
  from jobs.family_list [OF assms this] show ?thesis by (simp add: BadgerStorage_ListJobs_def)
qed

lemma ListTasksByJobID_refines:
  assumes "keys_ok (contents s)" "job_id_ok i"
  shows "list_spec (a_tasks (abs_of (contents s))) (\<lambda>t. st_JobID t = i)
    (BadgerStorage_ListTasksByJobID B s i)"
proof -
  have "prefix (''job/'' @ i @ ''/task/'') key \<and> True \<longleftrightarrow>
      (\<exists>k. (case k of (j, i) \<Rightarrow> job_id_ok j \<and> task_id_ok i)
        \<and> key = (case k of (j, i) \<Rightarrow> taskKey j i) \<and> fst k = i)" if "contents s key \<noteq> None" for key
    using key_record [OF assms(1) that] select_of_job(1) [of key _ i] assms(2) by auto
  from tasks.family_list [OF assms(1) this, where Q = "\<lambda>_. True"] show ?thesis
    by (simp add: BadgerStorage_ListTasksByJobID_def)
qed

lemma select_all_occurrences:
  assumes "keys_ok (contents s)" "contents s key \<noteq> None"
  shows "prefix ''job/'' key \<and> Contains key ''/occurrence/'' \<longleftrightarrow>
      (\<exists>k. (case k of (j, i) \<Rightarrow> job_id_ok j \<and> occ_id_ok i)
        \<and> key = (case k of (j, i) \<Rightarrow> occurrenceKey j i) \<and> True)"
  using key_record [OF assms] select_occurrences [of key] by auto

lemma list_occurrences_refines:
  assumes "keys_ok (contents s)"
  shows "list_spec (a_occs (abs_of (contents s))) Q
    (collect B s (\<lambda>key. Contains key ''/occurrence/'') unmarshal_occurrence Q (txn_Keys B s ''job/''))"
  using occs.family_list [OF assms select_all_occurrences [OF assms], where Q = Q] by simp

lemma list_job_occurrences_refines:
  assumes "keys_ok (contents s)" "job_id_ok i"
  shows "list_spec (a_occs (abs_of (contents s))) (\<lambda>x. so_JobID x = i \<and> Q x)
    (collect B s (\<lambda>_. True) unmarshal_occurrence Q (txn_Keys B s (''job/'' @ i @ ''/occurrence/'')))"
proof -
  have "prefix (''job/'' @ i @ ''/occurrence/'') key \<and> True \<longleftrightarrow>
      (\<exists>k. (case k of (j, i) \<Rightarrow> job_id_ok j \<and> occ_id_ok i)
        \<and> key = (case k of (j, i) \<Rightarrow> occurrenceKey j i) \<and> fst k = i)" if "contents s key \<noteq> None" for key
    using key_record [OF assms(1) that] select_of_job(2) [of key _ i] assms(2) by auto
  from occs.family_list [OF assms(1) this, where Q = Q] show ?thesis by simp
qed

lemma list_runs_refines:
  assumes "keys_ok (contents s)"
  shows "list_spec (a_runs (abs_of (contents s))) Q
    (collect B s (\<lambda>_. True) unmarshal_run Q (txn_Keys B s ''taskrun/''))"
    and "list_spec (a_attempts (abs_of (contents s))) Q'
    (collect B s (\<lambda>_. True) unmarshal_attempt Q' (txn_Keys B s ''attempt/''))"
proof -
  have "prefix ''taskrun/'' key \<and> True \<longleftrightarrow> (\<exists>k. slash_free k \<and> key = simpleRunKey k \<and> True)"
    if "contents s key \<noteq> None" for key
    using key_record [OF assms that] select_runs(1) [of key] by auto
  from runs.family_list [OF assms this, where Q = Q]
  show "list_spec (a_runs (abs_of (contents s))) Q
    (collect B s (\<lambda>_. True) unmarshal_run Q (txn_Keys B s ''taskrun/''))" by simp
  have "prefix ''attempt/'' key \<and> True \<longleftrightarrow> (\<exists>k. slash_free k \<and> key = simpleAttemptKey k \<and> True)"
    if "contents s key \<noteq> None" for key
    using key_record [OF assms that] select_runs(2) [of key] by auto
  from attempts.family_list [OF assms this, where Q = Q']
  show "list_spec (a_attempts (abs_of (contents s))) Q'
    (collect B s (\<lambda>_. True) unmarshal_attempt Q' (txn_Keys B s ''attempt/''))" by simp
qed

lemma select_task_id:
  assumes "keys_ok (contents s)" "task_id_ok t" "contents s key \<noteq> None"
  shows "prefix ''job/'' key \<and> Contains key ''/task/'' \<and> HasSuffix key t \<longleftrightarrow>
      (\<exists>k. (case k of (j, i) \<Rightarrow> job_id_ok j \<and> task_id_ok i)
        \<and> key = (case k of (j, i) \<Rightarrow> taskKey j i) \<and> snd k = t)"
proof -
  obtain v where "record_key key v" using key_record [OF assms(1,3)] by blast
  note sel = select_tasks [OF this]
  show ?thesis
  proof (cases "prefix ''job/'' key \<and> Contains key ''/task/''")
    case True
    with sel obtain j i where "job_id_ok j" "task_id_ok i" "key = taskKey j i" by blast
    with True assms(2) show ?thesis
      by (auto simp: HasSuffix_keys(1) id_ok_slash_free pair_keys_inject)
  next
    case False
    with sel assms(2) show ?thesis by auto
  qed
qed

lemma select_occurrence_id:
  assumes "keys_ok (contents s)" "occ_id_ok t" "contents s key \<noteq> None"
  shows "prefix ''job/'' key \<and> Contains key ''/occurrence/'' \<and> HasSuffix key t \<longleftrightarrow>
      (\<exists>k. (case k of (j, i) \<Rightarrow> job_id_ok j \<and> occ_id_ok i)
        \<and> key = (case k of (j, i) \<Rightarrow> occurrenceKey j i) \<and> snd k = t)"
proof -
  obtain v where "record_key key v" using key_record [OF assms(1,3)] by blast
  note sel = select_occurrences [OF this]
  show ?thesis
  proof (cases "prefix ''job/'' key \<and> Contains key ''/occurrence/''")
    case True
    with sel obtain j i where "job_id_ok j" "occ_id_ok i" "key = occurrenceKey j i" by blast
    with True assms(2) show ?thesis
      by (auto simp: HasSuffix_keys(2) id_ok_slash_free pair_keys_inject)
  next
    case False
    with sel assms(2) show ?thesis by auto
  qed
qed

lemma GetTask_refines:
  assumes "keys_ok (contents s)" "task_id_ok i"
  shows "find_spec (a_tasks (abs_of (contents s))) i (ErrTaskNotFound i) (BadgerStorage_GetTask B s i)"
proof (rule tasks.family_find [OF assms(1) select_task_id [OF assms] unmarshal_error(2)])
qed (force simp: BadgerStorage_GetTask_def find_spec_def is_db_error_def)+

lemma GetJobOccurrence_refines:
  assumes "keys_ok (contents s)" "occ_id_ok i"
  shows "find_spec (a_occs (abs_of (contents s))) i (ErrOccurrenceNotFound i)
    (BadgerStorage_GetJobOccurrence B s i)"
proof (rule occs.family_find [OF assms(1) select_occurrence_id [OF assms] unmarshal_error(3)])
qed (force simp: BadgerStorage_GetJobOccurrence_def find_spec_def is_db_error_def)+

lemma find_delete:
  assumes "delete_spec m (j, i) r m'" "m (j, i) = Some v"
  shows "find_delete_spec m i r m'"
  using assms by (auto simp: delete_spec_def find_delete_spec_def split: option.splits)

lemma DeleteTask_refines:
  assumes inv: "keys_ok (contents s)" and i: "task_id_ok i"
    and run: "BadgerStorage_DeleteTask B s i = (r, s')"
  shows "keys_ok (contents s') \<and>
    abs_of (contents s') = (abs_of (contents s))\<lparr>a_tasks := a_tasks (abs_of (contents s'))\<rparr> \<and>
    find_delete_spec (a_tasks (abs_of (contents s))) i r (a_tasks (abs_of (contents s')))"
proof (cases "BadgerStorage_GetTask B s i")
  case (Inl e)
  then show ?thesis using run inv by (auto simp: BadgerStorage_DeleteTask_def find_delete_spec_def)
next
  case (Inr t)
  with GetTask_refines [OF inv i] obtain j where j: "a_tasks (abs_of (contents s)) (j, i) = Some t"
    by (auto simp: find_spec_def)
  then have k: "st_JobID t = j" "st_ID t = i" "job_id_ok j" using tasks.get_Some [OF inv] by auto
  have "db_Update B s (\<lambda>txn. txn_Delete B txn (taskKey j i)) = (r, s')"
    using run Inr k by (simp add: BadgerStorage_DeleteTask_def)
  from tasks.family_delete [OF inv _ _ this, of "(j, i)"] k i j show ?thesis
    by (auto intro: find_delete)
qed

lemma DeleteJobOccurrence_refines:
  assumes inv: "keys_ok (contents s)" and i: "occ_id_ok i"
    and run: "BadgerStorage_DeleteJobOccurrence B s i = (r, s')"
  shows "keys_ok (contents s') \<and>
    abs_of (contents s') = (abs_of (contents s))\<lparr>a_occs := a_occs (abs_of (contents s'))\<rparr> \<and>
    find_delete_spec (a_occs (abs_of (contents s))) i r (a_occs (abs_of (contents s')))"
proof (cases "BadgerStorage_GetJobOccurrence B s i")
  case (Inl e)
  then show ?thesis
    using run inv by (auto simp: BadgerStorage_DeleteJobOccurrence_def find_delete_spec_def)
next
  case (Inr t)
  with GetJobOccurrence_refines [OF inv i] obtain j
    where j: "a_occs (abs_of (contents s)) (j, i) = Some t"
    by (auto simp: find_spec_def)
  then have k: "so_JobID t = j" "so_ID t = i" "job_id_ok j" using occs.get_Some [OF inv] by auto
  have "db_Update B s (\<lambda>txn. txn_Delete B txn (occurrenceKey j i)) = (r, s')"
    using run Inr k by (simp add: BadgerStorage_DeleteJobOccurrence_def)
  from occs.family_delete [OF inv _ _ this, of "(j, i)"] k i j show ?thesis
    by (auto intro: find_delete)
qed

end

subsection \<open>The refinement\<close>

lemma BadgerStorage_select [simp]:
  "CreateJob (BadgerStorage B) = BadgerStorage_CreateJob B"
  "GetJob (BadgerStorage B) = BadgerStorage_GetJob B"
  "UpdateJob (BadgerStorage B) = BadgerStorage_UpdateJob B"
  "DeleteJob (BadgerStorage B) = BadgerStorage_DeleteJob B"
  "ListJobs (BadgerStorage B) = BadgerStorage_ListJobs B"
  "CreateTask (BadgerStorage B) = BadgerStorage_CreateTask B"
  "GetTask (BadgerStorage B) = BadgerStorage_GetTask B"
  "UpdateTask (BadgerStorage B) = BadgerStorage_UpdateTask B"
  "DeleteTask (BadgerStorage B) = BadgerStorage_DeleteTask B"
  "ListTasksByJobID (BadgerStorage B) = BadgerStorage_ListTasksByJobID B"
  "CreateJobOccurrence (BadgerStorage B) = BadgerStorage_CreateJobOccurrence B"
  "GetJobOccurrence (BadgerStorage B) = BadgerStorage_GetJobOccurrence B"
  "UpdateJobOccurrence (BadgerStorage B) = BadgerStorage_UpdateJobOccurrence B"
  "DeleteJobOccurrence (BadgerStorage B) = BadgerStorage_DeleteJobOccurrence B"
  "ListRunningOccurrences (BadgerStorage B) = BadgerStorage_ListRunningOccurrences B"
  "ListStaleOccurrences (BadgerStorage B) = BadgerStorage_ListStaleOccurrences B"
  "ListQueuedOccurrencesByJobID (BadgerStorage B) = BadgerStorage_ListQueuedOccurrencesByJobID B"
  "ListPendingOccurrences (BadgerStorage B) = BadgerStorage_ListPendingOccurrences B"
  "CreateTaskRun (BadgerStorage B) = BadgerStorage_CreateTaskRun B"
  "GetTaskRun (BadgerStorage B) = BadgerStorage_GetTaskRun B"
  "UpdateTaskRun (BadgerStorage B) = BadgerStorage_UpdateTaskRun B"
  "DeleteTaskRun (BadgerStorage B) = BadgerStorage_DeleteTaskRun B"
  "ListTaskRunsByOccurrenceID (BadgerStorage B) = BadgerStorage_ListTaskRunsByOccurrenceID B"
  "CreateExecutionAttempt (BadgerStorage B) = BadgerStorage_CreateExecutionAttempt B"
  "GetExecutionAttempt (BadgerStorage B) = BadgerStorage_GetExecutionAttempt B"
  "UpdateExecutionAttempt (BadgerStorage B) = BadgerStorage_UpdateExecutionAttempt B"
  "ListExecutionAttemptsByTaskRunID (BadgerStorage B) = BadgerStorage_ListExecutionAttemptsByTaskRunID B"
  by (simp_all add: BadgerStorage_def)

sublocale badger_db \<subseteq> storage "BadgerStorage B" "\<lambda>s. abs_of (contents s)" "\<lambda>s. keys_ok (contents s)"
proof (unfold_locales, unfold BadgerStorage_select, goal_cases)
  case (1 s)
  then show ?case by (rule contents_well_keyed)
next
  case (2 s v r s')
  then show ?case using jobs.family_create [of s v "jobKey (sj_ID v)" "ErrJobExists (sj_ID v)"
      "''failed to marshal job''" r s'] unfolding BadgerStorage_CreateJob_def by simp
next
  case (3 s i)
  then show ?case unfolding BadgerStorage_GetJob_def by (intro jobs.family_get unmarshal_error(1)) simp_all
next
  case (4 s v now r s')
  then show ?case using jobs.family_update [of s "v\<lparr>sj_UpdatedAt := now\<rparr>" "jobKey (sj_ID v)"
      "ErrJobNotFound (sj_ID v)" "''failed to marshal job''" r s'] unfolding BadgerStorage_UpdateJob_def by simp
next
  case (5 s i r s')
  then show ?case using jobs.family_delete [of s i "jobKey i" r s'] unfolding BadgerStorage_DeleteJob_def by simp
next
  case 6
  then show ?case by (rule ListJobs_refines)
next
  case (7 s v r s')
  then show ?case using tasks.family_create [of s v "taskKey (st_JobID v) (st_ID v)" "ErrTaskExists (st_ID v)"
      "''failed to marshal task''" r s'] unfolding BadgerStorage_CreateTask_def by simp
next
  case (8 s i)
  then show ?case by (rule GetTask_refines)
next
  case (9 s v now r s')
  then show ?case using tasks.family_update [of s "v\<lparr>st_UpdatedAt := now\<rparr>" "taskKey (st_JobID v) (st_ID v)"
      "ErrTaskNotFound (st_ID v)" "''failed to marshal task''" r s'] unfolding BadgerStorage_UpdateTask_def by simp
next
  case (10 s i r s')
  then show ?case by (rule DeleteTask_refines)
next
  case 11
  then show ?case by (rule ListTasksByJobID_refines)
next
  case (12 s v r s')
  then show ?case using occs.family_create [of s v "occurrenceKey (so_JobID v) (so_ID v)" "ErrOccurrenceExists (so_ID v)"
      "''failed to marshal occurrence''" r s'] unfolding BadgerStorage_CreateJobOccurrence_def by simp
next
  case (13 s i)
  then show ?case by (rule GetJobOccurrence_refines)
next
  case (14 s v now r s')
  then show ?case using occs.family_update [of s "v\<lparr>so_UpdatedAt := now\<rparr>" "occurrenceKey (so_JobID v) (so_ID v)"
      "ErrOccurrenceNotFound (so_ID v)" "''failed to marshal occurrence''" r s'] unfolding BadgerStorage_UpdateJobOccurrence_def by simp
next
  case (15 s i r s')
  then show ?case by (rule DeleteJobOccurrence_refines)
next
  case 16
  then show ?case unfolding BadgerStorage_ListRunningOccurrences_def by (rule list_occurrences_refines)
next
  case 17
  then show ?case unfolding BadgerStorage_ListStaleOccurrences_def by (rule list_occurrences_refines)
next
  case 18
  then show ?case unfolding BadgerStorage_ListQueuedOccurrencesByJobID_def by (rule list_job_occurrences_refines)
next
  case 19
  then show ?case unfolding BadgerStorage_ListPendingOccurrences_def by (rule list_job_occurrences_refines)
next
  case (20 s v r s')
  then show ?case using runs.family_create [of s v "simpleRunKey (tr_ID v)" "ErrTaskRunExists (tr_ID v)"
      "''failed to marshal task run''" r s'] unfolding BadgerStorage_CreateTaskRun_def by simp
next
  case (21 s i)
  then show ?case unfolding BadgerStorage_GetTaskRun_def by (intro runs.family_get unmarshal_error(4)) simp_all
next
  case (22 s v now r s')
  then show ?case using runs.family_update [of s "v\<lparr>tr_UpdatedAt := now\<rparr>" "simpleRunKey (tr_ID v)"
      "ErrTaskRunNotFound (tr_ID v)" "''failed to marshal task run''" r s'] unfolding BadgerStorage_UpdateTaskRun_def by simp
next
  case (23 s i r s')
  then show ?case using runs.family_delete [of s i "simpleRunKey i" r s'] unfolding BadgerStorage_DeleteTaskRun_def by simp
next
  case 24
  then show ?case unfolding BadgerStorage_ListTaskRunsByOccurrenceID_def by (rule list_runs_refines)
next
  case (25 s v r s')
  then show ?case using attempts.family_create [of s v "simpleAttemptKey (ea_ID v)" "ErrAttemptExists (ea_ID v)"
      "''failed to marshal execution attempt''" r s'] unfolding BadgerStorage_CreateExecutionAttempt_def by simp
next
  case (26 s i)
  then show ?case unfolding BadgerStorage_GetExecutionAttempt_def by (intro attempts.family_get unmarshal_error(5)) simp_all
next
  case (27 s v r s')
  then show ?case using attempts.family_update [of s v "simpleAttemptKey (ea_ID v)"
      "ErrAttemptNotFound (ea_ID v)" "''failed to marshal execution attempt''" r s'] unfolding BadgerStorage_UpdateExecutionAttempt_def by simp
next
  case 28
  then show ?case unfolding BadgerStorage_ListExecutionAttemptsByTaskRunID_def by (rule list_runs_refines)
qed

subsection \<open>A database that does not fail\<close>

context badger_db_reliable
begin

lemma create_total:
  assumes "m = Inr d"
  shows "fst (db_Update B s (createTxn B ex what key m)) =
    (if contents s key = None then None else Some ex)"
proof -
  obtain t where t: "txn_Set B s key d = Inr t" using Set_total by blast
  show ?thesis
    using Update_total [of "createTxn B ex what key m" s t]
      Update_abort [of "createTxn B ex what key m" s ex] assms t
    by (simp add: createTxn_def Get_total)
qed

lemma update_total:
  assumes "m = Inr d"
  shows "fst (db_Update B s (updateTxn B ms what key m)) =
    (if contents s key = None then Some ms else None)"
proof -
  obtain t where t: "txn_Set B s key d = Inr t" using Set_total by blast
  show ?thesis
    using Update_total [of "updateTxn B ms what key m" s t]
      Update_abort [of "updateTxn B ms what key m" s ms] assms t
    by (simp add: updateTxn_def Get_total)
qed

lemma delete_total: "fst (db_Update B s (\<lambda>txn. txn_Delete B txn key)) = None"
proof -
  obtain t where "txn_Delete B s key = Inr t" using Delete_total by blast
  then show ?thesis using Update_total [of "\<lambda>txn. txn_Delete B txn key" s t] by simp
qed

lemma viewGet_total:
  assumes "\<And>d. contents s key = Some d \<Longrightarrow> \<exists>v. dec d = Inr v"
  shows "viewGet B ms key dec s =
    (case decode dec (contents s key) of None \<Rightarrow> Inl ms | Some v \<Rightarrow> Inr v)"
proof (cases "contents s key")
  case None
  then show ?thesis by (simp add: viewGet_def Get_total decode_def)
next
  case (Some d)
  with assms obtain v where "dec d = Inr v" by blast
  with Some show ?thesis by (simp add: viewGet_def Get_total Value_total decode_def)
qed

lemma collect_total:
  assumes "\<And>key. key \<in> set ks \<Longrightarrow> P key \<Longrightarrow> \<exists>d v. contents s key = Some d \<and> dec d = Inr v"
  shows "\<exists>vs. collect B s P dec Q ks = Inr vs"
  using assms
proof (induction ks)
  case (Cons key ks)
  then obtain vs where "collect B s P dec Q ks = Inr vs" by auto
  moreover have "P key \<Longrightarrow> \<exists>d v. item_Value B s key = Inr d \<and> dec d = Inr v"
    using Cons.prems [of key] Value_total by auto
  ultimately show ?case by (cases "P key") auto
qed simp

lemma collect_keys_total:
  assumes "\<And>key. contents s key \<noteq> None \<Longrightarrow> prefix p key \<Longrightarrow> P key \<Longrightarrow>
    \<exists>d v. contents s key = Some d \<and> dec d = Inr v"
  shows "\<exists>vs. collect B s P dec Q (txn_Keys B s p) = Inr vs"
  using assms by (intro collect_total) (simp add: Keys_set)

lemma findFirst_total:
  assumes "\<And>key. key \<in> set ks \<Longrightarrow> P key \<Longrightarrow> \<exists>d v. contents s key = Some d \<and> dec d = Inr v"
    and "key \<in> set ks" "P key"
  shows "\<exists>v. findFirst B s P dec ks = Inr (Some v)"
  using assms
proof (induction ks)
  case (Cons k ks)
  then show ?case using Value_total by (cases "P k") fastforce+
qed simp

text \<open>The records the searches select decode.\<close>

lemma decodes:
  assumes "keys_ok (contents s)"
  shows "job_id_ok i \<Longrightarrow> contents s (jobKey i) = Some d \<Longrightarrow> \<exists>v. unmarshal_job d = Inr v"
    "job_id_ok j \<Longrightarrow> task_id_ok i \<Longrightarrow> contents s (taskKey j i) = Some d \<Longrightarrow>
      \<exists>v. unmarshal_task d = Inr v"
    "job_id_ok j \<Longrightarrow> occ_id_ok i \<Longrightarrow> contents s (occurrenceKey j i) = Some d \<Longrightarrow>
      \<exists>v. unmarshal_occurrence d = Inr v"
    "slash_free i \<Longrightarrow> contents s (simpleRunKey i) = Some d \<Longrightarrow> \<exists>v. unmarshal_run d = Inr v"
    "slash_free i \<Longrightarrow> contents s (simpleAttemptKey i) = Some d \<Longrightarrow>
      \<exists>v. unmarshal_attempt d = Inr v"
  using jobs.look [OF assms, of i d] tasks.look [OF assms, of "(j, i)" d]
    occs.look [OF assms, of "(j, i)" d] runs.look [OF assms, of i d] attempts.look [OF assms, of i d]
    job_roundtrip task_roundtrip occurrence_roundtrip run_roundtrip attempt_roundtrip
  by fastforce+

lemma selected_decode:
  assumes inv: "keys_ok (contents s)" and key: "contents s key \<noteq> None"
  shows "prefix ''job/'' key \<Longrightarrow> \<not> Count key (CHR ''/'') > 1 \<Longrightarrow>
      \<exists>d v. contents s key = Some d \<and> unmarshal_job d = Inr v"
    "prefix ''job/'' key \<Longrightarrow> Contains key ''/task/'' \<Longrightarrow>
      \<exists>d v. contents s key = Some d \<and> unmarshal_task d = Inr v"
    "prefix ''job/'' key \<Longrightarrow> Contains key ''/occurrence/'' \<Longrightarrow>
      \<exists>d v. contents s key = Some d \<and> unmarshal_occurrence d = Inr v"
    "job_id_ok j \<Longrightarrow> prefix (''job/'' @ j @ ''/task/'') key \<Longrightarrow>
      \<exists>d v. contents s key = Some d \<and> unmarshal_task d = Inr v"
    "job_id_ok j \<Longrightarrow> prefix (''job/'' @ j @ ''/occurrence/'') key \<Longrightarrow>
      \<exists>d v. contents s key = Some d \<and> unmarshal_occurrence d = Inr v"
    "prefix ''taskrun/'' key \<Longrightarrow> \<exists>d v. contents s key = Some d \<and> unmarshal_run d = Inr v"
    "prefix ''attempt/'' key \<Longrightarrow> \<exists>d v. contents s key = Some d \<and> unmarshal_attempt d = Inr v"
proof -
  obtain r d where r: "record_key key r" and d: "contents s key = Some d"
    using key_record [OF inv key] key by blast
  note dec = decodes [OF inv]
  show "prefix ''job/'' key \<Longrightarrow> \<not> Count key (CHR ''/'') > 1 \<Longrightarrow>
      \<exists>d v. contents s key = Some d \<and> unmarshal_job d = Inr v"
    using select_jobs [OF r] dec(1) d by metis
  show "prefix ''job/'' key \<Longrightarrow> Contains key ''/task/'' \<Longrightarrow>
      \<exists>d v. contents s key = Some d \<and> unmarshal_task d = Inr v"
    using select_tasks [OF r] dec(2) d by metis
  show "prefix ''job/'' key \<Longrightarrow> Contains key ''/occurrence/'' \<Longrightarrow>
      \<exists>d v. contents s key = Some d \<and> unmarshal_occurrence d = Inr v"
    using select_occurrences [OF r] dec(3) d by metis
  show "job_id_ok j \<Longrightarrow> prefix (''job/'' @ j @ ''/task/'') key \<Longrightarrow>
      \<exists>d v. contents s key = Some d \<and> unmarshal_task d = Inr v"
    using select_of_job(1) [OF r] dec(2) d by metis
  show "job_id_ok j \<Longrightarrow> prefix (''job/'' @ j @ ''/occurrence/'') key \<Longrightarrow>
      \<exists>d v. contents s key = Some d \<and> unmarshal_occurrence d = Inr v"
    using select_of_job(2) [OF r] dec(3) d by metis
  show "prefix ''taskrun/'' key \<Longrightarrow> \<exists>d v. contents s key = Some d \<and> unmarshal_run d = Inr v"
    using select_runs(1) [OF r] dec(4) d by metis
  show "prefix ''attempt/'' key \<Longrightarrow> \<exists>d v. contents s key = Some d \<and> unmarshal_attempt d = Inr v"
    using select_runs(2) [OF r] dec(5) d by metis
qed

lemma GetTask_total:
  assumes inv: "keys_ok (contents s)" and i: "task_id_ok i"
    and ex: "a_tasks (abs_of (contents s)) (j, i) \<noteq> None"
  shows "\<exists>v. BadgerStorage_GetTask B s i = Inr v"
proof -
  from ex have k: "job_id_ok j" "contents s (taskKey j i) \<noteq> None" using tasks.get_Some [OF inv] by auto
  then have "prefix ''job/'' (taskKey j i) \<and> Contains (taskKey j i) ''/task/'' \<and> HasSuffix (taskKey j i) i"
    using select_task_id [OF inv i k(2)] i by auto
  then have "\<exists>v. findFirst B s (\<lambda>key. Contains key ''/task/'' \<and> HasSuffix key i) unmarshal_task
      (txn_Keys B s ''job/'') = Inr (Some v)"
    using k(2) selected_decode(2) [OF inv]
    by (intro findFirst_total [where key = "taskKey j i"]) (auto simp: Keys_set)
  then show ?thesis by (auto simp: BadgerStorage_GetTask_def)
qed

lemma GetJobOccurrence_total:
  assumes inv: "keys_ok (contents s)" and i: "occ_id_ok i"
    and ex: "a_occs (abs_of (contents s)) (j, i) \<noteq> None"
  shows "\<exists>v. BadgerStorage_GetJobOccurrence B s i = Inr v"
proof -
  from ex have k: "job_id_ok j" "contents s (occurrenceKey j i) \<noteq> None"
    using occs.get_Some [OF inv] by auto
  then have "prefix ''job/'' (occurrenceKey j i) \<and> Contains (occurrenceKey j i) ''/occurrence/''
      \<and> HasSuffix (occurrenceKey j i) i"
    using select_occurrence_id [OF inv i k(2)] i by auto
  then have "\<exists>v. findFirst B s (\<lambda>key. Contains key ''/occurrence/'' \<and> HasSuffix key i)
      unmarshal_occurrence (txn_Keys B s ''job/'') = Inr (Some v)"
    using k(2) selected_decode(3) [OF inv]
    by (intro findFirst_total [where key = "occurrenceKey j i"]) (auto simp: Keys_set)
  then show ?thesis by (auto simp: BadgerStorage_GetJobOccurrence_def)
qed

end

sublocale badger_db_reliable \<subseteq> reliable_storage "BadgerStorage B" "\<lambda>s. abs_of (contents s)"
  "\<lambda>s. keys_ok (contents s)"
proof (unfold_locales, unfold BadgerStorage_select, goal_cases)
  case (1 s v)
  then obtain d where d: "marshal_job (v) = Inr d" using marshal_ok(1) by blast
  then show ?case
    unfolding BadgerStorage_CreateJob_def create_total [OF d]
    using 1 jobs.get_None [of "contents s" "sj_ID v"] by auto
next
  case (2 s i)
  then show ?case unfolding BadgerStorage_GetJob_def jobs.get_decode [OF 2(2)]
    by (intro viewGet_total decodes(1))
next
  case (3 s v now)
  then obtain d where d: "marshal_job (v\<lparr>sj_UpdatedAt := now\<rparr>) = Inr d" using marshal_ok(1) by blast
  then show ?case
    unfolding BadgerStorage_UpdateJob_def update_total [OF d]
    using 3 jobs.get_None [of "contents s" "sj_ID v"] by auto
next
  case 4
  then show ?case unfolding BadgerStorage_DeleteJob_def by (intro delete_total)
next
  case 5
  then show ?case unfolding BadgerStorage_ListJobs_def
    by (intro collect_keys_total selected_decode(1))
next
  case (6 s v)
  then obtain d where d: "marshal_task (v) = Inr d" using marshal_ok(2) by blast
  then show ?case
    unfolding BadgerStorage_CreateTask_def create_total [OF d]
    using 6 tasks.get_None [of "contents s" "(st_JobID v, st_ID v)"] by auto
next
  case 7
  then show ?case by (rule GetTask_total)
next
  case (8 s v now)
  then obtain d where d: "marshal_task (v\<lparr>st_UpdatedAt := now\<rparr>) = Inr d" using marshal_ok(2) by blast
  then show ?case
    unfolding BadgerStorage_UpdateTask_def update_total [OF d]
    using 8 tasks.get_None [of "contents s" "(st_JobID v, st_ID v)"] by auto
next
  case 9
  then show ?case using GetTask_total delete_total unfolding BadgerStorage_DeleteTask_def by (fastforce split: sum.splits)
next
  case 10
  then show ?case unfolding BadgerStorage_ListTasksByJobID_def
    by (intro collect_keys_total selected_decode(4))
next
  case (11 s v)
  then obtain d where d: "marshal_occurrence (v) = Inr d" using marshal_ok(3) by blast
  then show ?case
    unfolding BadgerStorage_CreateJobOccurrence_def create_total [OF d]
    using 11 occs.get_None [of "contents s" "(so_JobID v, so_ID v)"] by auto
next
  case 12
  then show ?case by (rule GetJobOccurrence_total)
next
  case (13 s v now)
  then obtain d where d: "marshal_occurrence (v\<lparr>so_UpdatedAt := now\<rparr>) = Inr d" using marshal_ok(3) by blast
  then show ?case
    unfolding BadgerStorage_UpdateJobOccurrence_def update_total [OF d]
    using 13 occs.get_None [of "contents s" "(so_JobID v, so_ID v)"] by auto
next
  case 14
  then show ?case using GetJobOccurrence_total delete_total unfolding BadgerStorage_DeleteJobOccurrence_def by (fastforce split: sum.splits)
next
  case 15
  then show ?case unfolding BadgerStorage_ListRunningOccurrences_def
    by (intro collect_keys_total selected_decode(3))
next
  case 16
  then show ?case unfolding BadgerStorage_ListStaleOccurrences_def
    by (intro collect_keys_total selected_decode(3))
next
  case 17
  then show ?case unfolding BadgerStorage_ListQueuedOccurrencesByJobID_def
    by (intro collect_keys_total selected_decode(5))
next
  case 18
  then show ?case unfolding BadgerStorage_ListPendingOccurrences_def
    by (intro collect_keys_total selected_decode(5))
next
  case (19 s v)
  then obtain d where d: "marshal_run (v) = Inr d" using marshal_ok(4) by blast
  then show ?case
    unfolding BadgerStorage_CreateTaskRun_def create_total [OF d]
    using 19 runs.get_None [of "contents s" "tr_ID v"] by auto
next
  case (20 s i)
  then show ?case unfolding BadgerStorage_GetTaskRun_def runs.get_decode [OF 20(2)]
    by (intro viewGet_total decodes(4))
next
  case (21 s v now)
  then obtain d where d: "marshal_run (v\<lparr>tr_UpdatedAt := now\<rparr>) = Inr d" using marshal_ok(4) by blast
  then show ?case
    unfolding BadgerStorage_UpdateTaskRun_def update_total [OF d]
    using 21 runs.get_None [of "contents s" "tr_ID v"] by auto
next
  case 22
  then show ?case unfolding BadgerStorage_DeleteTaskRun_def by (intro delete_total)
next
  case 23
  then show ?case unfolding BadgerStorage_ListTaskRunsByOccurrenceID_def
    by (intro collect_keys_total selected_decode(6))
next
  case (24 s v)
  then obtain d where d: "marshal_attempt (v) = Inr d" using marshal_ok(5) by blast
  then show ?case
    unfolding BadgerStorage_CreateExecutionAttempt_def create_total [OF d]
    using 24 attempts.get_None [of "contents s" "ea_ID v"] by auto
next
  case (25 s i)
  then show ?case unfolding BadgerStorage_GetExecutionAttempt_def attempts.get_decode [OF 25(2)]
    by (intro viewGet_total decodes(5))
next
  case (26 s v)
  then obtain d where d: "marshal_attempt (v) = Inr d" using marshal_ok(5) by blast
  then show ?case
    unfolding BadgerStorage_UpdateExecutionAttempt_def update_total [OF d]
    using 26 attempts.get_None [of "contents s" "ea_ID v"] by auto
next
  case 27
  then show ?case unfolding BadgerStorage_ListExecutionAttemptsByTaskRunID_def
    by (intro collect_keys_total selected_decode(7))
qed

end
