(* ===== verification/StorageProperties.thy ===== *)
theory StorageProperties
  imports MemoryDB Ids
begin

text \<open>
  The properties of the identifiers and of the BadgerDB storage, with witnesses on the in-memory
  database.
\<close>

subsection \<open>Identifiers\<close>

lemma generated_ids_ok:
  assumes "uuid_text NewSHA1"
  shows "job_id_ok (GenerateJobID NewSHA1 n)" "task_id_ok (GenerateTaskID NewSHA1 j n)"
    "occ_id_ok (GenerateJobOccurrenceID NewSHA1 j t)"
proof -
  have "length (GenerateJobID NewSHA1 n) = 40" using generated_length [OF assms] by simp
  then have "GenerateJobID NewSHA1 n \<noteq> ''task''" "GenerateJobID NewSHA1 n \<noteq> ''occurrence''" by auto
  then show "job_id_ok (GenerateJobID NewSHA1 n)" "task_id_ok (GenerateTaskID NewSHA1 j n)"
    "occ_id_ok (GenerateJobOccurrenceID NewSHA1 j t)"
    using generated_slash_free [OF assms] generated_length [OF assms]
    by (auto simp: job_id_ok_def task_id_ok_def occ_id_ok_def)
qed

lemma occurrence_id_eq:
  assumes "year_ok s" "year_ok t"
    and "collision_free NewSHA1 OccurrenceNamespace (j @ '':'' @ FormatRFC3339 s) (k @ '':'' @ FormatRFC3339 t)"
  shows "GenerateJobOccurrenceID NewSHA1 j s = GenerateJobOccurrenceID NewSHA1 k t
    \<longleftrightarrow> j = k \<and> s div Second = t div Second"
proof -
  have "GenerateJobOccurrenceID NewSHA1 j s = GenerateJobOccurrenceID NewSHA1 k t
    \<longleftrightarrow> j @ '':'' @ FormatRFC3339 s = k @ '':'' @ FormatRFC3339 t"
    using assms(3) unfolding GenerateJobOccurrenceID_def collision_free_def same_append_eq by metis
  then show ?thesis unfolding occurrence_data_inject FormatRFC3339_inject [OF assms(1,2)] .
qed

text \<open>
  C14. Two occurrences have the same identifier exactly when they belong to the same job and are
  scheduled for the same second: whichever node computes it, the identifier of one firing is the
  same, and firings at least a second apart are told apart (for times RFC 3339 can print, and when
  the two inputs do not collide under SHA-1).
\<close>

theorem occurrence_id_identifies:
  assumes "year_ok s" "year_ok t"
    and "collision_free NewSHA1 OccurrenceNamespace
      (j @ '':'' @ FormatRFC3339 s) (k @ '':'' @ FormatRFC3339 t)"
  shows "GenerateJobOccurrenceID NewSHA1 j s = GenerateJobOccurrenceID NewSHA1 k t
    \<longleftrightarrow> j = k \<and> s div Second = t div Second"
  using occurrence_id_eq [OF assms] .

theorem occurrence_id_identifies_witness:
  "year_ok 0 \<and> year_ok (2 * Second) \<and>
   GenerateJobOccurrenceID sample_uuid ''j'' 0 \<noteq> GenerateJobOccurrenceID sample_uuid ''j'' (2 * Second)"
proof -
  have "year_ok 0" "year_ok (2 * Second)" by code_simp+
  moreover have "collision_free sample_uuid OccurrenceNamespace
      (''j'' @ '':'' @ FormatRFC3339 0) (''j'' @ '':'' @ FormatRFC3339 (2 * Second))"
    unfolding collision_free_def by code_simp
  ultimately show ?thesis
    using occurrence_id_identifies [of 0 "2 * Second" sample_uuid "''j''" "''j''"]
    by simp
qed

text \<open>The five kinds of records by what identifies them, and the key each is stored under.\<close>

datatype entity = JobOf string | TaskOf string string | OccurrenceOf string string | RunOf string | AttemptOf string

fun entity_key :: "entity \<Rightarrow> string" where
  "entity_key (JobOf i) = jobKey i"
| "entity_key (TaskOf j i) = taskKey j i"
| "entity_key (OccurrenceOf j i) = occurrenceKey j i"
| "entity_key (RunOf i) = simpleRunKey i"
| "entity_key (AttemptOf i) = simpleAttemptKey i"

text \<open>The records with the identifiers the program generates, from any names, times and numbers.\<close>

inductive generated :: "uuid5 \<Rightarrow> entity \<Rightarrow> bool" for sha :: uuid5 where
  job: "generated sha (JobOf (GenerateJobID sha name))"
| task: "generated sha (TaskOf (GenerateJobID sha name) (GenerateTaskID sha (GenerateJobID sha name) task))"
| occurrence: "generated sha (OccurrenceOf (GenerateJobID sha name) (GenerateJobOccurrenceID sha (GenerateJobID sha name) t))"
| run: "generated sha (RunOf (GenerateTaskRunID sha occurrenceID taskID))"
| attempt: "generated sha (AttemptOf (GenerateExecutionAttemptID sha runID n))"

fun entity_ok :: "entity \<Rightarrow> bool" where
  "entity_ok (JobOf i) = job_id_ok i"
| "entity_ok (TaskOf j i) = (job_id_ok j \<and> task_id_ok i)"
| "entity_ok (OccurrenceOf j i) = (job_id_ok j \<and> occ_id_ok i)"
| "entity_ok (RunOf i) = slash_free i"
| "entity_ok (AttemptOf i) = slash_free i"

lemma generated_ok: "generated sha x \<Longrightarrow> uuid_text sha \<Longrightarrow> entity_ok x"
  by (induction rule: generated.induct) (simp_all add: generated_ids_ok generated_slash_free)

lemma entity_key_inject:
  assumes "entity_ok x" "entity_ok y"
  shows "entity_key x = entity_key y \<longleftrightarrow> x = y"
proof -
  have job: "jobKey i \<noteq> taskKey j' i'" "jobKey i \<noteq> occurrenceKey j' i'"
    if "slash_free i" "slash_free i'" "slash_free j'" for i i' j'
    using keys_distinct(1,2) [OF that(1,2,1,3)] .
  show ?thesis using assms by (cases x; cases y) (simp_all add: key_facts id_ok_slash_free job job [symmetric])
qed

text \<open>
  C36. The identifiers the program generates are admissible for the key schema: no slash, the fixed
  length the searches by key suffix need, and never one of the words the schema uses itself; and two
  records of any of the five kinds, jobs, tasks, occurrences, runs and attempts, with generated
  identifiers have the same key exactly if they are of the same kind and have the same identifiers.
\<close>

theorem generated_keys_distinct:
  assumes "uuid_text sha" "generated sha x" "generated sha y"
  shows "entity_ok x \<and> (entity_key x = entity_key y \<longleftrightarrow> x = y)"
  using generated_ok [OF assms(2,1)] generated_ok [OF assms(3,1)] entity_key_inject by blast

theorem generated_keys_distinct_witness:
  "taskKey (GenerateJobID sample_uuid ''a'') (GenerateTaskID sample_uuid (GenerateJobID sample_uuid ''a'') ''t'')
     \<noteq> occurrenceKey (GenerateJobID sample_uuid ''a'') (GenerateJobOccurrenceID sample_uuid (GenerateJobID sample_uuid ''a'') 0)"
  using generated_keys_distinct [OF sample_uuid_text generated.task [of sample_uuid "''a''" "''t''"]
      generated.occurrence [of sample_uuid "''a''" 0]] by simp

subsection \<open>The storage\<close>

context badger_db
begin

lemma implements_storage:
  "storage (BadgerStorage B) (\<lambda>s. abs_of (contents s)) (\<lambda>s. keys_ok (contents s))"
  by unfold_locales

end

context badger_db_reliable
begin

lemma implements_reliable_storage:
  "reliable_storage (BadgerStorage B) (\<lambda>s. abs_of (contents s)) (\<lambda>s. keys_ok (contents s))"
  by unfold_locales

end

context reliable_storage
begin

text \<open>Of two creations of one occurrence the first succeeds and the second is told it exists.\<close>

lemma create_once:
  assumes inv: "invar s" and ids: "job_id_ok (so_JobID oc)" "occ_id_ok (so_ID oc)"
    and times: "occ_times_ok oc" "occ_times_ok oc'"
    and key: "occ_key oc' = occ_key oc" and new: "a_occs (abs s) (occ_key oc) = None"
    and first: "CreateJobOccurrence S s oc = (r, s')"
    and second: "CreateJobOccurrence S s' oc' = (r', s'')"
  shows "r = None \<and> r' = Some (ErrOccurrenceExists (so_ID oc)) \<and> abs s'' = abs s'
    \<and> a_occs (abs s'') = (a_occs (abs s))(occ_key oc \<mapsto> oc)"
proof -
  have r: "r = None" using CreateJobOccurrence_ok [OF inv ids times(1)] first new by simp
  then have s': "invar s'" "a_occs (abs s') = (a_occs (abs s))(occ_key oc \<mapsto> oc)"
    using CreateJobOccurrence_law [OF inv ids first] by (simp_all add: create_spec_def)
  have ids': "job_id_ok (so_JobID oc')" "occ_id_ok (so_ID oc')" using ids key by auto
  have r': "r' = Some (ErrOccurrenceExists (so_ID oc))"
    using CreateJobOccurrence_ok [OF s'(1) ids' times(2)] second s'(2) key by simp
  then have s'': "abs s'' = (abs s')\<lparr>a_occs := a_occs (abs s'')\<rparr>" "a_occs (abs s'') = a_occs (abs s')"
    using CreateJobOccurrence_law [OF s'(1) ids' second] by (auto simp: create_spec_def)
  have "abs s'' = (abs s')\<lparr>a_occs := a_occs (abs s')\<rparr>" using s''(1) unfolding s''(2) .
  then show ?thesis using r r' s'(2) s''(2) by simp
qed

end

text \<open>
  C5. The BadgerDB storage implements the storage contract, for any database that behaves as BadgerDB
  documents, even one whose operations fail: every method keeps the invariant of the key space and
  acts on the five maps of records as its contract says; a method that fails changes nothing.
\<close>

theorem badger_implements_storage:
  assumes "badger_db B contents"
  shows "storage (BadgerStorage B) (\<lambda>s. abs_of (contents s)) (\<lambda>s. keys_ok (contents s))"
  using assms by (rule badger_db.implements_storage)

theorem badger_implements_storage_witness:
  "storage (BadgerStorage mem_db) (\<lambda>s. abs_of (map_of s)) (\<lambda>s. keys_ok (map_of s))"
  using badger_implements_storage mem.badger_db_axioms .



definition sample_occ :: "string \<Rightarrow> StoredOccurrence" where
  "sample_occ node =
     \<lparr>so_ID = ''occ_123456789012345678901234567890123456'', so_JobID = ''job_1'', so_JobVersion = 1,
      so_ScheduledTime = 0, so_Status = JobStatusPending, so_OwningNodeID = node,
      so_StartTime = None, so_EndTime = None, so_Config = None, so_IsRecoveryRun = False,
      so_CreatedAt = 0, so_UpdatedAt = 0\<rparr>"

lemma sample_occ_ok:
  "job_id_ok (so_JobID (sample_occ n))" "occ_id_ok (so_ID (sample_occ n))"
  "occ_times_ok (sample_occ n)" "occ_key (sample_occ m) = occ_key (sample_occ n)"
  by (code_simp, code_simp, simp add: sample_occ_def occ_times_ok_def opt_year_ok_def, code_simp, simp add: sample_occ_def)

lemma empty_store: "keys_ok (map_of [])" "a_occs (abs_of (map_of [])) k = None"
  by (simp add: keys_ok_def, cases k, simp add: abs_of_def decode_def)

text \<open>
  The race to create an occurrence has one winner. When two nodes create the record of the same
  occurrence, in either order, the first succeeds, the second gets the error that the occurrence
  exists and changes nothing, and the store holds the first node's record.
\<close>

theorem occurrence_created_once:
  assumes "badger_db_reliable B contents" "keys_ok (contents s)"
    and "job_id_ok (so_JobID oc)" "occ_id_ok (so_ID oc)" "occ_times_ok oc" "occ_times_ok oc'"
    and "occ_key oc' = occ_key oc" "a_occs (abs_of (contents s)) (occ_key oc) = None"
    and "BadgerStorage_CreateJobOccurrence B s oc = (r, s')"
    and "BadgerStorage_CreateJobOccurrence B s' oc' = (r', s'')"
  shows "r = None \<and> r' = Some (ErrOccurrenceExists (so_ID oc))
    \<and> abs_of (contents s'') = abs_of (contents s')
    \<and> a_occs (abs_of (contents s'')) = (a_occs (abs_of (contents s)))(occ_key oc \<mapsto> oc)"
  by (rule reliable_storage.create_once [OF badger_db_reliable.implements_reliable_storage [OF assms(1)],
      unfolded BadgerStorage_select, OF assms(2-)])

theorem occurrence_created_once_witness:
  "fst (BadgerStorage_CreateJobOccurrence mem_db
      (snd (BadgerStorage_CreateJobOccurrence mem_db [] (sample_occ ''a''))) (sample_occ ''b''))
     = Some (ErrOccurrenceExists (so_ID (sample_occ ''a'')))"
proof -
  obtain r s' where one: "BadgerStorage_CreateJobOccurrence mem_db [] (sample_occ ''a'') = (r, s')"
    by (cases "BadgerStorage_CreateJobOccurrence mem_db [] (sample_occ ''a'')")
  obtain r' s'' where two: "BadgerStorage_CreateJobOccurrence mem_db s' (sample_occ ''b'') = (r', s'')"
    by (cases "BadgerStorage_CreateJobOccurrence mem_db s' (sample_occ ''b'')")
  have "r' = Some (ErrOccurrenceExists (so_ID (sample_occ ''a'')))"
    by (rule occurrence_created_once [OF mem.badger_db_reliable_axioms empty_store(1)
      sample_occ_ok(1,2,3,3,4) empty_store(2) one two, THEN conjunct2, THEN conjunct1])
  then show ?thesis unfolding one snd_conv two fst_conv .
qed

end
