(* ===== verification/ExecutorProperties.thy ===== *)
theory ExecutorProperties
  imports ExecutorStore StorageProperties
begin

text \<open>
  The execution of one occurrence from the first status update to the last, and the properties of
  the executor, with witnesses on the in-memory database.
\<close>

subsection \<open>Only the identifier of the occurrence matters for the records\<close>

lemma same_id:
  assumes "jo_ID oc' = jo_ID oc"
  shows "run_id E oc' = run_id E oc" "attempt_id E oc' = attempt_id E oc" "fn_result E oc' = fn_result E oc"
proof -
  show r: "run_id E oc' = run_id E oc" using assms by (simp add: run_id_def fun_eq_iff)
  show a: "attempt_id E oc' = attempt_id E oc" using r by (simp add: attempt_id_def fun_eq_iff)
  show "fn_result E oc' = fn_result E oc" using r a assms by (simp add: fn_result_def fun_eq_iff)
qed

lemma same_id_records:
  assumes "jo_ID oc' = jo_ID oc"
  shows "ids_apart E job oc' = ids_apart E job oc"
    "routine_stored E job oc' (G_Start t) a = routine_stored E job oc (G_Start t) a"
    "report_ok E job oc' t rep = report_ok E job oc t rep" "stored_ok E oc' t rep a = stored_ok E oc t rep a"
  using same_id [OF assms, of E] assms
  by (simp_all add: ids_apart_def fresh_attempts_def report_ok_def attempt_ok_def stored_ok_def
      stored_run_def stored_attempts_def stored_attempt_def)

subsection \<open>The status updates\<close>

definition storage_occ :: "JobOccurrence \<Rightarrow> instant \<Rightarrow> StoredOccurrence" where
  "storage_occ oc t =
     \<lparr>so_ID = jo_ID oc, so_JobID = jo_JobID oc, so_JobVersion = jo_JobVersion oc,
      so_ScheduledTime = jo_ScheduledTime oc, so_Status = jo_Status oc,
      so_OwningNodeID = jo_OwningNodeID oc, so_StartTime = jo_StartTime oc,
      so_EndTime = jo_EndTime oc, so_Config = None, so_IsRecoveryRun = jo_IsRecoveryRun oc,
      so_CreatedAt = jo_CreatedAt oc, so_UpdatedAt = t\<rparr>"

lemma updateOccurrenceStatus_eq:
  "updateOccurrenceStatus E e oc w =
     (let res = UpdateJobOccurrence (ex_store e) (w_store w) (Now E (Suc (w_clock w)))
                  (storage_occ oc (Now E (w_clock w)))
      in (fst res, w\<lparr>w_clock := Suc (Suc (w_clock w)), w_store := snd res\<rparr>))"
  by (simp add: updateOccurrenceStatus_def storage_occ_def time_Now_def Let_def split: prod.splits)

definition occurrence_times_ok :: "JobOccurrence \<Rightarrow> bool" where
  "occurrence_times_ok oc \<longleftrightarrow> year_ok (jo_ScheduledTime oc) \<and> year_ok (jo_CreatedAt oc)
     \<and> opt_year_ok (jo_StartTime oc) \<and> opt_year_ok (jo_EndTime oc)"

abbreviation joc_key :: "JobOccurrence \<Rightarrow> string \<times> string" where
  "joc_key oc \<equiv> (jo_JobID oc, jo_ID oc)"

context reliable_storage
begin

lemma updateOccurrenceStatus_ok:
  assumes e: "ex_store e = S" and clk: "clock_ok E" and inv: "invar (w_store w)"
    and ids: "job_id_ok (jo_JobID oc)" "occ_id_ok (jo_ID oc)" and t: "occurrence_times_ok oc"
    and ex: "a_occs (abs (w_store w)) (joc_key oc) \<noteq> None"
    and u: "updateOccurrenceStatus E e oc w = (r, w')"
  shows "r = None" "invar (w_store w')" "w_hooks w' = w_hooks w"
    "abs (w_store w') = (abs (w_store w))\<lparr>a_occs := (a_occs (abs (w_store w)))
       (joc_key oc \<mapsto> storage_occ oc (Now E (Suc (w_clock w))))\<rparr>"
    "w_metrics w' = w_metrics w" "w_clock w' = Suc (Suc (w_clock w))"
proof -
  let ?rec = "storage_occ oc (Now E (w_clock w))" and ?now = "Now E (Suc (w_clock w))"
  obtain err s' where c: "UpdateJobOccurrence S (w_store w) ?now ?rec = (err, s')"
    by (cases "UpdateJobOccurrence S (w_store w) ?now ?rec")
  have id: "job_id_ok (so_JobID ?rec)" "occ_id_ok (so_ID ?rec)" "occ_key ?rec = joc_key oc"
    using ids by (simp_all add: storage_occ_def)
  have "occ_times_ok (?rec\<lparr>so_UpdatedAt := ?now\<rparr>)"
    using t clk by (simp add: storage_occ_def occ_times_ok_def occurrence_times_ok_def clock_ok_def)
  then have none: "err = None"
    using UpdateJobOccurrence_ok [OF inv id(1,2), of ?now] c ex id(3) by simp
  have up: "?rec\<lparr>so_UpdatedAt := ?now\<rparr> = storage_occ oc ?now" by (simp add: storage_occ_def)
  have w': "r = err" "w' = w\<lparr>w_clock := Suc (Suc (w_clock w)), w_store := s'\<rparr>"
    using u c e by (auto simp: updateOccurrenceStatus_eq Let_def)
  from UpdateJobOccurrence_law [OF inv id(1,2) c] none id(3) up
  have law: "invar s'" "abs s' = (abs (w_store w))\<lparr>a_occs := a_occs (abs s')\<rparr>"
    "a_occs (abs s') = (a_occs (abs (w_store w)))(joc_key oc \<mapsto> storage_occ oc ?now)"
    by (auto simp: update_spec_def)
  show "r = None" "invar (w_store w')" "w_hooks w' = w_hooks w" "w_metrics w' = w_metrics w"
    "w_clock w' = Suc (Suc (w_clock w))"
    using w' none law(1) by simp_all
  have "abs s' = (abs (w_store w))\<lparr>a_occs := (a_occs (abs (w_store w)))
       (joc_key oc \<mapsto> storage_occ oc ?now)\<rparr>"
    by (subst law(2), subst law(3)) (rule refl)
  then show "abs (w_store w') = (abs (w_store w))\<lparr>a_occs := (a_occs (abs (w_store w)))
       (joc_key oc \<mapsto> storage_occ oc ?now)\<rparr>"
    by (simp add: w'(2))
qed

end

subsection \<open>The hooks are called by nothing else\<close>

lemma finishRun_hooks: "w_hooks (finishRun E e run w) = w_hooks w"
  by (simp add: finishRun_def time_Now_def Let_def split: prod.splits)

lemma endAttempt_hooks: "w_hooks (snd (endAttempt E e job task run cfg att w)) = w_hooks w"
  by (simp add: endAttempt_def time_Now_def look_at_ctx_def Let_def split: prod.splits option.splits)

lemma taskStep_hooks: "w_hooks (snd (taskStep E e job oc r w)) = w_hooks w"
proof (cases r)
  case (G_Attempted task run n rep ar)
  then show ?thesis
    by (auto simp: afterAttempt_def look_at_ctx_def finishRun_hooks Let_def
        split: option.splits prod.splits round.splits if_splits)
next
  case (G_Running task run n rep att)
  then show ?thesis using endAttempt_hooks [of E e job task run "GetEffectiveConfig job task" att w]
    by (auto split: prod.splits)
qed (auto simp: startTask_def beginAttempt_def failTask_def finishRun_hooks time_Now_def Let_def
      split: prod.splits option.splits)

lemma executeTask_hooks: "executeTask E e job task oc w = Some (rep, w') \<Longrightarrow> w_hooks w' = w_hooks w"
proof -
  assume ex: "executeTask E e job task oc w = Some (rep, w')"
  have steps: "w_hooks (snd ((stepPair E e job oc ^^ k) (r, v))) = w_hooks v" for k r and v
    by (induction k) (simp_all add: stepPair_def taskStep_hooks)
  obtain k where "(stepPair E e job oc ^^ k) (G_Start task, w) = (G_Report task rep, w')"
    using executeTask_steps [where E = E and e = e and job = job and oc = oc and task = task and w = w]
      ex by auto
  then show "w_hooks w' = w_hooks w" using steps [of k "G_Start task" w] by simp
qed

lemma sequentialLoop_hooks:
  "sequentialLoop E e job oc tasks report w = Some (rep, err, w') \<Longrightarrow> w_hooks w' = w_hooks w"
proof (induction tasks arbitrary: report w)
  case (Cons task tasks)
  obtain tr w1 where t: "executeTask E e job task oc w = Some (tr, w1)"
    using Cons.prems by (auto split: option.splits)
  note h = executeTask_hooks [OF t]
  let ?l = "look_at_ctx E (jc_ExecutionTimeout (j_Config job)) w1"
  have l: "w_hooks (snd ?l) = w_hooks w" using h by (simp add: look_at_ctx_def)
  consider "w' = w1" | "w' = snd ?l"
    | "sequentialLoop E e job oc tasks (AddTaskReport report tr) (snd ?l) = Some (rep, err, w')"
    using Cons.prems t by (auto simp: Let_def split: if_splits option.splits prod.splits)
  then show ?case using h l Cons.IH by cases auto
qed simp

lemma groupStep_hooks: "w_hooks (g_world (groupStep E e job oc i g)) = w_hooks (g_world g)"
  using taskStep_hooks [of E e job oc "g_routines g ! i" "g_world g"]
  by (auto simp: groupStep_def Let_def split: goroutine.splits prod.splits)

lemma runTasks_hooks:
  assumes "runTasks E e job sched oc w = Some (rep, err, w')"
  shows "w_hooks w' = w_hooks w"
proof -
  have g: "w_hooks (g_world (runGroup E e job oc s g)) = w_hooks (g_world g)" for s g
    unfolding runGroup_def by (induction s arbitrary: g) (simp_all add: groupStep_hooks)
  have "w_hooks w' = w_hooks w" if "executeParallel E e job sched oc w = Some (rep, err, w')"
    using that g [of sched "startGroup job oc w"]
    by (auto simp: executeParallel_def finishGroup_def look_at_ctx_def startGroup_def Let_def split: if_splits)
  then show ?thesis
    using assms sequentialLoop_hooks by (auto simp: runTasks_def executeSequential_def split: if_splits)
qed

subsection \<open>One occurrence from start to end\<close>

text \<open>
  What is left behind by an execution of \<open>oc\<close> that ended with the report \<open>rep\<close> and the error \<open>err\<close>,
  as seen in the occurrence \<open>oc'\<close> and the store \<open>a'\<close> afterwards, when the store was \<open>a\<close> before.
\<close>

definition executed ::
  "Env \<Rightarrow> 'tk Job \<Rightarrow> JobOccurrence \<Rightarrow> AStore \<Rightarrow> ExecutionReport \<Rightarrow> error option \<Rightarrow> JobOccurrence \<Rightarrow> AStore \<Rightarrow> bool"
where
  "executed E job oc a rep err oc' a' \<longleftrightarrow>
     jo_ID oc' = jo_ID oc \<and> jo_JobID oc' = jo_JobID oc \<and>
     jo_Status oc' = (if err = None then JobStatusCompleted else JobStatusFailed) \<and>
     jo_StartTime oc' \<noteq> None \<and> jo_EndTime oc' \<noteq> None \<and>
     (\<exists>t. a_occs a' = (a_occs a)(joc_key oc \<mapsto> storage_occ oc' t)) \<and>
     a_jobs a' = a_jobs a \<and> a_tasks a' = a_tasks a \<and>
     (\<exists>ts. mset ts \<subseteq># mset (j_Tasks job) \<and>
        list_all2 (\<lambda>t r. report_ok E job oc t r \<and> stored_ok E oc t r a') ts (er_TaskReports rep))"

lemma ExecuteJobOccurrence_eq:
  assumes "updateOccurrenceStatus E e (oc\<lparr>jo_Status := JobStatusRunning, jo_StartTime := Some (Now E (w_clock w))\<rparr>)
      (w\<lparr>w_clock := Suc (w_clock w)\<rparr>) = (None, w1)"
    and "runTasks E e job sched (oc\<lparr>jo_Status := JobStatusRunning, jo_StartTime := Some (Now E (w_clock w))\<rparr>)
      (if j_OnStart job then w1\<lparr>w_hooks := w_hooks w1 @
         [OnStart (oc\<lparr>jo_Status := JobStatusRunning, jo_StartTime := Some (Now E (w_clock w))\<rparr>)]\<rparr> else w1)
      = Some (rep, err, w2)"
    and "updateOccurrenceStatus E e (oc\<lparr>jo_StartTime := Some (Now E (w_clock w)), jo_EndTime := Some (Now E (w_clock w2)),
        jo_Status := (if err = None then JobStatusCompleted else JobStatusFailed)\<rparr>)
      (w2\<lparr>w_clock := Suc (w_clock w2)\<rparr>) = (r, w3)"
    and "m = IncJobOccurrences (ex_metrics e)
        (ObserveJobDuration (ex_metrics e) (w_metrics w3) (j_Name job)
           (sub_instant (Now E (w_clock w2)) (Now E (w_clock w))))
        (j_Name job) (if err = None then JobStatusCompleted else JobStatusFailed)"
  shows "ExecuteJobOccurrence E e job sched oc w =
    Some (Some rep, err, oc\<lparr>jo_StartTime := Some (Now E (w_clock w)), jo_EndTime := Some (Now E (w_clock w2)),
        jo_Status := (if err = None then JobStatusCompleted else JobStatusFailed)\<rparr>,
      if j_OnComplete job then w3\<lparr>w_metrics := m, w_hooks := w_hooks w3 @ [OnComplete rep]\<rparr>
      else w3\<lparr>w_metrics := m\<rparr>)"
  using assms by (auto simp: ExecuteJobOccurrence_def time_Now_def Let_def)

context reliable_storage
begin

lemma ExecuteJobOccurrence_ok:
  assumes e: "ex_store e = S" "uuid_text (NewSHA1 E)" and clk: "clock_ok E" and apart: "ids_apart E job oc"
    and inv: "invar (w_store w)" and ids: "job_id_ok (jo_JobID oc)" "occ_id_ok (jo_ID oc)"
    and t: "occurrence_times_ok oc" and ex: "a_occs (abs (w_store w)) (joc_key oc) \<noteq> None"
    and fresh: "\<forall>t \<in> set (j_Tasks job). routine_stored E job oc (G_Start t) (abs (w_store w))"
    and run: "ExecuteJobOccurrence E e job sched oc w = Some (r, err, oc', w')"
  shows "invar (w_store w') \<and> (\<exists>rep. r = Some rep
    \<and> executed E job oc (abs (w_store w)) rep err oc' (abs (w_store w'))
    \<and> w_hooks w' = w_hooks w
        @ (if j_OnStart job then [OnStart (oc\<lparr>jo_Status := JobStatusRunning,
             jo_StartTime := Some (Now E (w_clock w))\<rparr>)] else [])
        @ (if j_OnComplete job then [OnComplete rep] else []))"
proof -
  let ?oc1 = "oc\<lparr>jo_Status := JobStatusRunning, jo_StartTime := Some (Now E (w_clock w))\<rparr>"
  let ?w0 = "w\<lparr>w_clock := Suc (w_clock w)\<rparr>"
  obtain r1 w1 where u1: "updateOccurrenceStatus E e ?oc1 ?w0 = (r1, w1)"
    by (cases "updateOccurrenceStatus E e ?oc1 ?w0")
  have "occurrence_times_ok ?oc1"
    using t clk by (simp add: occurrence_times_ok_def opt_year_ok_def clock_ok_def)
  note o1 = updateOccurrenceStatus_ok [where oc = "?oc1" and w = "?w0", simplified, OF e(1) clk inv ids this ex [unfolded not_None_eq] u1]
  let ?v = "if j_OnStart job then w1\<lparr>w_hooks := w_hooks w1 @ [OnStart ?oc1]\<rparr> else w1"
  have v: "w_store ?v = w_store w1" "w_hooks ?v = w_hooks w @ (if j_OnStart job then [OnStart ?oc1] else [])"
    using o1(3) by simp_all
  obtain rep err2 w2 where rt: "runTasks E e job sched ?oc1 ?v = Some (rep, err2, w2)"
    using run u1 o1(1) by (auto simp: ExecuteJobOccurrence_def time_Now_def Let_def split: option.splits)
  have id1: "jo_ID ?oc1 = jo_ID oc" by simp
  have inv1: "invar (w_store ?v)" using o1(2) v(1) by simp
  have fresh1: "\<forall>t \<in> set (j_Tasks job). routine_stored E job ?oc1 (G_Start t) (abs (w_store ?v))"
    using fresh unfolding same_id_records(2) [OF id1] v(1) o1(4) by (simp add: fresh_attempts_def)
  note fr = runTasks_frame [OF e inv1 rt]
  obtain ts where ts: "mset ts \<subseteq># mset (j_Tasks job)"
    "list_all2 (\<lambda>t r. report_ok E job ?oc1 t r \<and> stored_ok E ?oc1 t r (abs (w_store w2))) ts (er_TaskReports rep)"
    using runTasks_stored [OF e clk _ inv1 fresh1 rt] apart same_id_records(1) [OF id1] by blast
  let ?oc2 = "oc\<lparr>jo_StartTime := Some (Now E (w_clock w)), jo_EndTime := Some (Now E (w_clock w2)),
        jo_Status := (if err2 = None then JobStatusCompleted else JobStatusFailed)\<rparr>"
  let ?w2 = "w2\<lparr>w_clock := Suc (w_clock w2)\<rparr>"
  obtain r3 w3 where u3: "updateOccurrenceStatus E e ?oc2 ?w2 = (r3, w3)"
    by (cases "updateOccurrenceStatus E e ?oc2 ?w2")
  have t2: "occurrence_times_ok ?oc2"
    using t clk by (simp add: occurrence_times_ok_def opt_year_ok_def clock_ok_def)
  have occs: "a_occs (abs (w_store w2)) = (a_occs (abs (w_store w)))(joc_key oc \<mapsto> storage_occ ?oc1 (Now E (Suc (Suc (w_clock w)))))"
    "a_jobs (abs (w_store w2)) = a_jobs (abs (w_store w))" "a_tasks (abs (w_store w2)) = a_tasks (abs (w_store w))"
    using fr v(1) o1(4) by (simp_all add: task_frame_def)
  then have ex2: "a_occs (abs (w_store w2)) (joc_key oc) \<noteq> None" by simp
  note o3 = updateOccurrenceStatus_ok [where oc = "?oc2" and w = "?w2", simplified, OF e(1) clk _ ids _ ex2 [unfolded not_None_eq] u3]
  have o3': "invar (w_store w3)" "w_hooks w3 = w_hooks w2"
    "abs (w_store w3) = (abs (w_store w2))\<lparr>a_occs := (a_occs (abs (w_store w2)))
       (joc_key oc \<mapsto> storage_occ ?oc2 (Now E (Suc (Suc (w_clock w2)))))\<rparr>"
    using o3(2-4) fr t2 by simp_all
  obtain m where ex_eq: "ExecuteJobOccurrence E e job sched oc w = Some (Some rep, err2, ?oc2,
      if j_OnComplete job then w3\<lparr>w_metrics := m, w_hooks := w_hooks w3 @ [OnComplete rep]\<rparr>
      else w3\<lparr>w_metrics := m\<rparr>)"
    using ExecuteJobOccurrence_eq [OF _ rt u3 refl] u1 o1(1) by blast
  have eqs: "r = Some rep" "err = err2" "oc' = ?oc2" "w_store w' = w_store w3"
    "w_hooks w' = w_hooks w3 @ (if j_OnComplete job then [OnComplete rep] else [])"
    using run ex_eq by auto
  have "list_all2 (\<lambda>t r. report_ok E job oc t r \<and> stored_ok E oc t r (abs (w_store w3))) ts (er_TaskReports rep)"
    using ts(2) unfolding same_id_records(3,4) [OF id1] o3'(3)
    by (simp add: stored_ok_def stored_run_def stored_attempts_def)
  moreover have "a_occs (abs (w_store w3)) = (a_occs (abs (w_store w)))(joc_key oc \<mapsto>
      storage_occ ?oc2 (Now E (Suc (Suc (w_clock w2)))))"
    using o3'(3) occs(1) by simp
  moreover have "a_jobs (abs (w_store w3)) = a_jobs (abs (w_store w))" "a_tasks (abs (w_store w3)) = a_tasks (abs (w_store w))"
    using o3'(3) occs(2,3) by simp_all
  ultimately have "executed E job oc (abs (w_store w)) rep err2 ?oc2 (abs (w_store w3))"
    using ts(1) unfolding executed_def by (simp, blast)
  moreover have "w_hooks w2 = w_hooks ?v" by (rule runTasks_hooks [OF rt])
  ultimately show ?thesis using eqs o3'(1,2) v(2) by simp
qed

end

subsection \<open>Returning, and the waits between attempts\<close>

lemma ExecuteJobOccurrence_returns:
  assumes "jc_TaskExecutionMode (j_Config job) \<noteq> TaskExecutionModeParallel"
    "\<forall>task \<in> set (j_Tasks job). 0 \<le> max_retries job task"
  shows "ExecuteJobOccurrence E e job sched oc w \<noteq> None"
proof -
  have "runTasks E e job sched oc' v \<noteq> None" for oc' and v
    using sequentialLoop_returns [OF assms(2)] assms(1) by (simp add: runTasks_def executeSequential_def)
  then show ?thesis
    by (simp add: ExecuteJobOccurrence_def time_Now_def Let_def del: not_None_eq
        split: option.splits prod.splits)
qed

lemma finishRun_waits: "w_waits (finishRun E e run w) = w_waits w"
  by (simp add: finishRun_def time_Now_def Let_def split: prod.splits)

lemma executeAttempt_waits: "w_waits (snd (executeAttempt E e job task run n cfg w)) = w_waits w"
  by (simp add: executeAttempt_def beginAttempt_def endAttempt_def time_Now_def look_at_ctx_def Let_def
      split: prod.splits option.splits)

lemma retryLoop_length:
  assumes "retryLoop E e job task run cfg policy n rep lastErr w = Some (rep', w')"
  shows "length (rp_Attempts rep) + (if n \<le> MaxRetries policy then 1 else 0) \<le> length (rp_Attempts rep')"
  using assms
proof (induction "nat (MaxRetries policy + 1 - n)" arbitrary: n rep lastErr w)
  case 0
  then have "\<not> n \<le> MaxRetries policy" by simp
  then show ?case using 0
    by (auto simp: retryLoop.simps [of _ _ _ _ _ _ _ n] failTask_def split: option.splits)
next
  case (Suc m)
  then have n: "n \<le> MaxRetries policy" and m: "m = nat (MaxRetries policy + 1 - (n + 1))" by simp_all
  obtain ar w1 where a: "executeAttempt E e job task run n cfg w = (ar, w1)"
    by (cases "executeAttempt E e job task run n cfg w")
  obtain rd w2 where af: "afterAttempt E e job run policy n rep ar w1 = (rd, w2)"
    by (cases "afterAttempt E e job run policy n rep ar w1")
  note loop = Suc.prems(1) [unfolded retryLoop.simps [of _ _ _ _ _ _ _ n]]
  show ?case
  proof (cases rd)
    case (Finished r)
    then show ?thesis using loop n a af afterAttempt_fields(1) [of E e job run policy n rep ar w1] by auto
  next
    case (Retry r msg)
    then have "length (rp_Attempts r) = Suc (length (rp_Attempts rep))"
      using afterAttempt_fields(2) af by fastforce
    moreover have "retryLoop E e job task run cfg policy (n + 1) r (Some msg) w2 = Some (rep', w')"
      using loop n a af Retry by simp
    ultimately show ?thesis using Suc.hyps(1) [OF m] n by fastforce
  qed
qed

text \<open>The waits of \<open>m\<close> rounds of the loop that begin with attempt \<open>n\<close>.\<close>

lemma retryLoop_waits:
  assumes "retryLoop E e job task run cfg policy n rep lastErr w = Some (rep', w')"
    and "n = int (length (rp_Attempts rep))"
  shows "w_waits w' = w_waits w @ map (\<lambda>i. backoff E policy (int i))
    [length (rp_Attempts rep) ..<
      (if rp_FinalStatus rep' = TaskStatusCanceled then length (rp_Attempts rep')
       else length (rp_Attempts rep') - 1)]"
  using assms
proof (induction "nat (MaxRetries policy + 1 - n)" arbitrary: n rep lastErr w)
  case 0
  then have "\<not> n \<le> MaxRetries policy" by simp
  then have "rp_Attempts rep' = rp_Attempts rep" "w_waits w' = w_waits w"
    "rp_FinalStatus rep' \<noteq> TaskStatusCanceled"
    using 0(2) by (auto simp: retryLoop.simps [of _ _ _ _ _ _ _ n] failTask_def finishRun_waits split: option.splits)
  then show ?case by simp
next
  case (Suc m)
  then have n: "n \<le> MaxRetries policy" and m: "m = nat (MaxRetries policy + 1 - (n + 1))" by simp_all
  obtain ar w1 where a: "executeAttempt E e job task run n cfg w = (ar, w1)"
    by (cases "executeAttempt E e job task run n cfg w")
  have w1: "w_waits w1 = w_waits w" using executeAttempt_waits [of E e job task run n cfg w] a by simp
  obtain rd w2 where af: "afterAttempt E e job run policy n rep ar w1 = (rd, w2)"
    by (cases "afterAttempt E e job run policy n rep ar w1")
  let ?k = "length (rp_Attempts rep)"
  note loop = Suc.prems(1) [unfolded retryLoop.simps [of _ _ _ _ _ _ _ n]]
  show ?case
  proof (cases rd)
    case (Finished r)
    then have "rep' = r" "w' = w2" using loop n a af by simp_all
    then show ?thesis using af Finished w1 Suc.prems(2)
      by (auto simp: afterAttempt_def look_at_ctx_def finishRun_waits Let_def split: if_splits option.splits)
  next
    case (Retry r msg)
    have len: "length (rp_Attempts r) = Suc ?k" using afterAttempt_fields(2) af Retry by fastforce
    have rec: "retryLoop E e job task run cfg policy (n + 1) r (Some msg) w2 = Some (rep', w')"
      using loop n a af Retry by simp
    have ih: "w_waits w' = w_waits w2 @ map (\<lambda>i. backoff E policy (int i)) [length (rp_Attempts r) ..<
        (if rp_FinalStatus rep' = TaskStatusCanceled then length (rp_Attempts rep')
         else length (rp_Attempts rep') - 1)]"
      using Suc.hyps(1) [OF m rec] len Suc.prems(2) by simp
    show ?thesis
    proof (cases "n < MaxRetries policy")
      case True
      then have "w_waits w2 = w_waits w @ [backoff E policy n]"
        using af Retry w1 by (auto simp: afterAttempt_def look_at_ctx_def Let_def split: if_splits option.splits)
      moreover have "Suc ?k \<le> length (rp_Attempts rep') - 1"
        using retryLoop_length [OF rec] True len by simp
      ultimately show ?thesis using ih len Suc.prems(2) by (simp add: upt_conv_Cons)
    next
      case False
      then have "w_waits w2 = w_waits w"
        using af Retry w1 by (auto simp: afterAttempt_def look_at_ctx_def Let_def split: if_splits option.splits)
      moreover have "rp_Attempts rep' = rp_Attempts r" "rp_FinalStatus rep' \<noteq> TaskStatusCanceled"
        using rec False n by (auto simp: retryLoop.simps [of _ _ _ _ _ _ _ "n + 1"] failTask_def)
      ultimately show ?thesis using ih len by simp
    qed
  qed
qed

subsection \<open>A small concrete system\<close>

definition sample_env :: Env where
  "sample_env = \<lparr>Now = (\<lambda>n. 0), ctx_Err = (\<lambda>d c n. None), NewSHA1 = sample_uuid, OutOfRange = (\<lambda>q. 0)\<rparr>"

definition sample_task :: "string \<Rightarrow> Task" where
  "sample_task n =
     \<lparr>t_ID = ''task_'' @ n, t_Name = n,
      t_Config = \<lparr>tc_FailureStrategy = None,
        tc_RetryPolicy = Some \<lparr>MaxRetries = 1, RetryInterval = 1, BackoffFactor = 2\<rparr>,
        tc_TaskTimeout = None\<rparr>,
      t_Order = 0, t_Fn = (\<lambda>c. Some ''boom'')\<rparr>"

definition sample_job :: "TaskExecutionMode \<Rightarrow> unit Job" where
  "sample_job mode =
     \<lparr>j_ID = ''job_1'', j_Name = ''nightly'',
      j_Config = \<lparr>jc_TaskExecutionMode = mode, jc_FailureStrategy = FailureStrategyFailFast,
        jc_ExecutionTimeout = word_of_int Hour, jc_OverlapPolicy = OverlapPolicySkip,
        jc_RecoveryStrategy = RecoveryStrategyExecuteAll, jc_BoundedWindow = None,
        jc_TaskConfig = \<lparr>tc_FailureStrategy = None, tc_RetryPolicy = None, tc_TaskTimeout = None\<rparr>\<rparr>,
      j_Ticker = (), j_Tasks = [sample_task ''a'', sample_task ''b''], j_Version = 1, j_Active = True,
      j_Paused = False, j_OnStart = True, j_OnComplete = True\<rparr>"

definition sample_joc :: JobOccurrence where
  "sample_joc =
     \<lparr>jo_ID = ''occ_123456789012345678901234567890123456'', jo_JobID = ''job_1'', jo_JobVersion = 1,
      jo_ScheduledTime = 0, jo_Status = JobStatusPending, jo_OwningNodeID = '''',
      jo_StartTime = None, jo_EndTime = None, jo_Config = j_Config (sample_job ''''),
      jo_IsRecoveryRun = False, jo_CreatedAt = 0, jo_UpdatedAt = 0\<rparr>"

definition sample_executor :: "(mem, unit) Executor" where
  "sample_executor = NewExecutor mem_storage"

definition sample_world :: "(mem, unit) World" where
  "sample_world =
     \<lparr>w_store = snd (BadgerStorage_CreateJobOccurrence mem_db [] (sample_occ ''a'')),
      w_metrics = (), w_clock = 0, w_polls = 0, w_canceled = False, w_waits = [], w_hooks = []\<rparr>"

lemma sample_max_retries: "max_retries (sample_job mode) (sample_task n) = 1"
  by (simp add: sample_job_def sample_task_def GetEffectiveConfig_def effectivePolicy_def Let_def)

lemma sample_mode: "jc_TaskExecutionMode (j_Config (sample_job mode)) = mode"
  by (simp add: sample_job_def)

lemma sample_tasks: "j_Tasks (sample_job mode) = [sample_task ''a'', sample_task ''b'']"
  by (simp add: sample_job_def)

lemma sample_env_ok: "uuid_text (NewSHA1 sample_env)" "clock_ok sample_env"
proof -
  have "year_ok 0" by code_simp
  then show "uuid_text (NewSHA1 sample_env)" "clock_ok sample_env"
    using sample_uuid_text by (simp_all add: sample_env_def clock_ok_def)
qed

lemma sample_attempts_distinct:
  "distinct [attempt_id sample_env sample_joc (sample_task ''a'') 0, attempt_id sample_env sample_joc (sample_task ''a'') 1,
     attempt_id sample_env sample_joc (sample_task ''b'') 0, attempt_id sample_env sample_joc (sample_task ''b'') 1]"
  by code_simp

lemma sample_ids_apart: "ids_apart sample_env (sample_job mode) sample_joc"
proof -
  have runs: "distinct (map (run_id sample_env sample_joc) [sample_task ''a'', sample_task ''b''])" by code_simp
  have ab: "sample_task ''a'' \<noteq> sample_task ''b''" by (simp add: sample_task_def)
  have small: "i \<le> Suc 0 \<longleftrightarrow> i = 0 \<or> i = Suc 0" for i by auto
  note d = sample_attempts_distinct [unfolded distinct.simps list.set insert_iff empty_iff]
  show ?thesis
    unfolding ids_apart_def sample_tasks
    using runs d by (auto simp: small sample_max_retries)
qed

lemma sample_store:
  "keys_ok (map_of (w_store sample_world))"
  "a_occs (abs_of (map_of (w_store sample_world))) (joc_key sample_joc) \<noteq> None"
  "a_runs (abs_of (map_of (w_store sample_world))) = Map.empty"
  "a_attempts (abs_of (map_of (w_store sample_world))) = Map.empty"
proof -
  let ?o = "sample_occ ''a''" and ?s = "w_store sample_world"
  obtain r s' where c: "CreateJobOccurrence mem_storage [] ?o = (r, s')"
    by (cases "CreateJobOccurrence mem_storage [] ?o")
  have s': "s' = ?s" using c by (simp add: sample_world_def BadgerStorage_select)
  have "r = None"
    using mem.CreateJobOccurrence_ok [OF empty_store(1) sample_occ_ok(1,2,3), of "''a''"] c empty_store(2) by simp
  with mem.CreateJobOccurrence_law [OF empty_store(1) sample_occ_ok(1,2) c] s'
  have law: "keys_ok (map_of ?s)" "abs_of (map_of ?s) = (abs_of (map_of []))\<lparr>a_occs := a_occs (abs_of (map_of ?s))\<rparr>"
    "a_occs (abs_of (map_of ?s)) = (a_occs (abs_of (map_of [])))(occ_key ?o \<mapsto> ?o)"
    by (auto simp: create_spec_def)
  have key: "joc_key sample_joc = occ_key ?o" by (simp add: sample_joc_def sample_occ_def)
  show "keys_ok (map_of ?s)" by (rule law(1))
  show "a_occs (abs_of (map_of ?s)) (joc_key sample_joc) \<noteq> None" unfolding law(3) key by simp
  show "a_runs (abs_of (map_of ?s)) = Map.empty"
    by (subst law(2)) (simp add: abs_of_def decode_def fun_eq_iff)
  show "a_attempts (abs_of (map_of ?s)) = Map.empty"
    by (subst law(2)) (simp add: abs_of_def decode_def fun_eq_iff)
qed

lemma sample_fresh:
  "\<forall>t \<in> set (j_Tasks (sample_job mode)).
     routine_stored sample_env (sample_job mode) sample_joc (G_Start t) (abs_of (map_of (w_store sample_world)))"
  by (simp add: sample_store fresh_attempts_def)

lemma sample_joc_ok:
  "job_id_ok (jo_JobID sample_joc)" "occ_id_ok (jo_ID sample_joc)" "occurrence_times_ok sample_joc"
proof -
  have "year_ok 0" by code_simp
  then show "job_id_ok (jo_JobID sample_joc)" "occ_id_ok (jo_ID sample_joc)" "occurrence_times_ok sample_joc"
    using sample_occ_ok(1,2) [of "''a''"]
    by (simp_all add: sample_joc_def sample_occ_def occurrence_times_ok_def opt_year_ok_def)
qed

subsection \<open>Properties\<close>

text \<open>
  C3. Executing an occurrence on the BadgerDB storage records what happened. When the occurrence is
  stored and none of its runs is, the execution ends with the status Completed exactly if it returns
  no error, and Failed otherwise; the stored occurrence carries that status with the start and the
  end time, no other occurrence, job or task record changes; and for each reported task the stored
  run and the stored attempts agree with the report, in both execution modes and for every
  interleaving of parallel tasks. The hooks are called once each, before and after the tasks.
\<close>

theorem execution_recorded:
  assumes "badger_db_reliable B contents" "ex_store e = BadgerStorage B" "uuid_text (NewSHA1 E)" "clock_ok E"
    and "ids_apart E job oc" "keys_ok (contents (w_store w))" "job_id_ok (jo_JobID oc)" "occ_id_ok (jo_ID oc)"
    and "occurrence_times_ok oc" "a_occs (abs_of (contents (w_store w))) (joc_key oc) \<noteq> None"
    and "\<forall>t \<in> set (j_Tasks job). routine_stored E job oc (G_Start t) (abs_of (contents (w_store w)))"
    and "ExecuteJobOccurrence E e job sched oc w = Some (r, err, oc', w')"
  shows "keys_ok (contents (w_store w')) \<and> (\<exists>rep. r = Some rep
    \<and> executed E job oc (abs_of (contents (w_store w))) rep err oc' (abs_of (contents (w_store w')))
    \<and> w_hooks w' = w_hooks w
        @ (if j_OnStart job then [OnStart (oc\<lparr>jo_Status := JobStatusRunning,
             jo_StartTime := Some (Now E (w_clock w))\<rparr>)] else [])
        @ (if j_OnComplete job then [OnComplete rep] else []))"
  by (rule reliable_storage.ExecuteJobOccurrence_ok
      [OF badger_db_reliable.implements_reliable_storage [OF assms(1)] assms(2-)])

theorem execution_recorded_witness:
  "\<exists>rep err oc' w'.
     ExecuteJobOccurrence sample_env sample_executor (sample_job TaskExecutionModeSequential) [] sample_joc
       sample_world = Some (Some rep, err, oc', w')
     \<and> executed sample_env (sample_job TaskExecutionModeSequential) sample_joc
         (abs_of (map_of (w_store sample_world))) rep err oc' (abs_of (map_of (w_store w')))"
proof -
  let ?j = "sample_job TaskExecutionModeSequential"
  have "ExecuteJobOccurrence sample_env sample_executor ?j [] sample_joc sample_world \<noteq> None"
    by (rule ExecuteJobOccurrence_returns) (simp_all add: sample_mode sample_tasks sample_max_retries)
  then obtain r err oc' w' where ex:
    "ExecuteJobOccurrence sample_env sample_executor ?j [] sample_joc sample_world = Some (r, err, oc', w')"
    by auto
  have "ex_store sample_executor = mem_storage" by (simp add: sample_executor_def NewExecutor_def)
  from execution_recorded [OF mem.badger_db_reliable_axioms this sample_env_ok sample_ids_apart sample_store(1)
      sample_joc_ok sample_store(2) sample_fresh ex] ex
  show ?thesis by blast
qed

text \<open>
  C19. On any BadgerDB, even one whose operations fail, running the tasks of an occurrence keeps the
  invariant of the store and touches no record but the runs and attempts of these tasks in this
  occurrence.
\<close>

theorem tasks_touch_own_records:
  assumes "badger_db B contents" "ex_store e = BadgerStorage B" "uuid_text (NewSHA1 E)"
    and "keys_ok (contents (w_store w))" "runTasks E e job sched oc w = Some (rep, err, w')"
  shows "keys_ok (contents (w_store w')) \<and>
    task_frame E job oc (set (j_Tasks job)) (abs_of (contents (w_store w))) (abs_of (contents (w_store w')))"
  by (rule storage.runTasks_frame [OF badger_db.implements_storage [OF assms(1)] assms(2-)])

theorem tasks_touch_own_records_witness:
  "\<exists>rep err w'. runTasks sample_env sample_executor (sample_job TaskExecutionModeSequential) [] sample_joc
       sample_world = Some (rep, err, w') \<and> keys_ok (map_of (w_store w'))"
proof -
  let ?j = "sample_job TaskExecutionModeSequential"
  have "runTasks sample_env sample_executor ?j [] sample_joc sample_world \<noteq> None"
    using sequentialLoop_returns [of "j_Tasks ?j" ?j]
    by (simp add: runTasks_def executeSequential_def sample_mode sample_tasks sample_max_retries)
  then obtain rep err w' where
    ex: "runTasks sample_env sample_executor ?j [] sample_joc sample_world = Some (rep, err, w')" by auto
  have "ex_store sample_executor = mem_storage" by (simp add: sample_executor_def NewExecutor_def)
  from tasks_touch_own_records [OF mem.badger_db_axioms this sample_env_ok(1) sample_store(1) ex] ex
  show ?thesis by blast
qed

text \<open>
  C7. The retry loop. A task that returns has made between one and \<open>MaxRetries + 1\<close> attempts, numbered
  from 0, each reported with what the task function returned; only the last can have succeeded; the
  final status is Success if it did, Failed if the retries are used up, and Canceled if the context
  ended during a wait. Between the attempts it waited for the backoff of each attempt in turn.
\<close>

theorem task_report_correct:
  assumes "executeTask E e job task oc w = Some (rep, w')"
  shows "report_ok E job oc task rep \<and>
    w_waits w' = w_waits w @ map (\<lambda>i. backoff E (effectivePolicy (GetEffectiveConfig job task)) (int i))
      [0 ..< (if rp_FinalStatus rep = TaskStatusCanceled then length (rp_Attempts rep)
              else length (rp_Attempts rep) - 1)]"
proof -
  let ?s = "startTask E e task oc w"
  have loop: "retryLoop E e job task (fst ?s) (GetEffectiveConfig job task)
      (effectivePolicy (GetEffectiveConfig job task)) 0 (newTaskReport task) None (snd ?s) = Some (rep, w')"
    using assms by (simp add: executeTask_def Let_def case_prod_beta)
  have "w_waits (snd ?s) = w_waits w" by (simp add: startTask_eq)
  with retryLoop_waits [OF loop] executeTask_report [OF assms] show ?thesis
    by (simp add: newTaskReport_def)
qed

theorem task_report_correct_witness:
  "\<exists>rep w'. executeTask sample_env sample_executor (sample_job TaskExecutionModeSequential) (sample_task ''a'')
       sample_joc sample_world = Some (rep, w')
     \<and> rp_FinalStatus rep \<noteq> TaskStatusSuccess \<and> rp_Attempts rep \<noteq> [] \<and> length (rp_Attempts rep) \<le> 2"
proof -
  let ?j = "sample_job TaskExecutionModeSequential" and ?t = "sample_task ''a''"
  have "executeTask sample_env sample_executor ?j ?t sample_joc sample_world \<noteq> None"
    by (simp add: executeTask_panics sample_max_retries del: not_None_eq)
  then obtain rep w' where
    ex: "executeTask sample_env sample_executor ?j ?t sample_joc sample_world = Some (rep, w')" by auto
  have fails: "fn_result sample_env sample_joc ?t i \<noteq> None" for i
    by (simp add: fn_result_def sample_task_def)
  have "report_ok sample_env ?j sample_joc ?t rep" using task_report_correct [OF ex] by blast
  then have "rp_FinalStatus rep \<noteq> TaskStatusSuccess \<and> rp_Attempts rep \<noteq> [] \<and> length (rp_Attempts rep) \<le> 2"
    using fails by (auto simp: report_ok_def Let_def sample_max_retries split: if_splits)
  then show ?thesis using ex by auto
qed

text \<open>
  C18. A task returns a report exactly if its retry policy allows the first attempt: with a negative
  \<open>MaxRetries\<close> the loop body never runs and reading the missing error panics.
\<close>

theorem task_returns_iff:
  "(\<exists>rep w'. executeTask E e job task oc w = Some (rep, w')) \<longleftrightarrow> 0 \<le> max_retries job task"
  using executeTask_panics [of E e job task oc w] by (cases "executeTask E e job task oc w") auto

text \<open>
  C15. Sequential mode runs a prefix of the task list, in order, with one report per task run. Under
  fail-fast it stops at the first failed task and returns an error that names it; it stops after a
  task when the context has ended; otherwise it runs all tasks and returns no error.
\<close>

theorem sequential_outcome:
  assumes "executeSequential E e job oc w = Some (rep, err, w')"
  shows "sequential_ok E job oc (j_Tasks job) (er_TaskReports rep) (er_GroupOutcome rep) err
    \<and> er_OccurrenceID rep = jo_ID oc"
  using executeSequential_ok [OF assms] by blast

theorem sequential_outcome_witness:
  "\<exists>rep err w'. executeSequential sample_env sample_executor (sample_job TaskExecutionModeSequential) sample_joc
       sample_world = Some (rep, err, w')
     \<and> sequential_ok sample_env (sample_job TaskExecutionModeSequential) sample_joc
         [sample_task ''a'', sample_task ''b''] (er_TaskReports rep) (er_GroupOutcome rep) err"
proof -
  let ?j = "sample_job TaskExecutionModeSequential"
  have "executeSequential sample_env sample_executor ?j sample_joc sample_world \<noteq> None"
    unfolding executeSequential_def
    by (rule sequentialLoop_returns) (simp add: sample_tasks sample_max_retries)
  then obtain rep err w' where
    ex: "executeSequential sample_env sample_executor ?j sample_joc sample_world = Some (rep, err, w')" by auto
  from sequential_outcome [OF ex] ex show ?thesis by (auto simp: sample_tasks)
qed

text \<open>
  C16. Parallel mode, for every interleaving of the goroutines that lets the group return: each task of
  the job has exactly one report, in the order of completion, and each report is correct; the group
  outcome is failed if a task failed and the context has not ended; no error is returned, even then.
\<close>

theorem parallel_outcome:
  assumes "executeParallel E e job sched oc w = Some (rep, err, w')"
  shows "err = None \<and> er_OccurrenceID rep = jo_ID oc
    \<and> (\<exists>ts. mset ts = mset (j_Tasks job) \<and> list_all2 (report_ok E job oc) ts (er_TaskReports rep))
    \<and> (er_GroupOutcome rep = ''canceled'' \<or>
       er_GroupOutcome rep =
         (if \<exists>tr \<in> set (er_TaskReports rep). rp_FinalStatus tr = TaskStatusFailed
          then ''failed'' else ''completed''))"
  using executeParallel_report [OF assms] by blast

definition sample_schedule :: "nat list" where
  "sample_schedule = concat (replicate 10 [0, 1])"

lemma sample_schedule_long:
  "\<forall>k < length (j_Tasks (sample_job mode)). 0 \<le> max_retries (sample_job mode) (j_Tasks (sample_job mode) ! k)
     \<and> 3 * nat (max_retries (sample_job mode) (j_Tasks (sample_job mode) ! k) + 1) + 4 \<le> count_list sample_schedule k"
proof -
  have "count_list sample_schedule 0 = 10" "count_list sample_schedule 1 = 10" by code_simp+
  then show ?thesis by (auto simp: sample_tasks sample_max_retries less_Suc_eq nth_Cons')
qed

theorem parallel_outcome_witness:
  "\<exists>rep w'. executeParallel sample_env sample_executor (sample_job TaskExecutionModeParallel) sample_schedule
       sample_joc sample_world = Some (rep, None, w')
     \<and> length (er_TaskReports rep) = 2"
proof -
  let ?j = "sample_job TaskExecutionModeParallel"
  obtain rep err w' where
    ex: "executeParallel sample_env sample_executor ?j sample_schedule sample_joc sample_world = Some (rep, err, w')"
    using executeParallel_returns [OF sample_schedule_long [of TaskExecutionModeParallel]] by fastforce
  obtain ts where ts: "mset ts = mset (j_Tasks ?j)" "list_all2 (report_ok sample_env ?j sample_joc) ts (er_TaskReports rep)"
    and err: "err = None" using parallel_outcome [OF ex] by blast
  have "size (mset ts) = 2" unfolding ts(1) by (simp add: sample_tasks)
  then have "length (er_TaskReports rep) = 2" using ts(2) by (simp add: list_all2_lengthD)
  then show ?thesis using ex err by blast
qed

text \<open>
  C17. The group of parallel tasks returns under every schedule that gives each goroutine the steps it
  can take, however the steps interleave, when no task panics.
\<close>

theorem parallel_returns:
  assumes "\<forall>k < length (j_Tasks job). 0 \<le> max_retries job (j_Tasks job ! k)
      \<and> 3 * nat (max_retries job (j_Tasks job ! k) + 1) + 4 \<le> count_list sched k"
  shows "\<exists>rep w'. executeParallel E e job sched oc w = Some (rep, None, w')"
proof -
  obtain rep err w' where ex: "executeParallel E e job sched oc w = Some (rep, err, w')"
    using executeParallel_returns [OF assms] by fastforce
  then show ?thesis using executeParallel_report(1) [OF ex] by blast
qed

theorem parallel_returns_witness:
  "\<exists>rep w'. executeParallel sample_env sample_executor (sample_job TaskExecutionModeParallel) sample_schedule
     sample_joc sample_world = Some (rep, None, w')"
  by (rule parallel_returns [OF sample_schedule_long])

end
