(* ===== verification/ExecutionFrame.thy ===== *)
theory ExecutionFrame
  imports ExecutorProperties
begin

text \<open>
  What an execution means to the other occurrences, for the components that start executions: it
  changes no stored job, no stored task and no other occurrence, on any store; and on a store that
  does not fail it leaves its own occurrence completed or failed.
\<close>

definition occ_frame :: "string \<times> string \<Rightarrow> AStore \<Rightarrow> AStore \<Rightarrow> bool" where
  "occ_frame key a a' \<longleftrightarrow>
     a_jobs a' = a_jobs a \<and> a_tasks a' = a_tasks a \<and> (\<forall>k. k \<noteq> key \<longrightarrow> a_occs a' k = a_occs a k)
     \<and> (a_occs a' key = None \<longleftrightarrow> a_occs a key = None)"

lemma occ_frame_refl [simp]: "occ_frame k a a"
  by (simp add: occ_frame_def)

lemma occ_frame_trans: "occ_frame k a b \<Longrightarrow> occ_frame k b c \<Longrightarrow> occ_frame k a c"
  by (simp add: occ_frame_def)

lemma task_frame_occ: "task_frame E job oc T a a' \<Longrightarrow> occ_frame k a a'"
  by (simp add: task_frame_def occ_frame_def)

text \<open>The occurrence as it is while its tasks run, and after.\<close>

abbreviation started_occ :: "Env \<Rightarrow> JobOccurrence \<Rightarrow> ('s, 'm) World \<Rightarrow> JobOccurrence" where
  "started_occ E oc w \<equiv> oc\<lparr>jo_Status := JobStatusRunning, jo_StartTime := Some (Now E (w_clock w))\<rparr>"

abbreviation ended_occ ::
  "Env \<Rightarrow> JobOccurrence \<Rightarrow> ('s, 'm) World \<Rightarrow> ('s, 'm) World \<Rightarrow> error option \<Rightarrow> JobOccurrence" where
  "ended_occ E oc w w2 err \<equiv> oc\<lparr>jo_StartTime := Some (Now E (w_clock w)), jo_EndTime := Some (Now E (w_clock w2)),
     jo_Status := (if err = None then JobStatusCompleted else JobStatusFailed)\<rparr>"

lemma ExecuteJobOccurrence_cases:
  assumes "ExecuteJobOccurrence E e job sched oc w = Some (r, err, oc', w')"
  obtains (refused) e1 where
      "updateOccurrenceStatus E e (started_occ E oc w) (w\<lparr>w_clock := Suc (w_clock w)\<rparr>) = (Some e1, w')"
      "r = None" "err = Some e1" "oc' = started_occ E oc w"
  | (ran) w1 v rep w2 r3 w3 where
      "updateOccurrenceStatus E e (started_occ E oc w) (w\<lparr>w_clock := Suc (w_clock w)\<rparr>) = (None, w1)"
      "w_store v = w_store w1" "runTasks E e job sched (started_occ E oc w) v = Some (rep, err, w2)"
      "updateOccurrenceStatus E e (ended_occ E oc w w2 err) (w2\<lparr>w_clock := Suc (w_clock w2)\<rparr>) = (r3, w3)"
      "r = Some rep" "oc' = ended_occ E oc w w2 err" "w_store w' = w_store w3"
proof -
  let ?oc1 = "started_occ E oc w" and ?w0 = "w\<lparr>w_clock := Suc (w_clock w)\<rparr>"
  obtain r1 w1 where u1: "updateOccurrenceStatus E e ?oc1 ?w0 = (r1, w1)"
    by (cases "updateOccurrenceStatus E e ?oc1 ?w0")
  show thesis
  proof (cases r1)
    case (Some e1)
    then have "ExecuteJobOccurrence E e job sched oc w = Some (None, Some e1, ?oc1, w1)"
      using u1 by (simp add: ExecuteJobOccurrence_def time_Now_def)
    then have "r = None" "err = Some e1" "oc' = ?oc1" "w1 = w'" using assms by simp_all
    then show thesis using that(1) u1 Some by blast
  next
    case None
    let ?v = "if j_OnStart job then w1\<lparr>w_hooks := w_hooks w1 @ [OnStart ?oc1]\<rparr> else w1"
    obtain rep err2 w2 where rt: "runTasks E e job sched ?oc1 ?v = Some (rep, err2, w2)"
      using assms u1 None by (auto simp: ExecuteJobOccurrence_def time_Now_def Let_def split: option.splits)
    obtain r3 w3 where u3: "updateOccurrenceStatus E e (ended_occ E oc w w2 err2) (w2\<lparr>w_clock := Suc (w_clock w2)\<rparr>) = (r3, w3)"
      by (cases "updateOccurrenceStatus E e (ended_occ E oc w w2 err2) (w2\<lparr>w_clock := Suc (w_clock w2)\<rparr>)")
    have "r = Some rep" "err = err2" "oc' = ended_occ E oc w w2 err2" "w_store w' = w_store w3"
      using assms ExecuteJobOccurrence_eq [OF u1 [unfolded None] rt u3 refl] by auto
    moreover have "w_store ?v = w_store w1" by simp
    ultimately show thesis using that(2) u1 None rt u3 by blast
  qed
qed

context storage
begin

lemma updateOccurrenceStatus_frame:
  assumes e: "ex_store e = S" and inv: "invar (w_store w)"
    and ids: "job_id_ok (jo_JobID oc)" "occ_id_ok (jo_ID oc)"
    and u: "updateOccurrenceStatus E e oc w = (r, w')"
  shows "invar (w_store w') \<and> occ_frame (joc_key oc) (abs (w_store w)) (abs (w_store w'))"
proof -
  let ?rec = "storage_occ oc (Now E (w_clock w))" and ?now = "Now E (Suc (w_clock w))"
  obtain err s' where c: "UpdateJobOccurrence S (w_store w) ?now ?rec = (err, s')"
    by (cases "UpdateJobOccurrence S (w_store w) ?now ?rec")
  have id: "job_id_ok (so_JobID ?rec)" "occ_id_ok (so_ID ?rec)" "occ_key ?rec = joc_key oc"
    using ids by (simp_all add: storage_occ_def)
  have s': "w_store w' = s'" using u c e by (auto simp: updateOccurrenceStatus_eq Let_def)
  from UpdateJobOccurrence_law [OF inv id(1,2) c]
  have law: "invar s'" "abs s' = (abs (w_store w))\<lparr>a_occs := a_occs (abs s')\<rparr>"
    "update_spec (a_occs (abs (w_store w))) (joc_key oc) (?rec\<lparr>so_UpdatedAt := ?now\<rparr>)
       (ErrOccurrenceNotFound (so_ID ?rec)) err (a_occs (abs s'))"
    using id(3) by auto
  have "a_jobs (abs s') = a_jobs (abs (w_store w))" "a_tasks (abs s') = a_tasks (abs (w_store w))"
    by (subst law(2), simp)+
  then show ?thesis using law(1,3) unfolding s' by (auto simp: occ_frame_def update_spec_def split: option.splits)
qed

lemma ExecuteJobOccurrence_frame:
  assumes e: "ex_store e = S" "uuid_text (NewSHA1 E)" and inv: "invar (w_store w)"
    and ids: "job_id_ok (jo_JobID oc)" "occ_id_ok (jo_ID oc)"
    and run: "ExecuteJobOccurrence E e job sched oc w = Some (r, err, oc', w')"
  shows "invar (w_store w') \<and> occ_frame (joc_key oc) (abs (w_store w)) (abs (w_store w'))"
proof -
  note upd = updateOccurrenceStatus_frame [OF e(1)]
  from run show ?thesis
  proof (cases rule: ExecuteJobOccurrence_cases)
    case (refused e1)
    then show ?thesis using upd [OF _ _ _ refused(1)] inv ids by simp
  next
    case (ran w1 v rep w2 r3 w3)
    have one: "invar (w_store w1) \<and> occ_frame (joc_key oc) (abs (w_store w)) (abs (w_store w1))"
      using upd [OF _ _ _ ran(1)] inv ids by simp
    have two: "invar (w_store w2) \<and> occ_frame (joc_key oc) (abs (w_store w1)) (abs (w_store w2))"
      using runTasks_frame [OF e _ ran(3)] one ran(2) task_frame_occ by fastforce
    have "invar (w_store w3) \<and> occ_frame (joc_key oc) (abs (w_store w2)) (abs (w_store w3))"
      using upd [OF _ _ _ ran(4)] two ids by simp
    then show ?thesis using one two ran(7) occ_frame_trans by metis
  qed
qed

end

context reliable_storage
begin

lemma ExecuteJobOccurrence_finishes:
  assumes e: "ex_store e = S" "uuid_text (NewSHA1 E)" and clk: "clock_ok E" and inv: "invar (w_store w)"
    and ids: "job_id_ok (jo_JobID oc)" "occ_id_ok (jo_ID oc)" and t: "occurrence_times_ok oc"
    and ex: "a_occs (abs (w_store w)) (joc_key oc) \<noteq> None"
    and run: "ExecuteJobOccurrence E e job sched oc w = Some (r, err, oc', w')"
  shows "\<exists>t. a_occs (abs (w_store w')) = (a_occs (abs (w_store w)))(joc_key oc \<mapsto> storage_occ oc' t)
    \<and> (\<exists>t1 t2 st. oc' = oc\<lparr>jo_StartTime := Some t1, jo_EndTime := Some t2, jo_Status := st\<rparr>
        \<and> st = (if err = None then JobStatusCompleted else JobStatusFailed))"
proof -
  have times: "occurrence_times_ok (started_occ E oc v)" "occurrence_times_ok (ended_occ E oc v u er)" for v u er
    using t clk by (simp_all add: occurrence_times_ok_def opt_year_ok_def clock_ok_def)
  from run show ?thesis
  proof (cases rule: ExecuteJobOccurrence_cases)
    case (refused e1)
    then show ?thesis
      using updateOccurrenceStatus_ok(1) [OF e(1) clk _ _ _ times(1) _ refused(1)] inv ids ex by simp
  next
    case (ran w1 v rep w2 r3 w3)
    note o1 = updateOccurrenceStatus_ok [OF e(1) clk _ _ _ times(1) _ ran(1), simplified]
    have one: "invar (w_store w1)" "a_occs (abs (w_store w1)) =
        (a_occs (abs (w_store w)))(joc_key oc \<mapsto> storage_occ (started_occ E oc w) (Now E (Suc (Suc (w_clock w)))))"
      using o1(2,4) inv ids ex by simp_all
    have two: "invar (w_store w2)" "a_occs (abs (w_store w2)) = a_occs (abs (w_store w1))"
      using runTasks_frame [OF e _ ran(3)] one(1) ran(2) by (simp_all add: task_frame_def)
    have "a_occs (abs (w_store w3)) = (a_occs (abs (w_store w2)))(joc_key oc \<mapsto>
        storage_occ (ended_occ E oc w w2 err) (Now E (Suc (Suc (w_clock w2)))))"
      using updateOccurrenceStatus_ok(4) [OF e(1) clk _ _ _ times(2) _ ran(4)] two one(2) ids by simp
    then have "a_occs (abs (w_store w')) = (a_occs (abs (w_store w)))(joc_key oc \<mapsto>
        storage_occ oc' (Now E (Suc (Suc (w_clock w2)))))"
      using two(2) one(2) ran(6,7) by simp
    then show ?thesis using ran(6) by blast
  qed
qed

end

end
