(* ===== verification/Pool.thy ===== *)
theory Pool
  imports Prelude "HOL-Library.Multiset"
begin

text \<open>
  The worker pool of \<^verbatim>\<open>concurrency/pool.go\<close> as a state machine. A task is a value of an arbitrary
  type. A worker goroutine waits in its select, runs a task, or has returned; a goroutine that calls
  \<^verbatim>\<open>Submit\<close> is before the lock, runs the task itself, waits in its select, or has returned. The mutex
  is held across steps only by \<^verbatim>\<open>Stop\<close> while it waits for the workers (\<open>p_stopping\<close>). A panic ends the
  program: it sets \<open>p_crashed\<close>, and a crashed pool takes no step. The three lists of tasks at the end
  of the record are history: the tasks the queue accepted, the tasks workers finished, and the tasks
  callers ran themselves. Tasks that panic are not considered.
\<close>

datatype 'a worker = Waiting | Working 'a | Exited

datatype 'a caller = AtLock 'a | AtSelect 'a | RunsTask 'a | CallReturned

record 'a WorkerPool =
  p_maxWorkers :: int
  p_taskQueue :: "'a list"
  p_queueClosed :: bool
  p_stopClosed :: bool
  p_started :: bool
  p_stopping :: bool
  p_workers :: "'a worker list"
  p_callers :: "'a caller list"
  p_crashed :: bool
  p_accepted :: "'a list"
  p_finished :: "'a list"
  p_inline :: "'a list"

definition NewWorkerPool :: "int \<Rightarrow> 'a WorkerPool" where
  "NewWorkerPool maxWorkers =
     \<lparr>p_maxWorkers = (if maxWorkers \<le> 0 then 10 else maxWorkers), p_taskQueue = [], p_queueClosed = False,
      p_stopClosed = False, p_started = False, p_stopping = False, p_workers = [], p_callers = [],
      p_crashed = False, p_accepted = [], p_finished = [], p_inline = []\<rparr>"

definition queue_capacity :: "'a WorkerPool \<Rightarrow> nat" where
  "queue_capacity p = nat (p_maxWorkers p * 2)"

definition Pool_Start :: "'a WorkerPool \<Rightarrow> 'a WorkerPool" where
  "Pool_Start p =
     (if p_started p then p
      else p\<lparr>p_started := True, p_workers := p_workers p @ replicate (nat (p_maxWorkers p)) Waiting\<rparr>)"

text \<open>The branch of a select that a goroutine takes; a worker that runs a task returns from it.\<close>

datatype choice = StopCh | TaskCh | Return

definition Pool_worker :: "nat \<Rightarrow> choice \<Rightarrow> 'a WorkerPool \<Rightarrow> 'a WorkerPool option" where
  "Pool_worker i c p =
     (if i < length (p_workers p) then
       (case (p_workers p ! i, c) of
          (Waiting, StopCh) \<Rightarrow>
            (if p_stopClosed p then Some (p\<lparr>p_workers := (p_workers p)[i := Exited]\<rparr>) else None)
        | (Waiting, TaskCh) \<Rightarrow>
            (case p_taskQueue p of
               task # queue \<Rightarrow>
                 Some (p\<lparr>p_taskQueue := queue, p_workers := (p_workers p)[i := Working task]\<rparr>)
             | [] \<Rightarrow>
                 if p_queueClosed p then Some (p\<lparr>p_workers := (p_workers p)[i := Exited]\<rparr>) else None)
        | (Working task, Return) \<Rightarrow>
            Some (p\<lparr>p_workers := (p_workers p)[i := Waiting], p_finished := p_finished p @ [task]\<rparr>)
        | _ \<Rightarrow> None)
      else None)"

text \<open>A call of \<^verbatim>\<open>Submit\<close>, and the steps of a caller.\<close>

definition Pool_Submit :: "'a \<Rightarrow> 'a WorkerPool \<Rightarrow> 'a WorkerPool" where
  "Pool_Submit task p = p\<lparr>p_callers := p_callers p @ [AtLock task]\<rparr>"

definition set_caller :: "nat \<Rightarrow> 'a caller \<Rightarrow> 'a WorkerPool \<Rightarrow> 'a WorkerPool" where
  "set_caller i c p = p\<lparr>p_callers := (p_callers p)[i := c]\<rparr>"

definition Pool_caller :: "nat \<Rightarrow> choice \<Rightarrow> 'a WorkerPool \<Rightarrow> 'a WorkerPool option" where
  "Pool_caller i c p =
     (if i < length (p_callers p) then
       (case (p_callers p ! i, c) of
          (AtLock task, Return) \<Rightarrow>
            (if p_stopping p then None
             else Some (set_caller i (if p_started p then AtSelect task else RunsTask task) p))
        | (RunsTask task, Return) \<Rightarrow>
            Some ((set_caller i CallReturned p)\<lparr>p_inline := p_inline p @ [task]\<rparr>)
        | (AtSelect task, StopCh) \<Rightarrow>
            (if p_stopClosed p then Some (set_caller i CallReturned p) else None)
        | (AtSelect task, TaskCh) \<Rightarrow>
            (if p_queueClosed p then Some (p\<lparr>p_crashed := True\<rparr>)
             else if length (p_taskQueue p) < queue_capacity p
             then Some ((set_caller i CallReturned p)
                    \<lparr>p_taskQueue := p_taskQueue p @ [task], p_accepted := p_accepted p @ [task]\<rparr>)
             else None)
        | _ \<Rightarrow> None)
      else None)"

text \<open>\<^verbatim>\<open>Stop\<close> up to its wait for the workers, and from the end of the wait to its return.\<close>

definition Pool_Stop :: "'a WorkerPool \<Rightarrow> 'a WorkerPool" where
  "Pool_Stop p =
     (if \<not> p_started p then p
      else if p_stopClosed p then p\<lparr>p_crashed := True\<rparr>
      else p\<lparr>p_stopClosed := True, p_queueClosed := True, p_stopping := True\<rparr>)"

definition Pool_StopReturns :: "'a WorkerPool \<Rightarrow> 'a WorkerPool option" where
  "Pool_StopReturns p =
     (if p_stopping p \<and> (\<forall>v \<in> set (p_workers p). v = Exited)
      then Some (p\<lparr>p_started := False, p_stopping := False\<rparr>) else None)"

definition Pool_QueueLength :: "'a WorkerPool \<Rightarrow> int" where
  "Pool_QueueLength p = int (length (p_taskQueue p))"

definition Pool_MaxWorkers :: "'a WorkerPool \<Rightarrow> int" where
  "Pool_MaxWorkers p = p_maxWorkers p"

inductive pool_step :: "'a WorkerPool \<Rightarrow> 'a WorkerPool \<Rightarrow> bool" where
  start: "\<not> p_crashed p \<Longrightarrow> \<not> p_stopping p \<Longrightarrow> pool_step p (Pool_Start p)"
| submit: "\<not> p_crashed p \<Longrightarrow> pool_step p (Pool_Submit task p)"
| caller: "\<not> p_crashed p \<Longrightarrow> Pool_caller i c p = Some p' \<Longrightarrow> pool_step p p'"
| worker: "\<not> p_crashed p \<Longrightarrow> Pool_worker i c p = Some p' \<Longrightarrow> pool_step p p'"
| stop: "\<not> p_crashed p \<Longrightarrow> \<not> p_stopping p \<Longrightarrow> pool_step p (Pool_Stop p)"
| stopped: "\<not> p_crashed p \<Longrightarrow> Pool_StopReturns p = Some p' \<Longrightarrow> pool_step p p'"

subsection \<open>Which steps there are\<close>

lemma Pool_worker_cases:
  assumes "Pool_worker i c p = Some p'"
  obtains (exit) "i < length (p_workers p)" "p_workers p ! i = Waiting"
      "p_stopClosed p \<or> p_queueClosed p \<and> p_taskQueue p = []"
      "p' = p\<lparr>p_workers := (p_workers p)[i := Exited]\<rparr>"
  | (take) task queue where "i < length (p_workers p)" "p_workers p ! i = Waiting"
      "p_taskQueue p = task # queue"
      "p' = p\<lparr>p_taskQueue := queue, p_workers := (p_workers p)[i := Working task]\<rparr>"
  | (return) task where "i < length (p_workers p)" "p_workers p ! i = Working task"
      "p' = p\<lparr>p_workers := (p_workers p)[i := Waiting], p_finished := p_finished p @ [task]\<rparr>"
  using assms by (auto simp: Pool_worker_def split: if_splits worker.splits choice.splits list.splits)

lemma Pool_caller_cases:
  assumes "Pool_caller i c p = Some p'"
  obtains (lock) task where "i < length (p_callers p)" "p_callers p ! i = AtLock task" "\<not> p_stopping p"
      "p' = set_caller i (if p_started p then AtSelect task else RunsTask task) p"
  | (inline) task where "i < length (p_callers p)" "p_callers p ! i = RunsTask task"
      "p' = (set_caller i CallReturned p)\<lparr>p_inline := p_inline p @ [task]\<rparr>"
  | (refused) task where "i < length (p_callers p)" "p_callers p ! i = AtSelect task" "p_stopClosed p"
      "p' = set_caller i CallReturned p"
  | (panic) task where "i < length (p_callers p)" "p_callers p ! i = AtSelect task" "p_queueClosed p"
      "p' = p\<lparr>p_crashed := True\<rparr>"
  | (send) task where "i < length (p_callers p)" "p_callers p ! i = AtSelect task" "\<not> p_queueClosed p"
      "length (p_taskQueue p) < queue_capacity p"
      "p' = (set_caller i CallReturned p)
         \<lparr>p_taskQueue := p_taskQueue p @ [task], p_accepted := p_accepted p @ [task]\<rparr>"
  using assms by (auto simp: Pool_caller_def split: if_splits caller.splits choice.splits)

subsection \<open>The invariant\<close>

fun held :: "'a worker \<Rightarrow> 'a list" where
  "held (Working task) = [task]"
| "held v = []"

definition running_tasks :: "'a WorkerPool \<Rightarrow> 'a list" where
  "running_tasks p = concat (map held (p_workers p))"

definition live :: "'a worker list \<Rightarrow> nat" where
  "live ws = length (filter (\<lambda>v. v \<noteq> Exited) ws)"

definition pool_inv :: "'a WorkerPool \<Rightarrow> bool" where
  "pool_inv p \<longleftrightarrow>
     0 < p_maxWorkers p \<and> length (p_taskQueue p) \<le> queue_capacity p
     \<and> int (live (p_workers p)) \<le> p_maxWorkers p
     \<and> p_queueClosed p = p_stopClosed p \<and> (p_stopping p \<longrightarrow> p_started p \<and> p_stopClosed p)
     \<and> (\<not> p_started p \<longrightarrow> live (p_workers p) = 0)
     \<and> (\<not> p_stopClosed p \<longrightarrow> Exited \<notin> set (p_workers p) \<and> (p_started p \<longrightarrow> p_workers p \<noteq> []))
     \<and> (p_crashed p \<longrightarrow> p_stopClosed p)
     \<and> mset (p_accepted p) = mset (p_taskQueue p) + mset (running_tasks p) + mset (p_finished p)"

lemma held_update:
  assumes "i < length ws"
  shows "mset (concat (map held (ws[i := v]))) + mset (held (ws ! i))
    = mset (concat (map held ws)) + mset (held v)"
proof -
  have "mset (concat (map held ws)) = mset (concat (map held (take i ws @ ws ! i # drop (Suc i) ws)))"
    using id_take_nth_drop [OF assms] by simp
  then show ?thesis by (simp add: upd_conv_take_nth_drop [OF assms] add_ac)
qed

lemma live_update:
  assumes "i < length ws"
  shows "live (ws[i := v]) + (if ws ! i = Exited then 0 else 1) = live ws + (if v = Exited then 0 else 1)"
proof -
  have "live ws = live (take i ws @ ws ! i # drop (Suc i) ws)" using id_take_nth_drop [OF assms] by simp
  then show ?thesis by (simp add: upd_conv_take_nth_drop [OF assms] live_def)
qed

lemma held_le_live: "length (concat (map held ws)) \<le> live ws"
proof (induction ws)
  case (Cons v ws)
  then show ?case by (cases v) (simp_all add: live_def)
qed (simp add: live_def)

lemma live_zero: "live ws = 0 \<longleftrightarrow> (\<forall>v \<in> set ws. v = Exited)"
  by (auto simp: live_def filter_empty_conv)

lemma worker_inv:
  assumes inv: "pool_inv p" and run: "Pool_worker i c p = Some p'"
  shows "pool_inv p'"
  using run
proof (cases rule: Pool_worker_cases)
  case exit
  have "live ((p_workers p)[i := Exited]) \<le> live (p_workers p)"
    using live_update [OF exit(1), of Exited] exit(2) by simp
  moreover have "mset (concat (map held ((p_workers p)[i := Exited]))) = mset (concat (map held (p_workers p)))"
    using held_update [OF exit(1), of Exited] exit(2) by simp
  ultimately show ?thesis
    using inv exit(3) unfolding exit(4) pool_inv_def by (auto simp: running_tasks_def queue_capacity_def)
next
  case (take task queue)
  have "live ((p_workers p)[i := Working task]) = live (p_workers p)"
    using live_update [OF take(1), of "Working task"] take(2) by simp
  moreover have "mset (concat (map held ((p_workers p)[i := Working task])))
      = mset (concat (map held (p_workers p))) + {#task#}"
    using held_update [OF take(1), of "Working task"] take(2) by simp
  moreover have "Exited \<in> set ((p_workers p)[i := Working task]) \<Longrightarrow> Exited \<in> set (p_workers p)"
    by (auto dest: set_update_subset_insert [THEN subsetD])
  ultimately show ?thesis
    using inv take(3) unfolding take(4) pool_inv_def by (auto simp: running_tasks_def queue_capacity_def)
next
  case (return task)
  have "live ((p_workers p)[i := Waiting]) = live (p_workers p)"
    using live_update [OF return(1), of Waiting] return(2) by simp
  moreover have "mset (concat (map held ((p_workers p)[i := Waiting]))) + {#task#}
      = mset (concat (map held (p_workers p)))"
    using held_update [OF return(1), of Waiting] return(2) by simp
  moreover have "Exited \<in> set ((p_workers p)[i := Waiting]) \<Longrightarrow> Exited \<in> set (p_workers p)"
    by (auto dest: set_update_subset_insert [THEN subsetD])
  ultimately show ?thesis
    using inv unfolding return(3) pool_inv_def
    by (auto simp: running_tasks_def queue_capacity_def add_ac)
qed

lemma caller_inv:
  assumes inv: "pool_inv p" and run: "Pool_caller i c p = Some p'"
  shows "pool_inv p'"
  using run inv
  by (cases rule: Pool_caller_cases)
    (auto simp: pool_inv_def set_caller_def running_tasks_def queue_capacity_def)

lemma pool_start_inv: "pool_inv p \<Longrightarrow> \<not> p_stopping p \<Longrightarrow> pool_inv (Pool_Start p)"
  by (auto simp: pool_inv_def Pool_Start_def live_def running_tasks_def queue_capacity_def filter_empty_conv)

lemma pool_stop_inv: "pool_inv p \<Longrightarrow> pool_inv (Pool_Stop p)"
  by (auto simp: pool_inv_def Pool_Stop_def running_tasks_def queue_capacity_def)

lemma pool_step_inv:
  assumes "pool_step p p'" "pool_inv p"
  shows "pool_inv p'"
  using assms
proof cases
  case (start)
  then show ?thesis using assms(2) pool_start_inv by simp
next
  case (caller i c)
  then show ?thesis using assms(2) caller_inv by blast
next
  case (worker i c)
  then show ?thesis using assms(2) worker_inv by blast
next
  case stop
  then show ?thesis using assms(2) pool_stop_inv by simp
qed (auto simp: pool_inv_def Pool_Submit_def Pool_StopReturns_def running_tasks_def queue_capacity_def live_zero
      split: if_splits)

lemma new_pool_inv: "pool_inv (NewWorkerPool n)"
  by (simp add: pool_inv_def NewWorkerPool_def live_def running_tasks_def)

lemma pool_reach_inv: "pool_step\<^sup>*\<^sup>* p0 p \<Longrightarrow> pool_inv p0 \<Longrightarrow> pool_inv p"
  by (induction rule: rtranclp_induct) (auto intro: pool_step_inv)

lemma pool_step_max: "pool_step p p' \<Longrightarrow> p_maxWorkers p' = p_maxWorkers p"
  by (induction rule: pool_step.induct)
    (auto simp: Pool_Start_def Pool_Submit_def Pool_Stop_def Pool_StopReturns_def set_caller_def
      elim!: Pool_caller_cases Pool_worker_cases split: if_splits)

lemma pool_reach_max: "pool_step\<^sup>*\<^sup>* p0 p \<Longrightarrow> p_maxWorkers p = p_maxWorkers p0"
  by (induction rule: rtranclp_induct) (auto dest: pool_step_max)

subsection \<open>The workers make progress\<close>

text \<open>A step of some worker.\<close>

definition worker_step :: "'a WorkerPool \<Rightarrow> 'a WorkerPool \<Rightarrow> bool" where
  "worker_step p p' \<longleftrightarrow> (\<exists>i c. Pool_worker i c p = Some p')"

definition pending_work :: "'a WorkerPool \<Rightarrow> nat" where
  "pending_work p = 2 * length (p_taskQueue p) + length (running_tasks p)"

lemma worker_step_open:
  assumes step: "worker_step p p'" and inv: "pool_inv p" and opn: "p_started p" "\<not> p_stopClosed p"
  shows "p_started p' \<and> \<not> p_stopClosed p' \<and> p_accepted p' = p_accepted p \<and> pool_inv p'
    \<and> pending_work p' < pending_work p"
proof -
  obtain i c where run: "Pool_worker i c p = Some p'" using step by (auto simp: worker_step_def)
  have inv': "pool_inv p'" using worker_inv [OF inv run] .
  from run show ?thesis
  proof (cases rule: Pool_worker_cases)
    case exit
    then show ?thesis using inv opn by (simp add: pool_inv_def)
  next
    case (take task queue)
    have "size (mset (concat (map held ((p_workers p)[i := Working task]))))
        = Suc (size (mset (concat (map held (p_workers p)))))"
      using arg_cong [OF held_update [OF take(1), of "Working task"], of size] take(2) by simp
    then show ?thesis using opn inv' take(3) unfolding take(4)
      by (simp add: pending_work_def running_tasks_def)
  next
    case (return task)
    have "Suc (size (mset (concat (map held ((p_workers p)[i := Waiting])))))
        = size (mset (concat (map held (p_workers p))))"
      using arg_cong [OF held_update [OF return(1), of Waiting], of size] return(2) by simp
    then show ?thesis using opn inv' unfolding return(3)
      by (simp add: pending_work_def running_tasks_def)
  qed
qed

lemma worker_steps_open:
  assumes "(worker_step ^^ k) p p'" "pool_inv p" "p_started p" "\<not> p_stopClosed p"
  shows "p_started p' \<and> \<not> p_stopClosed p' \<and> p_accepted p' = p_accepted p \<and> pool_inv p'
    \<and> pending_work p' + k \<le> pending_work p"
  using assms(1)
proof (induction k arbitrary: p')
  case 0
  then show ?case using assms by simp
next
  case (Suc k)
  then obtain q where "(worker_step ^^ k) p q" "worker_step q p'" by auto
  then show ?case using Suc.IH worker_step_open by fastforce
qed

lemma worker_enabled:
  assumes inv: "pool_inv p" and opn: "p_started p" "\<not> p_stopClosed p" and work: "pending_work p \<noteq> 0"
  shows "\<exists>p'. worker_step p p'"
proof (cases "\<exists>i task. i < length (p_workers p) \<and> p_workers p ! i = Working task")
  case True
  then obtain i task where "i < length (p_workers p)" "p_workers p ! i = Working task" by blast
  then have "\<exists>p'. Pool_worker i Return p = Some p'" by (simp add: Pool_worker_def)
  then show ?thesis unfolding worker_step_def by blast
next
  case False
  have all: "v = Waiting" if "v \<in> set (p_workers p)" for v
  proof -
    have "v \<noteq> Exited" using inv opn that by (auto simp: pool_inv_def)
    moreover have "v \<noteq> Working t" for t using False that by (auto simp: in_set_conv_nth)
    ultimately show ?thesis by (cases v) auto
  qed
  then have "running_tasks p = []" by (fastforce simp: running_tasks_def)
  then obtain task queue where q: "p_taskQueue p = task # queue"
    using work by (cases "p_taskQueue p") (auto simp: pending_work_def)
  have "p_workers p \<noteq> []" using inv opn by (simp add: pool_inv_def)
  then have "p_workers p ! 0 = Waiting" "0 < length (p_workers p)" using all nth_mem by blast+
  then have "\<exists>p'. Pool_worker 0 TaskCh p = Some p'" using q by (simp add: Pool_worker_def)
  then show ?thesis unfolding worker_step_def by blast
qed

subsection \<open>One call of Submit\<close>

text \<open>
  What a caller of \<^verbatim>\<open>Submit\<close> sees when no other goroutine takes a step during the call: it runs the
  task itself, or the queue takes it. In the other cases (\<open>None\<close>) the call waits for a worker or for
  \<^verbatim>\<open>Stop\<close>, or the pool is stopped.
\<close>

datatype 'a submission = RunHere | Queued "'a WorkerPool"

definition Submit_alone :: "'a WorkerPool \<Rightarrow> 'a \<Rightarrow> 'a submission option" where
  "Submit_alone p task =
     (if p_stopping p then None
      else if \<not> p_started p then Some RunHere
      else if p_stopClosed p \<or> \<not> length (p_taskQueue p) < queue_capacity p then None
      else Some (Queued (p\<lparr>p_callers := p_callers p @ [CallReturned],
                           p_taskQueue := p_taskQueue p @ [task], p_accepted := p_accepted p @ [task]\<rparr>)))"

lemma caller_after_submit:
  "p_callers (Pool_Submit task p) ! length (p_callers p) = AtLock task"
  "length (p_callers p) < length (p_callers (Pool_Submit task p))"
  by (simp_all add: Pool_Submit_def)

lemma Submit_alone_steps:
  assumes inv: "pool_inv p" and live: "\<not> p_crashed p" and sub: "Submit_alone p task = Some r"
  shows "case r of
      RunHere \<Rightarrow> pool_step\<^sup>*\<^sup>* p (p\<lparr>p_callers := p_callers p @ [RunsTask task]\<rparr>)
    | Queued p' \<Rightarrow> pool_step\<^sup>*\<^sup>* p p'"
proof -
  let ?n = "length (p_callers p)" and ?p1 = "Pool_Submit task p"
  let ?p2 = "set_caller ?n (if p_started p then AtSelect task else RunsTask task) ?p1"
  have f: "p_stopping ?p1 = p_stopping p" "p_started ?p1 = p_started p" "p_crashed ?p1 = p_crashed p"
    by (simp_all add: Pool_Submit_def)
  have "\<not> p_stopping p" using sub by (simp add: Submit_alone_def split: if_splits)
  then have "Pool_caller ?n Return ?p1 = Some ?p2"
    using caller_after_submit [where p = p and task = task] f by (simp add: Pool_caller_def)
  then have two: "pool_step\<^sup>*\<^sup>* p ?p2"
    using pool_step.submit [OF live, where task = task] pool_step.caller [of ?p1] live f(3)
    by (metis converse_rtranclp_into_rtranclp r_into_rtranclp)
  have upd: "(xs @ [a])[length xs := b] = xs @ [b]" for xs and a b :: "'a caller" by simp
  show ?thesis
  proof (cases "p_started p")
    case False
    then show ?thesis using sub two
      by (simp add: Submit_alone_def set_caller_def Pool_Submit_def split: if_splits)
  next
    case True
    then obtain p' where r: "r = Queued p'"
      and p': "p' = p\<lparr>p_callers := p_callers p @ [CallReturned], p_taskQueue := p_taskQueue p @ [task],
          p_accepted := p_accepted p @ [task]\<rparr>"
      and o: "\<not> p_stopClosed p" "length (p_taskQueue p) < queue_capacity p"
      using sub by (auto simp: Submit_alone_def split: if_splits)
    have "\<not> p_queueClosed p" using inv o(1) by (simp add: pool_inv_def)
    then have "Pool_caller ?n TaskCh ?p2 = Some p'"
      using True o(2) unfolding p'
      by (simp add: Pool_caller_def set_caller_def Pool_Submit_def queue_capacity_def upd)
    moreover have "\<not> p_crashed ?p2" using live f(3) by (simp add: set_caller_def)
    ultimately show ?thesis
      using two pool_step.caller [of ?p2] r by (auto intro: rtranclp.rtrancl_into_rtrancl)
  qed
qed

subsection \<open>Properties\<close>

text \<open>
  C23. Whatever its clients do and however its goroutines are scheduled, a pool made for n workers
  (10 if n is not positive) never runs more than n tasks on its workers at once, and its queue never
  holds more than 2n.
\<close>

theorem pool_bounded:
  assumes "pool_step\<^sup>*\<^sup>* (NewWorkerPool n) p"
  shows "int (length (running_tasks p)) \<le> (if n \<le> 0 then 10 else n)
    \<and> Pool_QueueLength p \<le> 2 * (if n \<le> 0 then 10 else n) \<and> Pool_MaxWorkers p = (if n \<le> 0 then 10 else n)"
proof -
  have inv: "pool_inv p" using pool_reach_inv [OF assms new_pool_inv] .
  have "p_maxWorkers p = (if n \<le> 0 then 10 else n)"
    using pool_reach_max [OF assms] by (simp add: NewWorkerPool_def)
  moreover have "int (length (running_tasks p)) \<le> int (live (p_workers p))"
    using held_le_live [of "p_workers p"] by (simp add: running_tasks_def)
  ultimately show ?thesis
    using inv unfolding pool_inv_def Pool_QueueLength_def Pool_MaxWorkers_def queue_capacity_def by linarith
qed

text \<open>A pool with one worker that has accepted a task, and the same pool stopped.\<close>

definition sample_pool :: "nat WorkerPool" where
  "sample_pool = (Pool_Start (NewWorkerPool 1))
     \<lparr>p_callers := [CallReturned], p_taskQueue := [7], p_accepted := [7]\<rparr>"

definition sample_stopped :: "nat WorkerPool" where
  "sample_stopped = sample_pool\<lparr>p_stopClosed := True, p_queueClosed := True, p_started := False,
     p_workers := [Exited]\<rparr>"

lemma sample_pool_reached: "pool_step\<^sup>*\<^sup>* (NewWorkerPool 1) sample_pool"
proof -
  let ?p0 = "NewWorkerPool 1 :: nat WorkerPool"
  have s: "pool_step\<^sup>*\<^sup>* ?p0 (Pool_Start ?p0)"
    by (intro r_into_rtranclp pool_step.start) (simp_all add: NewWorkerPool_def)
  have "Submit_alone (Pool_Start ?p0) 7 = Some (Queued sample_pool)"
    by (simp add: Submit_alone_def sample_pool_def NewWorkerPool_def Pool_Start_def queue_capacity_def)
  from Submit_alone_steps [OF pool_start_inv [OF new_pool_inv] _ this]
  have "pool_step\<^sup>*\<^sup>* (Pool_Start ?p0) sample_pool"
    by (simp add: NewWorkerPool_def Pool_Start_def)
  then show ?thesis using s by (rule rtranclp_trans [rotated])
qed

lemma sample_stopped_reached: "pool_step\<^sup>*\<^sup>* (NewWorkerPool 1) sample_stopped"
proof -
  let ?p1 = "Pool_Stop sample_pool"
  let ?p2 = "?p1\<lparr>p_workers := [Exited]\<rparr>"
  have a: "pool_step sample_pool ?p1"
    by (rule pool_step.stop) (simp_all add: sample_pool_def Pool_Start_def NewWorkerPool_def)
  have b: "pool_step ?p1 ?p2"
    by (rule pool_step.worker [of _ 0 StopCh])
      (simp_all add: sample_pool_def Pool_Start_def NewWorkerPool_def Pool_Stop_def Pool_worker_def)
  have c: "pool_step ?p2 sample_stopped"
    by (rule pool_step.stopped)
      (simp_all add: sample_stopped_def sample_pool_def Pool_Start_def NewWorkerPool_def Pool_Stop_def
        Pool_StopReturns_def)
  show ?thesis using sample_pool_reached a b c by (meson rtranclp.rtrancl_into_rtrancl)
qed

theorem pool_bounded_witness: "int (length (running_tasks sample_pool)) \<le> 1 \<and> Pool_QueueLength sample_pool \<le> 2"
  using pool_bounded [OF sample_pool_reached] by simp

text \<open>
  C24. No task is lost or run twice by a worker: at every moment the tasks the queue has accepted are,
  counted with repetitions, those still queued, those being run, and those finished. The program
  cannot panic before \<^verbatim>\<open>Stop\<close> is called.
\<close>

theorem pool_tasks_accounted:
  assumes "pool_step\<^sup>*\<^sup>* (NewWorkerPool n) p"
  shows "mset (p_accepted p) = mset (p_taskQueue p) + mset (running_tasks p) + mset (p_finished p)
    \<and> (p_crashed p \<longrightarrow> p_stopClosed p)"
  using pool_reach_inv [OF assms new_pool_inv] by (simp add: pool_inv_def)

theorem pool_tasks_accounted_witness:
  "mset [7] = mset (p_taskQueue sample_pool) + mset (running_tasks sample_pool) + mset (p_finished sample_pool)"
  using pool_tasks_accounted [OF sample_pool_reached] by (simp add: sample_pool_def)

text \<open>
  C25. While a pool is started and not stopped, its workers finish every accepted task: they can take
  only boundedly many steps without a new submission, and whenever they can take none, every accepted
  task is finished.
\<close>

theorem pool_drains:
  assumes "pool_step\<^sup>*\<^sup>* (NewWorkerPool n) p" "p_started p" "\<not> p_stopClosed p" "(worker_step ^^ k) p p'"
  shows "k \<le> 2 * length (p_taskQueue p) + length (running_tasks p)
    \<and> ((\<nexists>q. worker_step p' q) \<longrightarrow> mset (p_finished p') = mset (p_accepted p))"
proof -
  have inv: "pool_inv p" using pool_reach_inv [OF assms(1) new_pool_inv] .
  note o = worker_steps_open [OF assms(4) inv assms(2,3)]
  have "mset (p_finished p') = mset (p_accepted p)" if stuck: "\<nexists>q. worker_step p' q"
  proof -
    have "pending_work p' = 0" using worker_enabled o stuck by blast
    then show ?thesis using o by (auto simp: pending_work_def pool_inv_def)
  qed
  then show ?thesis using o by (auto simp: pending_work_def)
qed

theorem pool_drains_witness:
  "\<exists>p'. (worker_step ^^ 2) sample_pool p' \<and> (\<nexists>q. worker_step p' q) \<and> mset (p_finished p') = mset [7]"
proof -
  define p1 where "p1 = sample_pool\<lparr>p_taskQueue := [], p_workers := [Working 7]\<rparr>"
  define p2 where "p2 = p1\<lparr>p_workers := [Waiting], p_finished := [7]\<rparr>"
  have defs: "p_workers sample_pool = [Waiting]" "p_taskQueue sample_pool = [7]" "p_started sample_pool"
    "\<not> p_stopClosed sample_pool" "p_accepted sample_pool = [7]" "p_finished sample_pool = []"
    "\<not> p_queueClosed sample_pool"
    by (simp_all add: sample_pool_def Pool_Start_def NewWorkerPool_def)
  have "Pool_worker 0 TaskCh sample_pool = Some p1" "Pool_worker 0 Return p1 = Some p2"
    using defs by (simp_all add: Pool_worker_def p1_def p2_def)
  then have steps: "(worker_step ^^ 2) sample_pool p2"
    unfolding worker_step_def numeral_2_eq_2 by auto
  have stuck: "\<nexists>q. worker_step p2 q"
    using defs by (auto simp: worker_step_def Pool_worker_def p1_def p2_def split: choice.splits)
  show ?thesis using pool_drains [OF sample_pool_reached defs(3,4) steps] steps stuck defs(5) by auto
qed

text \<open>
  When \<^verbatim>\<open>Stop\<close> has returned, as before the first \<^verbatim>\<open>Start\<close>, every worker there was has returned, none
  runs a task and none can take a step: what is left in the queue stays there.
\<close>

theorem pool_stopped_is_idle:
  assumes "pool_step\<^sup>*\<^sup>* (NewWorkerPool n) p" "\<not> p_started p"
  shows "running_tasks p = [] \<and> (\<forall>v \<in> set (p_workers p). v = Exited)
    \<and> (\<forall>i c. Pool_worker i c p = None)"
proof -
  have inv: "pool_inv p" using pool_reach_inv [OF assms(1) new_pool_inv] .
  then have all: "\<forall>v \<in> set (p_workers p). v = Exited" using assms(2) by (simp add: pool_inv_def live_zero)
  then have "running_tasks p = []" by (fastforce simp: running_tasks_def)
  moreover have "Pool_worker i c p = None" for i c
  proof (cases "i < length (p_workers p)")
    case True
    then have "p_workers p ! i = Exited" using all by simp
    then show ?thesis by (simp add: Pool_worker_def)
  qed (simp add: Pool_worker_def)
  ultimately show ?thesis using all by blast
qed

theorem pool_stopped_is_idle_witness:
  "p_taskQueue sample_stopped = [7] \<and> running_tasks sample_stopped = []"
  using pool_stopped_is_idle [OF sample_stopped_reached] by (simp add: sample_stopped_def sample_pool_def)

end
