(* ===== verification/Ticker.thy ===== *)
theory Ticker
  imports GoTime
begin

text \<open>
  What the three tickers of \<^verbatim>\<open>ticker/\<close> share: the configuration and its active window
  (\<^verbatim>\<open>ticker.go\<close>), the fields each struct has (\<open>running\<close>, \<open>paused\<close>, the channels), and the
  control methods, which the three files repeat. A ticker's \<^verbatim>\<open>run\<close> goroutine is a program counter
  in the list of loops started so far; the channel \<^verbatim>\<open>stopCh\<close> is only ever closed, so it is a flag,
  \<^verbatim>\<open>pauseCh\<close> holds at most one message, and \<open>emitted\<close> keeps all contexts ever sent, of which \<open>ch\<close>
  holds those not yet received. The clock of the world is part of the state.
\<close>

subsection \<open>Types of \<open>ticker.go\<close>\<close>

definition MaxOccurrenceIterations :: int where
  "MaxOccurrenceIterations = 10000"

record TickContext =
  x_ScheduledTime :: gotime
  x_ActualTime :: gotime
  x_LastRunTime :: "gotime option"

record TickerConfig =
  tk_StartTime :: "gotime option"
  tk_EndTime :: "gotime option"
  tk_Timezone :: string

definition withinWindow :: "TickerConfig \<Rightarrow> gotime \<Rightarrow> bool" where
  "withinWindow config checkTime \<longleftrightarrow>
     (case tk_StartTime config of Some s \<Rightarrow> \<not> Before checkTime s | None \<Rightarrow> True) \<and>
     (case tk_EndTime config of Some e \<Rightarrow> \<not> After checkTime e | None \<Rightarrow> True)"

definition timezone_of :: "TickerConfig \<Rightarrow> string" where
  "timezone_of config = (if tk_Timezone config = '''' then ''UTC'' else tk_Timezone config)"

subsection \<open>The common state\<close>

text \<open>
  Where a \<^verbatim>\<open>run\<close> loop stands: before it looks at the state, in the select of the paused branch, in
  the select of the one-minute sleep, in the select with the timer of a scheduled time, or returned.
  The selects with a timer carry the time at which the timer fires.
\<close>

datatype pc = Top | PausedSelect | WindowSelect instant | TimerSelect gotime instant | Returned

record TickerCore =
  running :: bool
  paused :: bool
  stopClosed :: bool
  pauseCh :: "bool list"
  ch :: "TickContext list"
  emitted :: "TickContext list"
  loops :: "pc list"
  clock :: instant

definition new_core :: "instant \<Rightarrow> TickerCore" where
  "new_core now =
     \<lparr>running = False, paused = False, stopClosed = False, pauseCh = [], ch = [], emitted = [],
      loops = [], clock = now\<rparr>"

subsection \<open>The control methods\<close>

definition startCore :: "'a TickerCore_scheme \<Rightarrow> 'a TickerCore_scheme" where
  "startCore t = (if running t then t else t\<lparr>running := True, loops := loops t @ [Top]\<rparr>)"

text \<open>Closing a closed channel panics: the result is \<open>None\<close>.\<close>

definition stopCore :: "'a TickerCore_scheme \<Rightarrow> 'a TickerCore_scheme option" where
  "stopCore t =
     (if \<not> running t then Some t
      else if stopClosed t then None
      else Some (t\<lparr>stopClosed := True, running := False\<rparr>))"

definition pauseCore :: "'a TickerCore_scheme \<Rightarrow> 'a TickerCore_scheme" where
  "pauseCore t =
     (if paused t then t
      else if length (pauseCh t) < 1 then t\<lparr>pauseCh := pauseCh t @ [True], paused := True\<rparr>
      else t)"

definition resumeCore :: "'a TickerCore_scheme \<Rightarrow> 'a TickerCore_scheme" where
  "resumeCore t =
     (if \<not> paused t then t
      else if length (pauseCh t) < 1 then t\<lparr>pauseCh := pauseCh t @ [False], paused := False\<rparr>
      else t)"

text \<open>A non-blocking send on the channel of the given capacity: a full channel drops the context.\<close>

definition trySend :: "nat \<Rightarrow> TickContext \<Rightarrow> 'a TickerCore_scheme \<Rightarrow> 'a TickerCore_scheme" where
  "trySend capacity ctx t =
     (if length (ch t) < capacity then t\<lparr>ch := ch t @ [ctx], emitted := emitted t @ [ctx]\<rparr> else t)"

text \<open>The reader of the channel takes the oldest context.\<close>

definition receive :: "'a TickerCore_scheme \<Rightarrow> (TickContext \<times> 'a TickerCore_scheme) option" where
  "receive t = (case ch t of [] \<Rightarrow> None | c # cs \<Rightarrow> Some (c, t\<lparr>ch := cs\<rparr>))"

definition set_pc :: "nat \<Rightarrow> pc \<Rightarrow> 'a TickerCore_scheme \<Rightarrow> 'a TickerCore_scheme" where
  "set_pc i p t = t\<lparr>loops := (loops t)[i := p]\<rparr>"

text \<open>What the selects have in common: the stop branch and the pause branch.\<close>

definition stopBranch :: "nat \<Rightarrow> 'a TickerCore_scheme \<Rightarrow> 'a TickerCore_scheme option" where
  "stopBranch i t = (if stopClosed t then Some (set_pc i Returned t) else None)"

definition pauseBranch ::
  "(bool \<Rightarrow> bool) \<Rightarrow> nat \<Rightarrow> 'a TickerCore_scheme \<Rightarrow> 'a TickerCore_scheme option" where
  "pauseBranch f i t =
     (case pauseCh t of
        [] \<Rightarrow> None
      | b # bs \<Rightarrow> Some (set_pc i Top (t\<lparr>pauseCh := bs, paused := f b\<rparr>)))"

text \<open>The branch of a select that a loop takes.\<close>

datatype branch = TimerFired | StopSeen | PauseSeen | Proceed

lemma set_pc_simps [simp]:
  "emitted (set_pc i p t) = emitted t" "ch (set_pc i p t) = ch t" "clock (set_pc i p t) = clock t"
  "loops (set_pc i p t) = (loops t)[i := p]" "paused (set_pc i p t) = paused t"
  "running (set_pc i p t) = running t" "stopClosed (set_pc i p t) = stopClosed t"
  "pauseCh (set_pc i p t) = pauseCh t"
  by (simp_all add: set_pc_def)

lemma withinWindow_iff:
  "withinWindow config t \<longleftrightarrow>
     (\<forall>s. tk_StartTime config = Some s \<longrightarrow> instant s \<le> instant t) \<and>
     (\<forall>e. tk_EndTime config = Some e \<longrightarrow> instant t \<le> instant e)"
  by (auto simp: withinWindow_def Before_def After_def split: option.splits)

lemma in_set_update: "p \<in> set (ps[i := q]) \<Longrightarrow> p = q \<or> p \<in> set ps"
  by (auto dest: set_update_subset_insert [THEN subsetD])

lemma ball_update: "\<forall>p \<in> set ps. P p \<Longrightarrow> P q \<Longrightarrow> \<forall>p \<in> set (ps[i := q]). P p"
  by (auto dest: in_set_update)

text \<open>A timer set for a time less than 292 years ahead, or for a time in the past, is not early.\<close>

lemma timer_not_early:
  assumes "instant nxt - c < 2 ^ 63" "instant now = c"
  shows "instant nxt \<le> add_dur c (if Before nxt now then 0 else Sub nxt now)"
  using assms sub_instant_exact [of "instant nxt" c]
  by (auto simp: Before_def add_dur_def Sub_def)

end
