(* ===== verification/CronTicker.thy ===== *)
theory CronTicker
  imports Ticker
begin

text \<open>
  The cron ticker of \<^verbatim>\<open>ticker/cron.go\<close>. The cron package (\<^verbatim>\<open>github.com/robfig/cron/v3\<close>) is external:
  \<open>Parse\<close>, which turns an expression into the function \<^verbatim>\<open>Next\<close> of its schedule, is a parameter, as is
  the time zone database (\<open>LoadLocation\<close>). The documented behaviour of \<^verbatim>\<open>Next\<close> is the predicate
  \<open>cron_next\<close>: the fields of an expression without a time zone of its own are read in the location of
  the given time, so the activation times depend on the location; \<^verbatim>\<open>Next\<close> returns the earliest one
  later than the given time, in its location, or the zero time if it finds none within five years.
\<close>

record CronTicker = TickerCore +
  expression :: string
  config :: TickerConfig
  Next :: "gotime \<Rightarrow> gotime"
  location :: location

definition NewCronTicker ::
  "(string \<Rightarrow> location result) \<Rightarrow> (string \<Rightarrow> (gotime \<Rightarrow> gotime) result) \<Rightarrow> instant \<Rightarrow> string
   \<Rightarrow> TickerConfig \<Rightarrow> CronTicker result"
where
  "NewCronTicker LoadLocation Parse now expr cfg =
     (case LoadLocation (timezone_of cfg) of
        Inl err \<Rightarrow> Inl (ErrInvalidTimezone (timezone_of cfg))
      | Inr l \<Rightarrow>
          (case Parse expr of
             Inl err \<Rightarrow> Inl (ErrInvalidCron expr)
           | Inr nxt \<Rightarrow>
               Inr (TickerCore.extend (new_core now)
                 (CronTicker.fields expr cfg nxt l))))"

definition Cron_Start :: "CronTicker \<Rightarrow> CronTicker" where
  "Cron_Start t = startCore t"

definition Cron_isWithinWindow :: "CronTicker \<Rightarrow> gotime \<Rightarrow> bool" where
  "Cron_isWithinWindow t checkTime = withinWindow (config t) checkTime"

definition Cron_Channel :: "CronTicker \<Rightarrow> TickContext list" where
  "Cron_Channel t = ch t"

definition Cron_Stop :: "CronTicker \<Rightarrow> CronTicker option" where
  "Cron_Stop t = stopCore t"

definition Cron_Pause :: "CronTicker \<Rightarrow> CronTicker" where
  "Cron_Pause t = pauseCore t"

definition Cron_Resume :: "CronTicker \<Rightarrow> CronTicker" where
  "Cron_Resume t = resumeCore t"

definition Cron_now :: "CronTicker \<Rightarrow> gotime" where
  "Cron_now t = \<lparr>instant = clock t, loc = location t\<rparr>"

definition Cron_IsActive :: "CronTicker \<Rightarrow> bool" where
  "Cron_IsActive t = Cron_isWithinWindow t (Cron_now t)"

definition Cron_IsPaused :: "CronTicker \<Rightarrow> bool" where
  "Cron_IsPaused t = paused t"

definition Cron_IsEnabled :: "CronTicker \<Rightarrow> bool" where
  "Cron_IsEnabled t = (Cron_IsActive t \<and> \<not> Cron_IsPaused t)"

definition Cron_NextRun :: "CronTicker \<Rightarrow> gotime option result" where
  "Cron_NextRun t =
     (let nxt = Next t (Cron_now t)
      in if \<not> Cron_isWithinWindow t nxt then Inr None else Inr (Some nxt))"

subsection \<open>The loop\<close>

text \<open>One step of loop \<open>i\<close> at its select, or from the top to the next select.\<close>

definition Cron_run :: "nat \<Rightarrow> branch \<Rightarrow> CronTicker \<Rightarrow> CronTicker option" where
  "Cron_run i b t =
     (if i < length (loops t) then
       (case (loops t ! i, b) of
          (Top, Proceed) \<Rightarrow>
            (if paused t then Some (set_pc i PausedSelect t)
             else (let now = Cron_now t; nxt = Next t now
                   in if \<not> Cron_isWithinWindow t nxt
                      then Some (set_pc i (WindowSelect (clock t + Minute)) t)
                      else Some (set_pc i (TimerSelect nxt (add_dur (clock t) (Sub nxt now))) t)))
        | (PausedSelect, StopSeen) \<Rightarrow> stopBranch i t
        | (PausedSelect, PauseSeen) \<Rightarrow> pauseBranch (\<lambda>b. b) i t
        | (WindowSelect due, TimerFired) \<Rightarrow> (if due \<le> clock t then Some (set_pc i Top t) else None)
        | (WindowSelect due, StopSeen) \<Rightarrow> stopBranch i t
        | (WindowSelect due, PauseSeen) \<Rightarrow> pauseBranch (\<lambda>b. b) i t
        | (TimerSelect nxt due, TimerFired) \<Rightarrow>
            (if due \<le> clock t
             then Some (trySend 10
                    \<lparr>x_ScheduledTime = nxt, x_ActualTime = Cron_now t, x_LastRunTime = None\<rparr>
                    (set_pc i Top t))
             else None)
        | (TimerSelect nxt due, StopSeen) \<Rightarrow> stopBranch i t
        | (TimerSelect nxt due, PauseSeen) \<Rightarrow> pauseBranch (\<lambda>b. b) i t
        | _ \<Rightarrow> None)
      else None)"

text \<open>
  A ticker in the world: its client calls the methods and receives from the channel, time passes,
  and its loops take steps, in any order.
\<close>

inductive cron_step :: "CronTicker \<Rightarrow> CronTicker \<Rightarrow> bool" where
  start: "cron_step t (Cron_Start t)"
| stop: "Cron_Stop t = Some t' \<Longrightarrow> cron_step t t'"
| pause: "cron_step t (Cron_Pause t)"
| resume: "cron_step t (Cron_Resume t)"
| receive: "receive t = Some (c, t') \<Longrightarrow> cron_step t t'"
| time: "clock t \<le> now \<Longrightarrow> cron_step t (t\<lparr>clock := now\<rparr>)"
| loop: "Cron_run i b t = Some t' \<Longrightarrow> cron_step t t'"

subsection \<open>Occurrences in an interval\<close>

function cronLoop ::
  "CronTicker \<Rightarrow> gotime \<Rightarrow> int \<Rightarrow> gotime \<Rightarrow> gotime list \<Rightarrow> gotime list result"
where
  "cronLoop t end' iterations current occurrences =
     (if Before current end'
      then (if iterations + 1 > MaxOccurrenceIterations then Inl ErrTooManyIterations
            else (let nxt = Next t current
                  in if After nxt end' then Inr occurrences
                     else cronLoop t end' (iterations + 1) nxt
                            (if Cron_isWithinWindow t nxt then occurrences @ [nxt] else occurrences)))
      else Inr occurrences)"
  by pat_completeness auto
termination
  by (relation "measure (\<lambda>(t, end', iterations, current, occurrences).
        nat (MaxOccurrenceIterations - iterations))") auto

declare cronLoop.simps [simp del]

definition Cron_GetOccurrencesBetween ::
  "CronTicker \<Rightarrow> gotime \<Rightarrow> gotime \<Rightarrow> gotime list result" where
  "Cron_GetOccurrencesBetween t start end' =
     cronLoop t (In end' (location t)) 0 (In start (location t)) []"

subsection \<open>The occurrences are exactly the activations\<close>

text \<open>The earliest of a set of instants after a time, in the location of that time.\<close>

definition earliest_after :: "instant set \<Rightarrow> gotime \<Rightarrow> gotime \<Rightarrow> bool" where
  "earliest_after S t u \<longleftrightarrow>
     instant t < instant u \<and> instant u \<in> S \<and> loc u = loc t \<and> (\<forall>x \<in> S. instant t < x \<longrightarrow> instant u \<le> x)"

text \<open>How far \<^verbatim>\<open>Next\<close> searches at least: five years of 365 days.\<close>

definition search_limit :: int where
  "search_limit = 5 * 365 * 24 * Hour"

text \<open>\<open>A l\<close> are the activation times of the expression when its fields are read in location \<open>l\<close>.\<close>

definition cron_next :: "(gotime \<Rightarrow> gotime) \<Rightarrow> (location \<Rightarrow> instant set) \<Rightarrow> bool" where
  "cron_next nxt A \<longleftrightarrow>
     (\<forall>t. earliest_after (A (loc t)) t (nxt t)
        \<or> nxt t = zeroTime \<and> (\<forall>x \<in> A (loc t). instant t < x \<longrightarrow> instant t + search_limit < x))"

text \<open>From every instant of \<open>I\<close> there is an activation within the search limit.\<close>

definition cron_regular :: "(location \<Rightarrow> instant set) \<Rightarrow> location \<Rightarrow> instant set \<Rightarrow> bool" where
  "cron_regular A l I \<longleftrightarrow> (\<forall>i \<in> I. \<exists>x \<in> A l. i < x \<and> x \<le> i + search_limit)"

lemma cron_regular_subset: "cron_regular A l I \<Longrightarrow> J \<subseteq> I \<Longrightarrow> cron_regular A l J"
  by (auto simp: cron_regular_def)

lemma cron_next_found:
  assumes "cron_next nxt A" "cron_regular A (loc t) I" "instant t \<in> I"
  shows "earliest_after (A (loc t)) t (nxt t)" "instant (nxt t) \<le> instant t + search_limit"
proof -
  obtain x where x: "x \<in> A (loc t)" "instant t < x" "x \<le> instant t + search_limit"
    using assms(2,3) unfolding cron_regular_def by blast
  then show "earliest_after (A (loc t)) t (nxt t)" using assms(1) unfolding cron_next_def by force
  then show "instant (nxt t) \<le> instant t + search_limit" using x unfolding earliest_after_def by force
qed

definition at_location :: "location \<Rightarrow> instant \<Rightarrow> gotime" where
  "at_location l x = \<lparr>instant = x, loc = l\<rparr>"

lemma sorted_list_of_set_first:
  assumes "finite S" "\<forall>x \<in> S. a < (x :: int)"
  shows "sorted_list_of_set (insert a S) = a # sorted_list_of_set S"
proof -
  have "a \<notin> S" using assms(2) by auto
  then have "sorted_list_of_set (insert a S) = insort a (sorted_list_of_set S)"
    using assms(1) by (simp add: sorted_list_of_set_insert)
  also have "\<dots> = a # sorted_list_of_set S"
    using assms by (intro insort_is_Cons) (auto intro: less_imp_le)
  finally show ?thesis .
qed

lemma finite_between: "finite {x \<in> A. c < x \<and> x \<le> (e :: int) \<and> P x}" "finite {x \<in> A. c < x \<and> x < e}"
  by (rule finite_subset [of _ "{c..e}"]; force)+

lemma cronLoop_spec:
  assumes "cron_next (Next t) A" "cron_regular A (loc c) {instant c ..< instant e}" "S = A (loc c)"
  shows "cronLoop t e it c acc =
    (if Before c e \<and> it + 1 + int (card {x \<in> S. instant c < x \<and> x < instant e}) > MaxOccurrenceIterations
     then Inl ErrTooManyIterations
     else Inr (acc @ map (at_location (loc c)) (sorted_list_of_set
            {x \<in> S. instant c < x \<and> x \<le> instant e \<and> withinWindow (config t) (at_location (loc c) x)})))"
  using assms
proof (induction t e it c acc rule: cronLoop.induct)
  case (1 t e it c acc)
  let ?n = "Next t c"
  let ?S = "\<lambda>c. {x \<in> S. instant c < x \<and> x \<le> instant e \<and> withinWindow (config t) (at_location (loc c) x)}"
  let ?T = "\<lambda>c. {x \<in> S. instant c < x \<and> x < instant e}"
  have n: "instant c < instant ?n" "instant ?n \<in> S" "loc ?n = loc c" "\<forall>x \<in> S. instant c < x \<longrightarrow> instant ?n \<le> x"
    if "Before c e"
    using cron_next_found(1) [OF 1(2,3)] that 1(4) by (simp_all add: earliest_after_def Before_def)
  consider (finished) "\<not> Before c e" | (limit) "Before c e" "it + 1 > MaxOccurrenceIterations"
    | (last) "Before c e" "it + 1 \<le> MaxOccurrenceIterations" "After ?n e"
    | (more) "Before c e" "it + 1 \<le> MaxOccurrenceIterations" "\<not> After ?n e"
    by force
  then show ?case
  proof cases
    case finished
    then have none: "?S c = {}" by (auto simp: Before_def)
    show ?thesis unfolding none using finished by (simp add: cronLoop.simps [of t])
  next
    case limit
    then show ?thesis by (simp add: cronLoop.simps [of t])
  next
    case last
    then have none: "?S c = {}" "?T c = {}" using n(4) by (fastforce simp: After_def)+
    show ?thesis unfolding none using last by (simp add: cronLoop.simps [of t])
  next
    case more
    note n = n [OF more(1)]
    have nx: "?n = at_location (loc c) (instant ?n)" using n(3) by (simp add: at_location_def)
    have reg: "cron_regular A (loc ?n) {instant ?n ..< instant e}" "S = A (loc ?n)"
      using cron_regular_subset [OF 1(3)] n(1,3) 1(4) by auto
    have IH: "cronLoop t e (it + 1) ?n acc' =
      (if Before ?n e \<and> it + 1 + 1 + int (card (?T ?n)) > MaxOccurrenceIterations
       then Inl ErrTooManyIterations
       else Inr (acc' @ map (at_location (loc c)) (sorted_list_of_set (?S ?n))))"
      if "acc' = (if Cron_isWithinWindow t ?n then acc @ [?n] else acc)" for acc'
      using 1(1) [OF more(1) _ refl more(3) 1(2) reg] more(2) n(3) that by simp
    have S: "?S c = (if withinWindow (config t) ?n then insert (instant ?n) (?S ?n) else ?S ?n)"
    proof -
      have win: "withinWindow (config t) ?n = withinWindow (config t) (at_location (loc c) (instant ?n))"
        by (simp add: withinWindow_iff at_location_def)
      have split: "instant c < x \<longleftrightarrow> x = instant ?n \<or> instant ?n < x" if "x \<in> S" for x
        using n(1,4) that by (metis order_le_less less_trans)
      show ?thesis unfolding win using split n(2,3) more(3) by (auto simp: After_def)
    qed
    have list: "map (at_location (loc c)) (sorted_list_of_set (?S c)) =
        (if withinWindow (config t) ?n then [?n] else []) @ map (at_location (loc c)) (sorted_list_of_set (?S ?n))"
    proof -
      have "finite (?S ?n)" "\<forall>x \<in> ?S ?n. instant ?n < x" using finite_between(1) by auto
      from sorted_list_of_set_first [OF this] show ?thesis using S nx by auto
    qed
    have "int (card (?T c)) = (if Before ?n e then 1 + int (card (?T ?n)) else 0)"
    proof (cases "Before ?n e")
      case True
      then have "?T c = insert (instant ?n) (?T ?n)"
        using n by (force simp: Before_def)
      moreover have "finite (?T ?n)" "instant ?n \<notin> ?T ?n" by (auto simp: finite_between)
      ultimately show ?thesis using True by simp
    next
      case False
      then have none: "?T c = {}" using n(4) by (fastforce simp: Before_def)
      show ?thesis unfolding none using False by simp
    qed
    then show ?thesis using IH [OF refl] list more
      by (subst cronLoop.simps) (simp add: Cron_isWithinWindow_def Let_def)
  qed
qed

subsection \<open>What a running ticker emits\<close>

abbreviation scheduled :: "TickContext \<Rightarrow> instant" where
  "scheduled c \<equiv> instant (x_ScheduledTime c)"

definition emission_ok :: "TickerConfig \<Rightarrow> instant set \<Rightarrow> instant \<Rightarrow> TickContext \<Rightarrow> bool" where
  "emission_ok cfg A now c \<longleftrightarrow>
     scheduled c \<in> A \<and> withinWindow cfg (x_ScheduledTime c)
     \<and> scheduled c \<le> instant (x_ActualTime c) \<and> instant (x_ActualTime c) \<le> now"

fun pc_ok :: "TickerConfig \<Rightarrow> instant set \<Rightarrow> pc \<Rightarrow> bool" where
  "pc_ok cfg A (TimerSelect nxt due) = (instant nxt \<in> A \<and> withinWindow cfg nxt \<and> instant nxt \<le> due)"
| "pc_ok cfg A p = True"

text \<open>With one loop, the armed time lies after all times emitted before.\<close>

definition ordered :: "CronTicker \<Rightarrow> bool" where
  "ordered t \<longleftrightarrow>
     sorted_wrt (<) (map scheduled (emitted t)) \<and>
     (\<forall>p \<in> set (loops t). \<forall>nxt due. p = TimerSelect nxt due \<longrightarrow>
        (\<forall>c \<in> set (emitted t). scheduled c < instant nxt))"

definition cron_inv :: "instant set \<Rightarrow> CronTicker \<Rightarrow> bool" where
  "cron_inv A t \<longleftrightarrow>
     (\<forall>c \<in> set (emitted t). emission_ok (config t) A (clock t) c) \<and>
     (\<forall>p \<in> set (loops t). pc_ok (config t) A p) \<and>
     (length (loops t) \<le> 1 \<longrightarrow> ordered t) \<and>
     suffix (ch t) (emitted t) \<and> length (ch t) \<le> 10"

lemma cron_set_pc [simp]:
  "config (set_pc i p t) = config t" "Next (set_pc i p t) = Next t" "location (set_pc i p t) = location t"
  by (simp_all add: set_pc_def)

lemma emission_ok_later: "emission_ok cfg A now c \<Longrightarrow> now \<le> now' \<Longrightarrow> emission_ok cfg A now' c"
  by (auto simp: emission_ok_def)

text \<open>The three kinds of loop steps: nothing is sent, a timer is set, a timer fires.\<close>

definition same_schedule :: "CronTicker \<Rightarrow> CronTicker \<Rightarrow> bool" where
  "same_schedule t t' \<longleftrightarrow> config t' = config t \<and> Next t' = Next t \<and> location t' = location t"

definition quiet :: "CronTicker \<Rightarrow> CronTicker \<Rightarrow> bool" where
  "quiet t t' \<longleftrightarrow> emitted t' = emitted t \<and> ch t' = ch t \<and> clock t' = clock t \<and> same_schedule t t'"

definition fired :: "CronTicker \<Rightarrow> gotime \<Rightarrow> TickContext" where
  "fired t nxt = \<lparr>x_ScheduledTime = nxt, x_ActualTime = Cron_now t, x_LastRunTime = None\<rparr>"

lemma Cron_run_cases:
  assumes "Cron_run i b t = Some t'"
  obtains (quiet) p where "i < length (loops t)" "quiet t t'" "loops t' = (loops t)[i := p]"
      "\<forall>nxt due. p \<noteq> TimerSelect nxt due"
  | (arm) "i < length (loops t)" "Cron_isWithinWindow t (Next t (Cron_now t))"
      "t' = set_pc i (TimerSelect (Next t (Cron_now t))
              (add_dur (clock t) (Sub (Next t (Cron_now t)) (Cron_now t)))) t"
  | (fire) nxt due where "i < length (loops t)" "loops t ! i = TimerSelect nxt due" "due \<le> clock t"
      "t' = trySend 10 (fired t nxt) (set_pc i Top t)"
proof -
  have i: "i < length (loops t)" using assms by (auto simp: Cron_run_def split: if_splits)
  have stopq: "quiet t v \<and> (\<exists>p. loops v = (loops t)[i := p] \<and> (\<forall>nxt due. p \<noteq> TimerSelect nxt due))"
    if "stopBranch i t = Some v" for v
    using that by (auto simp: stopBranch_def quiet_def same_schedule_def split: if_splits)
  have pauseq: "quiet t v \<and> (\<exists>p. loops v = (loops t)[i := p] \<and> (\<forall>nxt due. p \<noteq> TimerSelect nxt due))"
    if "pauseBranch (\<lambda>b. b) i t = Some v" for v
    using that by (auto simp: pauseBranch_def quiet_def same_schedule_def split: list.splits)
  have setq: "quiet t (set_pc i p t)" for p by (simp add: quiet_def same_schedule_def)
  show thesis
  proof (cases "loops t ! i")
    case Top
    then show thesis using assms i setq that(1) [OF i, of "PausedSelect"] that(1) [OF i, of "WindowSelect _"] that(2)
      by (auto simp: Cron_run_def Let_def split: branch.splits if_splits)
  next
    case PausedSelect
    then have "stopBranch i t = Some t' \<or> pauseBranch (\<lambda>b. b) i t = Some t'"
      using assms i by (auto simp: Cron_run_def split: branch.splits)
    then show thesis using i stopq pauseq that(1) by blast
  next
    case (WindowSelect due)
    then have "stopBranch i t = Some t' \<or> pauseBranch (\<lambda>b. b) i t = Some t' \<or> t' = set_pc i Top t"
      using assms i by (auto simp: Cron_run_def split: branch.splits if_splits)
    then show thesis using i stopq pauseq setq that(1) [OF i _ _, of Top] that(1) by auto
  next
    case (TimerSelect nxt due)
    then have "stopBranch i t = Some t' \<or> pauseBranch (\<lambda>b. b) i t = Some t' \<or>
        due \<le> clock t \<and> t' = trySend 10 (fired t nxt) (set_pc i Top t)"
      using assms i by (auto simp: Cron_run_def fired_def split: branch.splits if_splits)
    then show thesis using i stopq pauseq that(1) that(3) [OF i TimerSelect] by blast
  next
    case Returned
    then show thesis using assms i by (auto simp: Cron_run_def)
  qed
qed

lemma timer_due:
  assumes "instant now < instant nxt" "instant nxt - instant now < 2 ^ 63"
  shows "add_dur (instant now) (Sub nxt now) = instant nxt"
  using sub_instant_exact [of "instant nxt" "instant now"] assms by (simp add: add_dur_def Sub_def)

lemma cron_static:
  assumes "cron_step t t'"
  shows "same_schedule t t'"
  using assms
proof cases
  case (loop i b)
  from this(1) show ?thesis
    by (cases rule: Cron_run_cases) (auto simp: quiet_def same_schedule_def trySend_def)
qed (auto simp: same_schedule_def Cron_Start_def startCore_def Cron_Stop_def stopCore_def Cron_Pause_def
      pauseCore_def Cron_Resume_def resumeCore_def receive_def split: if_splits list.splits)

lemma one_loop: "length ps \<le> 1 \<Longrightarrow> i < length ps \<Longrightarrow> ps[i := q] = [q]"
  by (cases ps) auto

lemma loop_inv:
  assumes inv: "cron_inv (A (location t)) t" and nx: "cron_next (Next t) A" "cron_regular A (location t) {clock t ..}"
    and run: "Cron_run i b t = Some t'"
  shows "cron_inv (A (location t)) t'"
  using run
proof (cases rule: Cron_run_cases)
  case (quiet p)
  then have "pc_ok (config t) (A (location t)) p" by (cases p) auto
  then have "\<forall>p \<in> set (loops t'). pc_ok (config t) (A (location t)) p"
    using inv unfolding quiet(3) by (intro ball_update) (simp_all add: cron_inv_def)
  moreover have "length (loops t') \<le> 1 \<longrightarrow> ordered t'"
    using inv quiet one_loop [of "loops t" i p] by (auto simp: cron_inv_def ordered_def quiet_def)
  ultimately show ?thesis
    using inv quiet(2) by (auto simp: cron_inv_def quiet_def same_schedule_def)
next
  case arm
  let ?now = "Cron_now t" and ?nxt = "Next t (Cron_now t)"
  have now: "instant ?now = clock t" "loc ?now = location t" by (simp_all add: Cron_now_def)
  have n: "instant ?now < instant ?nxt" "instant ?nxt \<in> A (location t)" "instant ?nxt - instant ?now < 2 ^ 63"
    using cron_next_found [OF nx(1), of ?now "{clock t ..}"] nx(2) now by (auto simp: earliest_after_def search_limit_def)
  have due: "add_dur (clock t) (Sub ?nxt ?now) = instant ?nxt"
    using timer_due [OF n(1,3)] now by simp
  let ?p = "TimerSelect ?nxt (add_dur (clock t) (Sub ?nxt ?now))"
  have "pc_ok (config t) (A (location t)) ?p" using n(2) arm(2) due by (simp add: Cron_isWithinWindow_def)
  moreover have "scheduled c < instant ?nxt" if "c \<in> set (emitted t)" for c
    using inv that n(1) now by (fastforce simp: cron_inv_def emission_ok_def)
  moreover have "\<forall>p \<in> set ((loops t)[i := ?p]). pc_ok (config t) (A (location t)) p"
    using inv calculation(1) by (intro ball_update) (simp_all add: cron_inv_def)
  ultimately show ?thesis
    using inv one_loop [OF _ arm(1), of ?p] unfolding arm(3)
    by (simp add: cron_inv_def ordered_def)
next
  case (fire nxt due)
  have p: "pc_ok (config t) (A (location t)) (TimerSelect nxt due)" using inv fire(1,2) nth_mem by (fastforce simp: cron_inv_def)
  have new: "emission_ok (config t) (A (location t)) (clock t) (fired t nxt)"
    using p fire(3) by (simp add: emission_ok_def fired_def Cron_now_def)
  have top: "\<forall>p \<in> set ((loops t)[i := Top]). pc_ok (config t) (A (location t)) p"
    using inv by (intro ball_update) (simp_all add: cron_inv_def)
  have ord: "sorted_wrt (<) (map scheduled (emitted t)) \<and> (\<forall>c \<in> set (emitted t). scheduled c < instant nxt)"
    if "length (loops t) \<le> 1"
    using inv that nth_mem [OF fire(1)] fire(2) by (auto simp: cron_inv_def ordered_def)
  have ones: "(loops t)[i := Top] = [Top]" if "length (loops t) \<le> 1" using one_loop [OF that fire(1)] .
  show ?thesis
    using inv new top ord ones unfolding fire(4)
    by (auto simp: cron_inv_def ordered_def trySend_def fired_def sorted_wrt_append)
qed

lemma step_inv:
  assumes "cron_step t t'" "cron_inv (A (location t)) t" "cron_next (Next t) A" "cron_regular A (location t) {clock t ..}"
  shows "cron_inv (A (location t)) t'"
  using assms(1)
proof cases
  case (loop i b)
  then show ?thesis using loop_inv assms(2-) by blast
next
  case (time now)
  then show ?thesis using assms(2) emission_ok_later by (auto simp: cron_inv_def ordered_def)
next
  case (receive c)
  then obtain cs where "ch t = c # cs" "t' = t\<lparr>ch := cs\<rparr>" by (auto simp: receive_def split: list.splits)
  then show ?thesis using assms(2) by (auto simp: cron_inv_def ordered_def dest: suffix_ConsD)
next
  case start
  then show ?thesis using assms(2) by (auto simp: cron_inv_def ordered_def Cron_Start_def startCore_def)
next
  case stop
  then show ?thesis using assms(2)
    by (auto simp: cron_inv_def ordered_def Cron_Stop_def stopCore_def split: if_splits)
next
  case pause
  then show ?thesis using assms(2) by (auto simp: cron_inv_def ordered_def Cron_Pause_def pauseCore_def)
next
  case resume
  then show ?thesis using assms(2) by (auto simp: cron_inv_def ordered_def Cron_Resume_def resumeCore_def)
qed

lemma cron_step_clock:
  assumes "cron_step t t'"
  shows "clock t \<le> clock t'"
  using assms
proof cases
  case (loop i b)
  from this(1) show ?thesis by (cases rule: Cron_run_cases) (auto simp: quiet_def trySend_def)
qed (auto simp: Cron_Start_def startCore_def Cron_Stop_def stopCore_def Cron_Pause_def pauseCore_def Cron_Resume_def
      resumeCore_def receive_def split: if_splits list.splits)

lemma new_cron_inv:
  "NewCronTicker LoadLocation Parse now expr cfg = Inr t \<Longrightarrow> cron_inv A t \<and> clock t = now"
  by (auto simp: NewCronTicker_def cron_inv_def ordered_def new_core_def TickerCore.extend_def
      CronTicker.fields_def split: sum.splits)

lemma reach_inv:
  assumes "cron_step\<^sup>*\<^sup>* t0 t" "cron_inv (A (location t0)) t0" "cron_next (Next t0) A"
    "cron_regular A (location t0) {clock t0 ..}"
  shows "cron_inv (A (location t0)) t \<and> same_schedule t0 t \<and> clock t0 \<le> clock t"
  using assms(1)
proof (induction rule: rtranclp_induct)
  case base
  then show ?case using assms(2) by (simp add: same_schedule_def)
next
  case (step t t')
  have same: "location t = location t0" "Next t = Next t0" using step(3) by (simp_all add: same_schedule_def)
  have "cron_regular A (location t) {clock t ..}" using cron_regular_subset [OF assms(4)] step(3) same by auto
  then have "cron_inv (A (location t)) t'" using step_inv [OF step(2), of A] step(3) assms(3) same by simp
  then show ?case
    using cron_static [OF step(2)] cron_step_clock [OF step(2)] step(3) same by (auto simp: same_schedule_def)
qed

lemma cron_occurrences:
  assumes "cron_next (Next t) A" "cron_regular A (location t) {instant start ..< instant end'}"
  shows "Cron_GetOccurrencesBetween t start end' =
    (if instant start < instant end'
        \<and> 1 + int (card {x \<in> A (location t). instant start < x \<and> x < instant end'}) > 10000
     then Inl ErrTooManyIterations
     else Inr (map (at_location (location t)) (sorted_list_of_set
            {x \<in> A (location t). instant start < x \<and> x \<le> instant end'
                    \<and> withinWindow (config t) (at_location (location t) x)})))"
  using cronLoop_spec [OF assms(1), of "In start (location t)" "In end' (location t)" "A (location t)" 0 "[]"] assms(2)
  by (simp add: Cron_GetOccurrencesBetween_def Before_def In_def MaxOccurrenceIterations_def)

subsection \<open>An expression that names no date\<close>

text \<open>For an expression such as \<^verbatim>\<open>0 0 30 2 *\<close> every call of \<^verbatim>\<open>Next\<close> returns the zero time.\<close>

lemma never_next: "cron_next nxt (\<lambda>l. {}) \<Longrightarrow> nxt t = zeroTime"
  by (simp add: cron_next_def earliest_after_def)

lemma cronLoop_zero:
  assumes "cron_next (Next t) (\<lambda>l. {})" "zero_time < instant e" "Before c e"
  shows "cronLoop t e it c acc = Inl ErrTooManyIterations"
  using assms
proof (induction t e it c acc rule: cronLoop.induct)
  case (1 t e it c acc)
  note n = never_next [OF 1(2)]
  have z: "\<not> After zeroTime e" "Before zeroTime e" using 1(3) by (simp_all add: After_def Before_def zeroTime_def)
  show ?case
  proof (cases "it + 1 > MaxOccurrenceIterations")
    case True
    then show ?thesis using 1(4) by (simp add: cronLoop.simps [of t])
  next
    case False
    then show ?thesis using 1(1) [OF 1(4) False refl _ 1(2,3)] 1(4) n z
      by (cases "Cron_isWithinWindow t zeroTime") (simp_all add: cronLoop.simps [of t e it c])
  qed
qed

subsection \<open>Properties\<close>

text \<open>
  Schedules with a period, at an offset that depends on the location: every minute, and every day at
  nine in locations that are whole hours east of UTC. The documented behaviour of a cron schedule
  can hold, also for an expression that depends on the location.
\<close>

definition periodic :: "int \<Rightarrow> (location \<Rightarrow> int) \<Rightarrow> gotime \<Rightarrow> gotime" where
  "periodic p off t = t\<lparr>instant := ((instant t - off (loc t)) div p + 1) * p + off (loc t)\<rparr>"

definition every_minute :: "gotime \<Rightarrow> gotime" where
  "every_minute = periodic Minute (\<lambda>l. 0)"

definition daily_nine :: "gotime \<Rightarrow> gotime" where
  "daily_nine = periodic (24 * Hour) (\<lambda>l. 9 * Hour - int l * Hour)"

definition nine :: "location \<Rightarrow> instant set" where
  "nine l = {x. 24 * Hour dvd x - (9 * Hour - int l * Hour)}"

definition sample_config :: TickerConfig where
  "sample_config = \<lparr>tk_StartTime = None, tk_EndTime = None, tk_Timezone = ''''\<rparr>"

definition sample_cron :: "(gotime \<Rightarrow> gotime) \<Rightarrow> location \<Rightarrow> CronTicker" where
  "sample_cron nxt l = TickerCore.extend (new_core 0) (CronTicker.fields ''0 9 * * *'' sample_config nxt l)"

lemma sample_cron_new:
  "NewCronTicker (\<lambda>z. Inr l) (\<lambda>e. Inr nxt) 0 ''0 9 * * *'' sample_config = Inr (sample_cron nxt l)"
  by (simp add: NewCronTicker_def sample_cron_def)

lemma sample_cron_simps [simp]:
  "Next (sample_cron nxt l) = nxt" "location (sample_cron nxt l) = l" "config (sample_cron nxt l) = sample_config"
  "clock (sample_cron nxt l) = 0" "withinWindow sample_config x"
  by (simp_all add: sample_cron_def TickerCore.extend_def CronTicker.fields_def new_core_def sample_config_def withinWindow_def)

lemma next_multiple:
  fixes p i x :: int
  assumes "0 < p"
  shows "i < (i div p + 1) * p" "(i div p + 1) * p \<le> i + p" "p dvd x \<Longrightarrow> i < x \<Longrightarrow> (i div p + 1) * p \<le> x"
proof -
  have "i = i div p * p + i mod p" "0 \<le> i mod p" "i mod p < p" using assms by simp_all
  then show "i < (i div p + 1) * p" "(i div p + 1) * p \<le> i + p" unfolding distrib_right by linarith+
  assume dv: "p dvd x" and lt: "i < x"
  obtain k where k: "x = k * p" using dv by (metis dvdE mult.commute)
  have "i div p < k"
  proof (rule ccontr)
    assume "\<not> i div p < k"
    then have "k * p \<le> i div p * p" using assms by (intro mult_right_mono) simp_all
    moreover have "i div p * p \<le> i" using div_mult_mod_eq [of i p] pos_mod_sign [OF assms, of i] by linarith
    ultimately show False using k lt by simp
  qed
  then show "(i div p + 1) * p \<le> x" unfolding k using assms by (intro mult_right_mono) simp_all
qed

lemma periodic_next:
  assumes "0 < p" "p \<le> search_limit"
  shows "cron_next (periodic p off) (\<lambda>l. {x. p dvd x - off l})" "cron_regular (\<lambda>l. {x. p dvd x - off l}) l I"
proof -
  have "earliest_after {x. p dvd x - off (loc t)} t (periodic p off t)" for t
  proof -
    let ?i = "instant t - off (loc t)"
    have "(?i div p + 1) * p \<le> x - off (loc t)" if "p dvd x - off (loc t)" "instant t < x" for x
      using next_multiple(3) [OF assms(1) that(1), of ?i] that(2) by simp
    then show ?thesis using next_multiple(1) [OF assms(1), of ?i] by (fastforce simp: earliest_after_def periodic_def)
  qed
  then show "cron_next (periodic p off) (\<lambda>l. {x. p dvd x - off l})" by (simp add: cron_next_def)
  have "\<exists>x. p dvd x - off l \<and> i < x \<and> x \<le> i + search_limit" for i
    using next_multiple(1,2) [OF assms(1), of "i - off l"] assms(2)
    by (intro exI [of _ "((i - off l) div p + 1) * p + off l"]) simp
  then show "cron_regular (\<lambda>l. {x. p dvd x - off l}) l I" by (simp add: cron_regular_def)
qed

lemma every_minute_next: "cron_next every_minute (\<lambda>l. {x. Minute dvd x})"
  using periodic_next(1) [of Minute "\<lambda>l. 0"] by (simp add: every_minute_def search_limit_def)

lemma daily_nine_next: "cron_next daily_nine nine" "cron_regular nine l I"
  using periodic_next [of "24 * Hour" "\<lambda>l. 9 * Hour - int l * Hour"]
  by (simp_all add: daily_nine_def nine_def [abs_def] search_limit_def)

text \<open>
  C13. The occurrences of a cron ticker between two times are exactly the activation times of its
  expression, read in the time zone of the ticker and not in those of the arguments, that lie after
  the first and up to and including the second and in the active window, in order and each once; the
  only other result is the iteration error, given exactly if 10000 or more activation times lie
  strictly between them. The expression must have an activation within five years from every time of
  the interval; expressions without any activation are dealt with below.
\<close>

theorem cron_occurrences_exact:
  assumes "cron_next (Next t) A" "cron_regular A (location t) {instant start ..< instant end'}"
  shows "Cron_GetOccurrencesBetween t start end' =
    (if instant start < instant end'
        \<and> 1 + int (card {x \<in> A (location t). instant start < x \<and> x < instant end'}) > 10000
     then Inl ErrTooManyIterations
     else Inr (map (at_location (location t)) (sorted_list_of_set
            {x \<in> A (location t). instant start < x \<and> x \<le> instant end'
                    \<and> withinWindow (config t) (at_location (location t) x)})))"
  by (rule cron_occurrences [OF assms])

text \<open>Nine o'clock in a zone three hours east of UTC, asked for in times of UTC, is six o'clock UTC.\<close>

theorem cron_occurrences_exact_witness:
  "Cron_GetOccurrencesBetween (sample_cron daily_nine 3) (at_location 0 0) (at_location 0 (48 * Hour))
     = Inr (map (at_location 3) (sorted_list_of_set {6 * Hour, 30 * Hour}))"
proof -
  let ?t = "sample_cron daily_nine 3"
  have "x = 6 * Hour \<or> x = 30 * Hour" if dv: "24 * Hour dvd x - 6 * Hour" and x: "0 < x" "x \<le> 48 * Hour" for x
  proof -
    obtain k where "x - 6 * Hour = 24 * Hour * k" using dv unfolding dvd_def by blast
    then have k: "x = k * (24 * Hour) + 6 * Hour" by simp
    then have "k = 0 \<or> k = 1" using x by auto
    then show ?thesis using k by auto
  qed
  then have nine: "{x \<in> nine 3. 0 < x \<and> x \<le> 48 * Hour} = {6 * Hour, 30 * Hour}"
    "{x \<in> nine 3. 0 < x \<and> x < 48 * Hour} = {6 * Hour, 30 * Hour}"
    unfolding nine_def by (auto, fastforce)
  show ?thesis
    using cron_occurrences_exact [of ?t nine "at_location 0 0" "at_location 0 (48 * Hour)"] daily_nine_next nine
    by (simp add: at_location_def)
qed

text \<open>
  C26. Whatever the client does and however the loops of a new cron ticker are scheduled, it emits only
  activation times of its expression in its time zone and inside the active window, and never before
  they are due. While it has been started once, it emits the activation times in increasing order and
  each at most once. The channel holds the last contexts emitted, at most ten. The expression must
  have an activation within five years from every time since the ticker was made.
\<close>

theorem cron_emissions:
  assumes "NewCronTicker LoadLocation Parse now expr cfg = Inr t0" "cron_next (Next t0) A"
    "cron_regular A (location t0) {now ..}" "cron_step\<^sup>*\<^sup>* t0 t"
  shows "(\<forall>c \<in> set (emitted t). emission_ok (config t0) (A (location t0)) (clock t) c)
    \<and> (length (loops t) \<le> 1 \<longrightarrow> sorted_wrt (<) (map scheduled (emitted t)))
    \<and> suffix (ch t) (emitted t) \<and> length (ch t) \<le> 10"
proof -
  have "cron_inv (A (location t0)) t \<and> same_schedule t0 t"
    using reach_inv [OF assms(4) _ assms(2)] new_cron_inv [OF assms(1)] assms(3) by simp
  then show ?thesis by (auto simp: cron_inv_def ordered_def same_schedule_def)
qed

text \<open>A ticker in the zone three hours east of UTC, started at midnight UTC: it fires at six o'clock UTC.\<close>

definition sample_armed :: CronTicker where
  "sample_armed = the (Cron_run 0 Proceed (Cron_Start (sample_cron daily_nine 3)))"

definition sample_fired :: CronTicker where
  "sample_fired = the (Cron_run 0 TimerFired (sample_armed\<lparr>clock := 6 * Hour\<rparr>))"

lemma sample_fired_steps:
  "Cron_run 0 Proceed (Cron_Start (sample_cron daily_nine 3)) = Some sample_armed"
  "clock sample_armed \<le> 6 * Hour" "Cron_run 0 TimerFired (sample_armed\<lparr>clock := 6 * Hour\<rparr>) = Some sample_fired"
  "map scheduled (emitted sample_fired) = [6 * Hour]" "clock sample_fired = 6 * Hour"
proof -
  have "\<not> Option.is_none (Cron_run 0 Proceed (Cron_Start (sample_cron daily_nine 3)))"
    "\<not> Option.is_none (Cron_run 0 TimerFired (sample_armed\<lparr>clock := 6 * Hour\<rparr>))" by code_simp+
  then show "Cron_run 0 Proceed (Cron_Start (sample_cron daily_nine 3)) = Some sample_armed"
    "Cron_run 0 TimerFired (sample_armed\<lparr>clock := 6 * Hour\<rparr>) = Some sample_fired"
    unfolding sample_armed_def [symmetric] sample_fired_def by (auto simp: Option.is_none_def sample_armed_def)
  show "clock sample_armed \<le> 6 * Hour" "map scheduled (emitted sample_fired) = [6 * Hour]" "clock sample_fired = 6 * Hour"
    by code_simp+
qed

theorem cron_emissions_witness:
  "\<exists>c. emitted sample_fired = [c] \<and> scheduled c = 6 * Hour \<and> emission_ok sample_config (nine 3) (6 * Hour) c"
proof -
  let ?t = "sample_cron daily_nine 3"
  have "cron_step\<^sup>*\<^sup>* ?t (Cron_Start ?t)" by (blast intro: cron_step.start)
  also have "cron_step (Cron_Start ?t) sample_armed" using sample_fired_steps(1) by (rule cron_step.loop)
  also have "cron_step sample_armed (sample_armed\<lparr>clock := 6 * Hour\<rparr>)" using sample_fired_steps(2) by (rule cron_step.time)
  also have "cron_step (sample_armed\<lparr>clock := 6 * Hour\<rparr>) sample_fired" using sample_fired_steps(3) by (rule cron_step.loop)
  finally have "cron_step\<^sup>*\<^sup>* ?t sample_fired" .
  from cron_emissions [OF sample_cron_new _ _ this, of nine] daily_nine_next sample_fired_steps(4,5)
  show ?thesis by (auto simp: map_eq_Cons_conv)
qed

text \<open>
  C29. For an expression that has no activation time, such as \<^verbatim>\<open>0 0 30 2 *\<close>, \<^verbatim>\<open>Next\<close> returns the zero time and
  the ticker does not notice: without a start of the active window it announces a next run in the year
  1, and its loop sends that time at once and is back at its top without any time having passed, over
  and over as long as the channel has room; and listing its occurrences up to any later time ends in
  the iteration error.
\<close>

theorem cron_without_activation:
  assumes "cron_next (Next t) (\<lambda>l. {})" "withinWindow (config t) zeroTime" "zero_time \<le> clock t"
    and "i < length (loops t)" "loops t ! i = Top" "\<not> paused t" "length (ch t) < 10"
    and "instant start < instant end'" "zero_time < instant end'"
  shows "Cron_NextRun t = Inr (Some zeroTime)
    \<and> Cron_GetOccurrencesBetween t start end' = Inl ErrTooManyIterations
    \<and> Option.bind (Cron_run i Proceed t) (Cron_run i TimerFired)
        = Some (t\<lparr>ch := ch t @ [fired t zeroTime], emitted := emitted t @ [fired t zeroTime]\<rparr>)"
proof -
  note n = never_next [OF assms(1)]
  have "sint (Sub zeroTime (Cron_now t)) \<le> 0"
  proof -
    let ?d = "max (- (2 ^ 63)) (min (2 ^ 63 - 1) (zero_time - clock t)) :: int"
    have "sint (Sub zeroTime (Cron_now t)) = ?d"
      unfolding Sub_def sub_instant_def zeroTime_def Cron_now_def by (subst sint_word_of_int_64) simp_all
    then show ?thesis using assms(3) by simp
  qed
  then have due: "add_dur (clock t) (Sub zeroTime (Cron_now t)) \<le> clock t" by (simp add: add_dur_def)
  let ?u = "set_pc i (TimerSelect zeroTime (add_dur (clock t) (Sub zeroTime (Cron_now t)))) t"
  have one: "Cron_run i Proceed t = Some ?u"
    using assms(2,4-6) n by (simp add: Cron_run_def Cron_isWithinWindow_def Let_def)
  have again: "set_pc i Top ?u = t" using assms(5) list_update_id [of "loops t" i] by (simp add: set_pc_def)
  have "Cron_now ?u = Cron_now t" by (simp add: Cron_now_def)
  then have two: "Cron_run i TimerFired ?u = Some (trySend 10 (fired t zeroTime) t)"
    using assms(4) due again by (simp add: Cron_run_def fired_def)
  have "Cron_GetOccurrencesBetween t start end' = Inl ErrTooManyIterations"
    unfolding Cron_GetOccurrencesBetween_def using assms(1,8,9)
    by (intro cronLoop_zero) (simp_all add: Before_def)
  moreover have "Cron_NextRun t = Inr (Some zeroTime)"
    using assms(2) n by (simp add: Cron_NextRun_def Cron_isWithinWindow_def)
  ultimately show ?thesis using one two assms(7) by (simp add: trySend_def)
qed

theorem cron_without_activation_witness:
  "\<exists>t'. Option.bind (Cron_run 0 Proceed (Cron_Start (sample_cron (\<lambda>t. zeroTime) 0))) (Cron_run 0 TimerFired) = Some t'
     \<and> map scheduled (emitted t') = [zero_time]"
proof -
  let ?t = "Cron_Start (sample_cron (\<lambda>t. zeroTime) 0)"
  have t: "Next ?t = (\<lambda>t. zeroTime)" "withinWindow (config ?t) zeroTime" "zero_time \<le> clock ?t" "0 < length (loops ?t)"
    "loops ?t ! 0 = Top" "\<not> paused ?t" "length (ch ?t) < 10" "emitted ?t = []"
    by (simp_all add: Cron_Start_def startCore_def sample_cron_def TickerCore.extend_def CronTicker.fields_def new_core_def
        zero_time_def sample_config_def withinWindow_def)
  have "cron_next (Next ?t) (\<lambda>l. {})" unfolding t(1) by (simp add: cron_next_def)
  from cron_without_activation [OF this t(2-7), of "at_location 0 0" "at_location 0 1"] t(8)
  show ?thesis by (simp add: at_location_def zero_time_def fired_def zeroTime_def)
qed

subsection \<open>Pausing and resuming\<close>

text \<open>A loop waiting for a timer, in the window or outside it.\<close>

fun waits :: "pc \<Rightarrow> bool" where
  "waits (WindowSelect due) = True"
| "waits (TimerSelect nxt due) = True"
| "waits _ = False"

text \<open>
  C39. Pausing and resuming. If the loop of a ticker that is not paused waits for a timer and receives the
  pause, it ends in a state where, however late it is, neither a timer nor anything but the channels
  moves it; a resume that it receives there brings it to its top, with everything else as before the
  pause but the time. A resume that follows the pause before the loop has received it is lost: it
  changes nothing, and the ticker stays paused.
\<close>

theorem cron_pause_resume:
  assumes "i < length (loops t)" "waits (loops t ! i)" "pauseCh t = []" "\<not> paused t"
  shows "(\<exists>u. Option.bind (Cron_run i PauseSeen (Cron_Pause t)) (Cron_run i Proceed) = Some u \<and> Cron_IsPaused u
      \<and> (\<forall>now. Cron_run i TimerFired (u\<lparr>clock := now\<rparr>) = None \<and> Cron_run i Proceed (u\<lparr>clock := now\<rparr>) = None
           \<and> Cron_run i PauseSeen (Cron_Resume (u\<lparr>clock := now\<rparr>)) = Some (set_pc i Top (t\<lparr>clock := now\<rparr>))))
    \<and> Cron_Resume (Cron_Pause t) = Cron_Pause t \<and> Cron_IsPaused (Cron_Pause t)"
proof -
  let ?u = "t\<lparr>paused := True, loops := (loops t)[i := PausedSelect]\<rparr>"
  have p: "Cron_Pause t = t\<lparr>pauseCh := [True], paused := True\<rparr>"
    using assms(3,4) by (simp add: Cron_Pause_def pauseCore_def)
  have seen: "Cron_run i PauseSeen (Cron_Pause t) = pauseBranch (\<lambda>b. b) i (Cron_Pause t)"
    unfolding p using assms(1,2) by (cases "loops t ! i") (simp_all add: Cron_run_def)
  have "pauseBranch (\<lambda>b. b) i (Cron_Pause t) = Some (t\<lparr>paused := True, loops := (loops t)[i := Top]\<rparr>)"
    unfolding p using assms(3) by (cases t) (simp add: pauseBranch_def set_pc_def)
  then have run: "Option.bind (Cron_run i PauseSeen (Cron_Pause t)) (Cron_run i Proceed) = Some ?u"
    using seen assms(1) by (simp add: Cron_run_def set_pc_def)
  have late: "Cron_run i TimerFired (?u\<lparr>clock := now\<rparr>) = None" "Cron_run i Proceed (?u\<lparr>clock := now\<rparr>) = None" for now
    using assms(1) by (simp_all add: Cron_run_def)
  have "Cron_run i PauseSeen (Cron_Resume (?u\<lparr>clock := now\<rparr>)) = Some (set_pc i Top (t\<lparr>clock := now\<rparr>))" for now
    using assms(1,3,4) by (cases t) (simp add: Cron_run_def Cron_Resume_def resumeCore_def pauseBranch_def set_pc_def)
  moreover have "Cron_Resume (Cron_Pause t) = Cron_Pause t \<and> Cron_IsPaused (Cron_Pause t)"
    unfolding p by (simp add: Cron_Resume_def resumeCore_def Cron_IsPaused_def)
  moreover have "Cron_IsPaused ?u" by (simp add: Cron_IsPaused_def)
  ultimately show ?thesis using run late by blast
qed

theorem cron_pause_resume_witness:
  "(\<exists>u. Option.bind (Cron_run 0 PauseSeen (Cron_Pause sample_armed)) (Cron_run 0 Proceed) = Some u \<and> Cron_IsPaused u
     \<and> Cron_run 0 PauseSeen (Cron_Resume (u\<lparr>clock := 7 * Hour\<rparr>)) = Some (set_pc 0 Top (sample_armed\<lparr>clock := 7 * Hour\<rparr>)))
   \<and> Cron_IsPaused (Cron_Resume (Cron_Pause sample_armed))"
proof -
  have "0 < length (loops sample_armed)" "waits (loops sample_armed ! 0)" "pauseCh sample_armed = []" "\<not> paused sample_armed"
    by code_simp+
  from cron_pause_resume [OF this] show ?thesis by auto
qed

end
