(* ===== verification/OnceTicker.thy ===== *)
theory OnceTicker
  imports Ticker
begin

text \<open>
  The one-time ticker of \<^verbatim>\<open>ticker/once.go\<close>: its operations, its loop, and that it fires at most once,
  at its time and inside the active window.
\<close>

record OnceTicker = TickerCore +
  o_scheduledTime :: gotime
  o_config :: TickerConfig
  o_executed :: bool
  o_location :: location

definition NewOnceTicker ::
  "(string \<Rightarrow> location result) \<Rightarrow> instant \<Rightarrow> gotime \<Rightarrow> TickerConfig \<Rightarrow> OnceTicker result"
where
  "NewOnceTicker LoadLocation now scheduledTime cfg =
     (case LoadLocation (timezone_of cfg) of
        Inl err \<Rightarrow> Inl (ErrInvalidTimezone (timezone_of cfg))
      | Inr l \<Rightarrow>
          Inr (TickerCore.extend (new_core now)
                 (OnceTicker.fields (In scheduledTime l) cfg False l)))"

definition Once_Start :: "OnceTicker \<Rightarrow> error option \<times> OnceTicker" where
  "Once_Start t =
     (if running t then (None, t)
      else if o_executed t then (Some ErrOnceExecuted, t)
      else (None, startCore t))"

definition Once_isWithinWindow :: "OnceTicker \<Rightarrow> gotime \<Rightarrow> bool" where
  "Once_isWithinWindow t checkTime = withinWindow (o_config t) checkTime"

definition Once_Channel :: "OnceTicker \<Rightarrow> TickContext list" where
  "Once_Channel t = ch t"

definition Once_Stop :: "OnceTicker \<Rightarrow> OnceTicker option" where
  "Once_Stop t = stopCore t"

definition Once_Pause :: "OnceTicker \<Rightarrow> OnceTicker" where
  "Once_Pause t = pauseCore t"

definition Once_Resume :: "OnceTicker \<Rightarrow> OnceTicker" where
  "Once_Resume t = resumeCore t"

definition Once_now :: "OnceTicker \<Rightarrow> gotime" where
  "Once_now t = \<lparr>instant = clock t, loc = o_location t\<rparr>"

definition Once_IsActive :: "OnceTicker \<Rightarrow> bool" where
  "Once_IsActive t = Once_isWithinWindow t (Once_now t)"

definition Once_IsPaused :: "OnceTicker \<Rightarrow> bool" where
  "Once_IsPaused t = paused t"

definition Once_IsEnabled :: "OnceTicker \<Rightarrow> bool" where
  "Once_IsEnabled t = (Once_IsActive t \<and> \<not> Once_IsPaused t)"

definition Once_NextRun :: "OnceTicker \<Rightarrow> gotime option result" where
  "Once_NextRun t =
     (if o_executed t then Inr None
      else if \<not> Once_isWithinWindow t (o_scheduledTime t) then Inr None
      else Inr (Some (o_scheduledTime t)))"

definition Once_GetOccurrencesBetween :: "OnceTicker \<Rightarrow> gotime \<Rightarrow> gotime \<Rightarrow> gotime list result" where
  "Once_GetOccurrencesBetween t start end' =
     (let start = In start (o_location t); end' = In end' (o_location t)
      in if After (o_scheduledTime t) start \<and> Before (o_scheduledTime t) end'
            \<and> Once_isWithinWindow t (o_scheduledTime t)
         then Inr [o_scheduledTime t] else Inr [])"

subsection \<open>The loop\<close>

text \<open>The deferred function of \<^verbatim>\<open>run\<close> clears \<open>running\<close> when the loop returns.\<close>

definition onceReturn :: "nat \<Rightarrow> OnceTicker \<Rightarrow> OnceTicker" where
  "onceReturn i t = (set_pc i Returned t)\<lparr>running := False\<rparr>"

definition onceStop :: "nat \<Rightarrow> OnceTicker \<Rightarrow> OnceTicker option" where
  "onceStop i t = (if stopClosed t then Some (onceReturn i t) else None)"

definition onceContext :: "OnceTicker \<Rightarrow> TickContext" where
  "onceContext t =
     \<lparr>x_ScheduledTime = o_scheduledTime t, x_ActualTime = Once_now t, x_LastRunTime = None\<rparr>"

definition onceTop :: "nat \<Rightarrow> OnceTicker \<Rightarrow> OnceTicker" where
  "onceTop i t =
     (if o_executed t then onceReturn i t
      else if paused t then set_pc i PausedSelect t
      else if \<not> Once_isWithinWindow t (o_scheduledTime t)
      then (if \<exists>e \<in> set_option (tk_EndTime (o_config t)). After (o_scheduledTime t) e
            then onceReturn i t
            else set_pc i (WindowSelect (clock t + Minute)) t)
      else (let now = Once_now t;
                duration = (if Before (o_scheduledTime t) now then 0 else Sub (o_scheduledTime t) now)
            in set_pc i (TimerSelect (o_scheduledTime t) (add_dur (clock t) duration)) t))"

definition Once_run :: "nat \<Rightarrow> branch \<Rightarrow> OnceTicker \<Rightarrow> OnceTicker option" where
  "Once_run i b t =
     (if i < length (loops t) then
       (case (loops t ! i, b) of
          (Top, Proceed) \<Rightarrow> Some (onceTop i t)
        | (PausedSelect, StopSeen) \<Rightarrow> onceStop i t
        | (PausedSelect, PauseSeen) \<Rightarrow> pauseBranch Not i t
        | (WindowSelect due, TimerFired) \<Rightarrow> (if due \<le> clock t then Some (set_pc i Top t) else None)
        | (WindowSelect due, StopSeen) \<Rightarrow> onceStop i t
        | (WindowSelect due, PauseSeen) \<Rightarrow> pauseBranch (\<lambda>b. b) i t
        | (TimerSelect nxt due, TimerFired) \<Rightarrow>
            (if due \<le> clock t
             then Some (onceReturn i (trySend 1 (onceContext t) (t\<lparr>o_executed := True\<rparr>)))
             else None)
        | (TimerSelect nxt due, StopSeen) \<Rightarrow> onceStop i t
        | (TimerSelect nxt due, PauseSeen) \<Rightarrow> pauseBranch (\<lambda>b. b) i t
        | _ \<Rightarrow> None)
      else None)"

inductive once_step :: "OnceTicker \<Rightarrow> OnceTicker \<Rightarrow> bool" where
  start: "once_step t (snd (Once_Start t))"
| stop: "Once_Stop t = Some t' \<Longrightarrow> once_step t t'"
| pause: "once_step t (Once_Pause t)"
| resume: "once_step t (Once_Resume t)"
| receive: "receive t = Some (c, t') \<Longrightarrow> once_step t t'"
| time: "clock t \<le> now \<Longrightarrow> once_step t (t\<lparr>clock := now\<rparr>)"
| loop: "Once_run i b t = Some t' \<Longrightarrow> once_step t t'"

subsection \<open>What the ticker emits\<close>

definition once_emission :: "OnceTicker \<Rightarrow> TickContext \<Rightarrow> bool" where
  "once_emission t c \<longleftrightarrow>
     x_ScheduledTime c = o_scheduledTime t \<and> Once_isWithinWindow t (o_scheduledTime t)
     \<and> instant (o_scheduledTime t) \<le> instant (x_ActualTime c) \<and> instant (x_ActualTime c) \<le> clock t"

fun once_pc :: "OnceTicker \<Rightarrow> pc \<Rightarrow> bool" where
  "once_pc t (TimerSelect nxt due) =
     (Once_isWithinWindow t (o_scheduledTime t) \<and> instant (o_scheduledTime t) \<le> due)"
| "once_pc t p = True"

fun is_timer :: "pc \<Rightarrow> bool" where
  "is_timer (TimerSelect nxt due) = True"
| "is_timer p = False"

definition once_inv :: "OnceTicker \<Rightarrow> bool" where
  "once_inv t \<longleftrightarrow>
     instant (o_scheduledTime t) - clock t < 2 ^ 63 \<and>
     (\<forall>c \<in> set (emitted t). once_emission t c) \<and> (\<forall>p \<in> set (loops t). once_pc t p) \<and>
     (\<not> o_executed t \<longrightarrow> emitted t = []) \<and>
     (length (loops t) \<le> 1 \<longrightarrow>
        length (emitted t) \<le> 1 \<and> (o_executed t \<longrightarrow> (\<forall>p \<in> set (loops t). \<not> is_timer p)))"

lemma once_set_pc [simp]:
  "o_scheduledTime (set_pc i p t) = o_scheduledTime t" "o_config (set_pc i p t) = o_config t"
  "o_executed (set_pc i p t) = o_executed t" "o_location (set_pc i p t) = o_location t"
  by (simp_all add: set_pc_def)

text \<open>Steps that send nothing and leave the schedule alone.\<close>

definition once_quiet :: "OnceTicker \<Rightarrow> OnceTicker \<Rightarrow> bool" where
  "once_quiet t t' \<longleftrightarrow> emitted t' = emitted t \<and> clock t \<le> clock t' \<and> o_executed t' = o_executed t
     \<and> o_scheduledTime t' = o_scheduledTime t \<and> o_config t' = o_config t \<and> o_location t' = o_location t"

lemma quiet_preserves:
  assumes "once_inv t" "once_quiet t t'"
    and "\<forall>p \<in> set (loops t'). p \<in> set (loops t) \<or> \<not> is_timer p" "length (loops t) \<le> length (loops t')"
  shows "once_inv t'"
proof -
  have pcs: "once_pc t' p" if "p \<in> set (loops t')" for p
  proof (cases p)
    case (TimerSelect nxt due)
    then have "p \<in> set (loops t)" using assms(3) that by auto
    then have "once_pc t p" using assms(1) by (simp add: once_inv_def)
    then show ?thesis using assms(2) TimerSelect by (simp add: once_quiet_def Once_isWithinWindow_def)
  qed auto
  show ?thesis
    using assms pcs unfolding once_inv_def once_quiet_def
    by (auto simp: once_emission_def Once_isWithinWindow_def)
qed

lemma once_quiet_refl: "once_quiet t t" by (simp add: once_quiet_def)

lemma onceTop_inv:
  assumes inv: "once_inv t" and i: "i < length (loops t)"
  shows "once_inv (onceTop i t)"
proof (cases "\<not> o_executed t \<and> \<not> paused t \<and> Once_isWithinWindow t (o_scheduledTime t)")
  case True
  let ?due = "add_dur (clock t) (if Before (o_scheduledTime t) (Once_now t) then 0 else Sub (o_scheduledTime t) (Once_now t))"
  have "instant (o_scheduledTime t) \<le> ?due" using inv by (intro timer_not_early) (simp_all add: once_inv_def Once_now_def)
  then have "once_pc t p" if "p \<in> set ((loops t)[i := TimerSelect (o_scheduledTime t) ?due])" for p
    using in_set_update [OF that] True inv by (auto simp: once_inv_def)
  moreover have "once_pc (set_pc i q t) p = once_pc t p" for p q
    by (cases p) (auto simp: Once_isWithinWindow_def)
  ultimately show ?thesis using True inv
    by (simp add: onceTop_def once_inv_def once_emission_def Once_isWithinWindow_def Let_def)
next
  case False
  then have "\<exists>q. loops (onceTop i t) = (loops t)[i := q] \<and> \<not> is_timer q" "once_quiet t (onceTop i t)"
    by (auto simp: onceTop_def onceReturn_def once_quiet_def)
  then show ?thesis using quiet_preserves [OF inv] in_set_update by fastforce
qed

lemma onceFire_inv:
  assumes inv: "once_inv t" and i: "i < length (loops t)" "loops t ! i = TimerSelect nxt due" "due \<le> clock t"
  shows "once_inv (onceReturn i (trySend 1 (onceContext t) (t\<lparr>o_executed := True\<rparr>)))"
proof -
  let ?t = "onceReturn i (trySend 1 (onceContext t) (t\<lparr>o_executed := True\<rparr>))"
  have pc: "once_pc t (TimerSelect nxt due)" using inv i(1,2) nth_mem by (fastforce simp: once_inv_def)
  have fields: "o_scheduledTime ?t = o_scheduledTime t" "o_config ?t = o_config t" "clock ?t = clock t"
    "loops ?t = (loops t)[i := Returned]" "o_executed ?t" "emitted ?t = emitted t \<or> emitted ?t = emitted t @ [onceContext t]"
    by (auto simp: onceReturn_def trySend_def)
  have "once_emission ?t (onceContext t)"
    using pc i(3) fields by (simp add: once_emission_def onceContext_def Once_now_def Once_isWithinWindow_def)
  moreover have "once_emission ?t c" if "c \<in> set (emitted t)" for c
    using inv that fields by (auto simp: once_inv_def once_emission_def Once_isWithinWindow_def)
  ultimately have "\<forall>c \<in> set (emitted ?t). once_emission ?t c" using fields(6) by auto
  moreover have "once_pc ?t p" if "p \<in> set (loops ?t)" for p
  proof (cases p)
    case (TimerSelect a b)
    then have "p \<in> set (loops t)" using that in_set_update fields(4) by fastforce
    then show ?thesis using inv TimerSelect fields by (auto simp: once_inv_def Once_isWithinWindow_def)
  qed auto
  moreover have "emitted t = [] \<and> (loops t)[i := Returned] = [Returned]" if "length (loops t) \<le> 1"
  proof -
    have "\<not> o_executed t" using inv that i nth_mem [OF i(1)] by (auto simp: once_inv_def)
    then show ?thesis using inv that i(1) by (cases "loops t") (auto simp: once_inv_def)
  qed
  ultimately show ?thesis using inv fields unfolding once_inv_def by auto
qed

lemma Once_run_cases:
  assumes "Once_run i b t = Some t'"
  shows "i < length (loops t) \<and> (t' = onceTop i t
    \<or> (\<exists>nxt due. loops t ! i = TimerSelect nxt due \<and> due \<le> clock t
         \<and> t' = onceReturn i (trySend 1 (onceContext t) (t\<lparr>o_executed := True\<rparr>)))
    \<or> (once_quiet t t' \<and> (\<exists>q. loops t' = (loops t)[i := q] \<and> \<not> is_timer q)))"
proof -
  have i: "i < length (loops t)" using assms by (auto simp: Once_run_def split: if_splits)
  have q: "once_quiet t v \<and> (\<exists>q. loops v = (loops t)[i := q] \<and> \<not> is_timer q)"
    if "onceStop i t = Some v \<or> pauseBranch f i t = Some v \<or> v = set_pc i Top t" for v f
    using that by (auto simp: onceStop_def onceReturn_def pauseBranch_def once_quiet_def
        split: if_splits list.splits)
  have "t' = onceTop i t \<or> (\<exists>nxt due. loops t ! i = TimerSelect nxt due \<and> due \<le> clock t
         \<and> t' = onceReturn i (trySend 1 (onceContext t) (t\<lparr>o_executed := True\<rparr>)))
      \<or> onceStop i t = Some t' \<or> pauseBranch (\<lambda>b. b) i t = Some t' \<or> pauseBranch Not i t = Some t'
      \<or> t' = set_pc i Top t"
    using assms i by (auto simp: Once_run_def split: pc.splits branch.splits if_splits)
  then show ?thesis using i q [of t' "\<lambda>b. b"] q [of t' Not] by blast
qed

lemma run_inv:
  assumes "once_inv t" "Once_run i b t = Some t'"
  shows "once_inv t'"
proof -
  have i: "i < length (loops t)" using Once_run_cases [OF assms(2)] by blast
  consider "t' = onceTop i t"
    | nxt due where "loops t ! i = TimerSelect nxt due" "due \<le> clock t"
        "t' = onceReturn i (trySend 1 (onceContext t) (t\<lparr>o_executed := True\<rparr>))"
    | q where "once_quiet t t'" "loops t' = (loops t)[i := q]" "\<not> is_timer q"
    using Once_run_cases [OF assms(2)] by blast
  then show ?thesis
  proof cases
    case 1
    then show ?thesis using onceTop_inv [OF assms(1) i] by simp
  next
    case 2
    then show ?thesis using onceFire_inv [OF assms(1) i] by simp
  next
    case 3
    then show ?thesis using quiet_preserves [OF assms(1)] in_set_update by fastforce
  qed
qed

lemma once_step_inv:
  assumes "once_step t t'" "once_inv t"
  shows "once_inv t'"
  using assms(1)
proof cases
  case (loop i b)
  then show ?thesis using run_inv assms(2) by blast
qed (rule quiet_preserves [OF assms(2)]; auto simp: once_quiet_def Once_Start_def startCore_def
    Once_Stop_def stopCore_def Once_Pause_def pauseCore_def Once_Resume_def resumeCore_def receive_def
    split: if_splits list.splits)+

lemma once_step_static:
  assumes "once_step t t'"
  shows "o_scheduledTime t' = o_scheduledTime t \<and> o_config t' = o_config t"
  using assms
proof cases
  case (loop i b)
  from Once_run_cases [OF this(1)] show ?thesis
    by (auto simp: onceTop_def onceReturn_def trySend_def once_quiet_def Let_def)
qed (auto simp: Once_Start_def startCore_def Once_Stop_def stopCore_def Once_Pause_def pauseCore_def
    Once_Resume_def resumeCore_def receive_def split: if_splits list.splits)

lemma once_reach_inv:
  assumes "once_step\<^sup>*\<^sup>* t0 t" "once_inv t0"
  shows "once_inv t \<and> o_scheduledTime t = o_scheduledTime t0 \<and> o_config t = o_config t0"
  using assms(1)
proof (induction rule: rtranclp_induct)
  case base
  then show ?case using assms(2) by simp
next
  case (step t t')
  then show ?case using once_step_inv [OF step(2)] once_step_static [OF step(2)] by auto
qed

lemma new_once_inv:
  "NewOnceTicker LoadLocation now sched cfg = Inr t \<Longrightarrow> instant sched - now < 2 ^ 63 \<Longrightarrow>
     once_inv t \<and> o_scheduledTime t = In sched (o_location t) \<and> o_config t = cfg"
  by (auto simp: NewOnceTicker_def once_inv_def new_core_def TickerCore.extend_def OnceTicker.fields_def
      In_def split: sum.splits)

subsection \<open>Properties\<close>

text \<open>
  C30. A new one-time ticker, whatever its client does and however its loops are scheduled, emits only
  its own scheduled time, only if that lies in the active window, and never before it is due; while
  it has been started once, it emits at most one context in its lifetime.
\<close>

theorem once_emissions:
  assumes "NewOnceTicker LoadLocation now sched cfg = Inr t0" "instant sched - now < 2 ^ 63"
    "once_step\<^sup>*\<^sup>* t0 t"
  shows "(\<forall>c \<in> set (emitted t). instant (x_ScheduledTime c) = instant sched
      \<and> withinWindow cfg (x_ScheduledTime c) \<and> instant sched \<le> instant (x_ActualTime c)
      \<and> instant (x_ActualTime c) \<le> clock t)
    \<and> (length (loops t) \<le> 1 \<longrightarrow> length (emitted t) \<le> 1)"
proof -
  have inv: "once_inv t" and cfg: "o_config t = cfg" and at: "instant (o_scheduledTime t) = instant sched"
    using once_reach_inv [OF assms(3)] new_once_inv [OF assms(1,2)] by (simp_all add: In_def)
  show ?thesis
    using inv at unfolding once_inv_def once_emission_def Once_isWithinWindow_def cfg by auto
qed

definition sample_once :: "OnceTicker result" where
  "sample_once = NewOnceTicker (\<lambda>z. Inr UTC) 0 \<lparr>instant = 5 * Second, loc = 0\<rparr>
     \<lparr>tk_StartTime = None, tk_EndTime = None, tk_Timezone = ''''\<rparr>"

text \<open>The ticker, started and waiting for its time, and after it has fired.\<close>

definition sample_new :: OnceTicker where
  "sample_new = projr sample_once"

definition sample_set :: OnceTicker where
  "sample_set = the (Once_run 0 Proceed (snd (Once_Start sample_new)))"

definition sample_sent :: OnceTicker where
  "sample_sent = the (Once_run 0 TimerFired (sample_set\<lparr>clock := 5 * Second\<rparr>))"

lemma sample_once_steps:
  "sample_once = Inr sample_new" "Once_run 0 Proceed (snd (Once_Start sample_new)) = Some sample_set"
  "clock sample_set \<le> 5 * Second" "Once_run 0 TimerFired (sample_set\<lparr>clock := 5 * Second\<rparr>) = Some sample_sent"
  "map x_ScheduledTime (emitted sample_sent) = [\<lparr>instant = 5 * Second, loc = 0\<rparr>]"
  "length (loops sample_sent) \<le> 1" "clock sample_sent = 5 * Second"
  by code_simp+

lemma sample_set_reached: "once_step\<^sup>*\<^sup>* sample_new sample_set"
proof -
  have "once_step sample_new (snd (Once_Start sample_new))" by (rule once_step.start)
  also have "once_step\<^sup>*\<^sup>* (snd (Once_Start sample_new)) sample_set"
    using once_step.loop [OF sample_once_steps(2)] by blast
  finally show ?thesis by simp
qed

theorem once_emissions_witness:
  "\<exists>c. emitted sample_sent = [c] \<and> instant (x_ScheduledTime c) = 5 * Second \<and> instant (x_ActualTime c) = 5 * Second"
proof -
  note sample_set_reached
  also have "once_step sample_set (sample_set\<lparr>clock := 5 * Second\<rparr>)" using sample_once_steps(3) by (rule once_step.time)
  also have "once_step (sample_set\<lparr>clock := 5 * Second\<rparr>) sample_sent" using sample_once_steps(4) by (rule once_step.loop)
  finally have r: "once_step\<^sup>*\<^sup>* sample_new sample_sent" .
  have "instant \<lparr>instant = 5 * Second, loc = 0\<rparr> - 0 < (2 :: int) ^ 63" by simp
  from once_emissions [OF sample_once_steps(1) [unfolded sample_once_def] this r] sample_once_steps(5-7)
  show ?thesis by (auto simp: map_eq_Cons_conv)
qed

text \<open>
  C40. A resume that reaches the loop while it waits in its paused branch is undone: the loop negates
  the message, so the ticker is paused again and the loop goes back to waiting.
\<close>

theorem once_resume_undone:
  assumes "i < length (loops t)" "loops t ! i = PausedSelect" "paused t" "pauseCh t = []" "\<not> o_executed t"
  shows "\<exists>t'. Once_run i PauseSeen (Once_Resume t) = Some t' \<and> paused t'
    \<and> Once_run i Proceed t' = Some t"
proof -
  have "Once_run i PauseSeen (Once_Resume t) = Some (set_pc i Top t)"
    using assms by (simp add: Once_run_def Once_Resume_def resumeCore_def pauseBranch_def set_pc_def)
  moreover have "Once_run i Proceed (set_pc i Top t) = Some t"
    using assms by (simp add: Once_run_def onceTop_def set_pc_def list_update_same_conv)
  ultimately show ?thesis using assms(3) by simp
qed

text \<open>The ticker of before, paused while it waits for its time: its loop waits in the paused branch.\<close>

definition sample_waiting :: OnceTicker where
  "sample_waiting = the (Once_run 0 Proceed (the (Once_run 0 PauseSeen (Once_Pause sample_set))))"

lemma sample_waiting_steps:
  "Once_run 0 PauseSeen (Once_Pause sample_set) = Some (the (Once_run 0 PauseSeen (Once_Pause sample_set)))"
  "Once_run 0 Proceed (the (Once_run 0 PauseSeen (Once_Pause sample_set))) = Some sample_waiting"
  "loops sample_waiting = [PausedSelect]" "paused sample_waiting" "pauseCh sample_waiting = []" "\<not> o_executed sample_waiting"
  by code_simp+

theorem once_resume_undone_witness:
  "once_step\<^sup>*\<^sup>* sample_new sample_waiting
   \<and> (\<exists>t'. Once_run 0 PauseSeen (Once_Resume sample_waiting) = Some t' \<and> paused t' \<and> Once_run 0 Proceed t' = Some sample_waiting)"
proof -
  note sample_set_reached
  also have "once_step sample_set (Once_Pause sample_set)" by (rule once_step.pause)
  also note once_step.loop [OF sample_waiting_steps(1)]
  also note once_step.loop [OF sample_waiting_steps(2)]
  finally have "once_step\<^sup>*\<^sup>* sample_new sample_waiting" .
  moreover have "\<exists>t'. Once_run 0 PauseSeen (Once_Resume sample_waiting) = Some t' \<and> paused t'
      \<and> Once_run 0 Proceed t' = Some sample_waiting"
    using once_resume_undone [of 0 sample_waiting] sample_waiting_steps(3-6) by simp
  ultimately show ?thesis by blast
qed

end
