(* ===== verification/ISO8601Ticker.thy ===== *)
theory ISO8601Ticker
  imports Ticker
begin

text \<open>
  The interval ticker of \<^verbatim>\<open>ticker/iso8601.go\<close>: its operations, its loop, the occurrences between two
  times, and the times it emits. Go's \<^verbatim>\<open>int\<close> counters are integers; the product of the run count and
  the interval is a 64-bit \<^verbatim>\<open>time.Duration\<close> and wraps.
\<close>

record ISO8601Ticker = TickerCore +
  i_interval :: duration
  i_startTime :: gotime
  i_repetitions :: int
  i_config :: TickerConfig
  i_location :: location
  i_runCount :: int
  i_lastRunTime :: "gotime option"

definition NewISO8601Ticker ::
  "(string \<Rightarrow> location result) \<Rightarrow> instant \<Rightarrow> duration \<Rightarrow> gotime \<Rightarrow> int \<Rightarrow> TickerConfig
   \<Rightarrow> ISO8601Ticker result"
where
  "NewISO8601Ticker LoadLocation now interval startTime repetitions cfg =
     (case LoadLocation (timezone_of cfg) of
        Inl err \<Rightarrow> Inl (ErrInvalidTimezone (timezone_of cfg))
      | Inr l \<Rightarrow>
          if sint interval \<le> 0 then Inl ErrIntervalNotPositive
          else Inr (TickerCore.extend (new_core now)
                 (ISO8601Ticker.fields interval (In startTime l) repetitions cfg l 0 None)))"

definition ISO_Start :: "ISO8601Ticker \<Rightarrow> ISO8601Ticker" where
  "ISO_Start t = startCore t"

definition ISO_calculateNextRun :: "ISO8601Ticker \<Rightarrow> gotime" where
  "ISO_calculateNextRun t = Add (i_startTime t) (word_of_int (i_runCount t) * i_interval t)"

definition ISO_isWithinWindow :: "ISO8601Ticker \<Rightarrow> gotime \<Rightarrow> bool" where
  "ISO_isWithinWindow t checkTime = withinWindow (i_config t) checkTime"

definition ISO_Channel :: "ISO8601Ticker \<Rightarrow> TickContext list" where
  "ISO_Channel t = ch t"

definition ISO_Stop :: "ISO8601Ticker \<Rightarrow> ISO8601Ticker option" where
  "ISO_Stop t = stopCore t"

definition ISO_Pause :: "ISO8601Ticker \<Rightarrow> ISO8601Ticker" where
  "ISO_Pause t = pauseCore t"

definition ISO_Resume :: "ISO8601Ticker \<Rightarrow> ISO8601Ticker" where
  "ISO_Resume t = resumeCore t"

definition ISO_now :: "ISO8601Ticker \<Rightarrow> gotime" where
  "ISO_now t = \<lparr>instant = clock t, loc = i_location t\<rparr>"

definition ISO_IsActive :: "ISO8601Ticker \<Rightarrow> bool" where
  "ISO_IsActive t = ISO_isWithinWindow t (ISO_now t)"

definition ISO_IsPaused :: "ISO8601Ticker \<Rightarrow> bool" where
  "ISO_IsPaused t = paused t"

definition ISO_IsEnabled :: "ISO8601Ticker \<Rightarrow> bool" where
  "ISO_IsEnabled t = (ISO_IsActive t \<and> \<not> ISO_IsPaused t)"

definition ISO_exhausted :: "ISO8601Ticker \<Rightarrow> bool" where
  "ISO_exhausted t \<longleftrightarrow> i_repetitions t > 0 \<and> i_runCount t \<ge> i_repetitions t"

definition ISO_NextRun :: "ISO8601Ticker \<Rightarrow> gotime option result" where
  "ISO_NextRun t =
     (if ISO_exhausted t then Inr None
      else (let nxt = ISO_calculateNextRun t
            in if \<not> ISO_isWithinWindow t nxt then Inr None else Inr (Some nxt)))"

subsection \<open>Occurrences in an interval\<close>

function isoLoop ::
  "ISO8601Ticker \<Rightarrow> gotime \<Rightarrow> gotime \<Rightarrow> gotime \<Rightarrow> int \<Rightarrow> gotime list \<Rightarrow> gotime list result"
where
  "isoLoop t start end' current n occurrences =
     (if \<not> Before current end' then Inr occurrences
      else if i_repetitions t > 0 \<and> n \<ge> i_repetitions t then Inr occurrences
      else (let occurrences' =
              (if (After current start \<or> Equal current start) \<and> ISO_isWithinWindow t current
               then occurrences @ [current] else occurrences);
                current = Add current (i_interval t)
            in if n + 1 > MaxOccurrenceIterations then Inl ErrTooManyOccurrences
               else isoLoop t start end' current (n + 1) occurrences'))"
  by pat_completeness auto
termination
  by (relation "measure (\<lambda>(t, start, end', current, n, occurrences).
        nat (MaxOccurrenceIterations - n))") auto

declare isoLoop.simps [simp del]

definition ISO_GetOccurrencesBetween :: "ISO8601Ticker \<Rightarrow> gotime \<Rightarrow> gotime \<Rightarrow> gotime list result" where
  "ISO_GetOccurrencesBetween t start end' =
     isoLoop t (In start (i_location t)) (In end' (i_location t)) (i_startTime t) 0 []"

subsection \<open>The loop\<close>

definition isoTop :: "nat \<Rightarrow> ISO8601Ticker \<Rightarrow> ISO8601Ticker" where
  "isoTop i t =
     (if ISO_exhausted t then set_pc i Returned t
      else if paused t then set_pc i PausedSelect t
      else (let now = ISO_now t; nxt = ISO_calculateNextRun t
            in if \<not> ISO_isWithinWindow t nxt
               then (if \<exists>e \<in> set_option (tk_EndTime (i_config t)). After now e
                     then set_pc i Returned t
                     else set_pc i (WindowSelect (clock t + Minute)) t)
               else set_pc i (TimerSelect nxt
                      (add_dur (clock t) (if Before nxt now then 0 else Sub nxt now))) t))"

definition isoContext :: "gotime \<Rightarrow> ISO8601Ticker \<Rightarrow> TickContext" where
  "isoContext nxt t =
     \<lparr>x_ScheduledTime = nxt, x_ActualTime = ISO_now t, x_LastRunTime = i_lastRunTime t\<rparr>"

definition isoFire :: "nat \<Rightarrow> gotime \<Rightarrow> ISO8601Ticker \<Rightarrow> ISO8601Ticker" where
  "isoFire i nxt t =
     trySend 10 (isoContext nxt t)
       (set_pc i Top (t\<lparr>i_runCount := i_runCount t + 1, i_lastRunTime := Some (ISO_now t)\<rparr>))"

definition ISO_run :: "nat \<Rightarrow> branch \<Rightarrow> ISO8601Ticker \<Rightarrow> ISO8601Ticker option" where
  "ISO_run i b t =
     (if i < length (loops t) then
       (case (loops t ! i, b) of
          (Top, Proceed) \<Rightarrow> Some (isoTop i t)
        | (PausedSelect, StopSeen) \<Rightarrow> stopBranch i t
        | (PausedSelect, PauseSeen) \<Rightarrow> pauseBranch Not i t
        | (WindowSelect due, TimerFired) \<Rightarrow> (if due \<le> clock t then Some (set_pc i Top t) else None)
        | (WindowSelect due, StopSeen) \<Rightarrow> stopBranch i t
        | (WindowSelect due, PauseSeen) \<Rightarrow> pauseBranch (\<lambda>b. b) i t
        | (TimerSelect nxt due, TimerFired) \<Rightarrow> (if due \<le> clock t then Some (isoFire i nxt t) else None)
        | (TimerSelect nxt due, StopSeen) \<Rightarrow> stopBranch i t
        | (TimerSelect nxt due, PauseSeen) \<Rightarrow> pauseBranch (\<lambda>b. b) i t
        | _ \<Rightarrow> None)
      else None)"

inductive iso_step :: "ISO8601Ticker \<Rightarrow> ISO8601Ticker \<Rightarrow> bool" where
  start: "iso_step t (ISO_Start t)"
| stop: "ISO_Stop t = Some t' \<Longrightarrow> iso_step t t'"
| pause: "iso_step t (ISO_Pause t)"
| resume: "iso_step t (ISO_Resume t)"
| receive: "receive t = Some (c, t') \<Longrightarrow> iso_step t t'"
| time: "clock t \<le> now \<Longrightarrow> iso_step t (t\<lparr>clock := now\<rparr>)"
| loop: "ISO_run i b t = Some t' \<Longrightarrow> iso_step t t'"

subsection \<open>The occurrences are the multiples of the interval\<close>

text \<open>The numbers of the occurrences the loop visits from the one with number \<open>n\<close> on.\<close>

definition visits :: "int \<Rightarrow> int \<Rightarrow> int \<Rightarrow> int \<Rightarrow> int \<Rightarrow> nat" where
  "visits base e step reps n =
     card {k. base + int k * step < e \<and> (0 < reps \<longrightarrow> n + int k < reps)}"

lemma finite_visits:
  assumes "0 < (step :: int)"
  shows "finite {k. base + int k * step < e \<and> (0 < reps \<longrightarrow> n + int k < reps)}"
proof (rule finite_subset)
  show "{k. base + int k * step < e \<and> (0 < reps \<longrightarrow> n + int k < reps)} \<subseteq> {..< nat (max 0 (e - base))}"
  proof
    fix k assume "k \<in> {k. base + int k * step < e \<and> (0 < reps \<longrightarrow> n + int k < reps)}"
    then have "int k * step < e - base" by auto
    moreover have "int k * 1 \<le> int k * step" using assms by (intro mult_left_mono) auto
    ultimately show "k \<in> {..< nat (max 0 (e - base))}" by auto
  qed
qed simp

lemma visits_step:
  assumes "0 < step" "base < e" "0 < reps \<longrightarrow> n < reps"
  shows "visits base e step reps n = Suc (visits (base + step) e step reps (n + 1))"
proof -
  let ?S = "{k. base + int k * step < e \<and> (0 < reps \<longrightarrow> n + int k < reps)}"
  let ?T = "{k. base + step + int k * step < e \<and> (0 < reps \<longrightarrow> n + 1 + int k < reps)}"
  have "k \<in> ?S \<longleftrightarrow> k = 0 \<or> (\<exists>j \<in> ?T. k = Suc j)" for k
    using assms by (cases k) (auto simp: algebra_simps)
  then have "?S = insert 0 (Suc ` ?T)" by blast
  then show ?thesis using finite_visits [OF assms(1)] by (simp add: visits_def card_image)
qed

lemma visits_none:
  assumes "0 < step" "\<not> (base < e \<and> (0 < reps \<longrightarrow> n < reps))"
  shows "visits base e step reps n = 0"
proof -
  have "{k. base + int k * step < e \<and> (0 < reps \<longrightarrow> n + int k < reps)} = {}"
  proof (rule ccontr)
    assume "{k. base + int k * step < e \<and> (0 < reps \<longrightarrow> n + int k < reps)} \<noteq> {}"
    then obtain k where "base + int k * step < e" "0 < reps \<longrightarrow> n + int k < reps" by blast
    moreover have "0 \<le> int k * step" using assms(1) by simp
    ultimately have "base < e \<and> (0 < reps \<longrightarrow> n < reps)" by auto
    then show False using assms(2) by blast
  qed
  then show ?thesis unfolding visits_def by (simp only: card.empty)
qed

text \<open>The visited occurrences are an initial segment: each lies before the end.\<close>

lemma visited_before:
  assumes "0 < step" "k < visits base e step reps n"
  shows "base + int k * step < e"
proof (rule ccontr)
  let ?S = "{k. base + int k * step < e \<and> (0 < reps \<longrightarrow> n + int k < reps)}"
  assume late: "\<not> base + int k * step < e"
  have "?S \<subseteq> {..< k}"
  proof
    fix j assume j: "j \<in> ?S"
    then have "int j * step < int k * step" using late by auto
    then show "j \<in> {..< k}" using assms(1) by simp
  qed
  then have "card ?S \<le> k" using card_mono [of "{..< k}" ?S] by simp
  then show False using assms(2) by (simp add: visits_def)
qed

definition iso_time :: "gotime \<Rightarrow> duration \<Rightarrow> nat \<Rightarrow> gotime" where
  "iso_time t d k = t\<lparr>instant := instant t + int k * sint d\<rparr>"

lemma isoLoop_spec:
  assumes "0 < sint (i_interval t)" "n \<le> MaxOccurrenceIterations"
  shows "isoLoop t start e current n acc =
    (let N = visits (instant current) (instant e) (sint (i_interval t)) (i_repetitions t) n
     in if n + int N > MaxOccurrenceIterations then Inl ErrTooManyOccurrences
        else Inr (acc @ filter (\<lambda>x. instant start \<le> instant x \<and> ISO_isWithinWindow t x)
                          (map (iso_time current (i_interval t)) [0 ..< N])))"
  using assms
proof (induction t start e current n acc rule: isoLoop.induct)
  case (1 t start e current n acc)
  let ?i = "sint (i_interval t)"
  show ?case
  proof (cases "Before current e \<and> \<not> (i_repetitions t > 0 \<and> n \<ge> i_repetitions t)")
    case False
    then have "visits (instant current) (instant e) ?i (i_repetitions t) n = 0"
      using 1(2) by (intro visits_none) (auto simp: Before_def)
    then show ?thesis using False 1(3) by (subst isoLoop.simps) auto
  next
    case True
    let ?c = "Add current (i_interval t)"
    let ?acc = "if (After current start \<or> Equal current start) \<and> ISO_isWithinWindow t current
               then acc @ [current] else acc"
    let ?M = "visits (instant ?c) (instant e) ?i (i_repetitions t) (n + 1)"
    have N: "visits (instant current) (instant e) ?i (i_repetitions t) n = Suc ?M"
      using visits_step [of ?i "instant current" "instant e"] True 1(2)
      by (auto simp: Before_def Add_def add_dur_def)
    have c: "iso_time current (i_interval t) (Suc k) = iso_time ?c (i_interval t) k" for k
      by (simp add: iso_time_def Add_def add_dur_def distrib_right)
    have c0: "iso_time current (i_interval t) 0 = current" by (simp add: iso_time_def)
    have upt: "[0 ..< Suc m] = 0 # map Suc [0 ..< m]" for m by (simp add: upt_conv_Cons map_Suc_upt)
    have keep: "(After current start \<or> Equal current start) \<longleftrightarrow> instant start \<le> instant current"
      by (auto simp: After_def Equal_def)
    show ?thesis
    proof (cases "n + 1 > MaxOccurrenceIterations")
      case True
      then show ?thesis using \<open>Before current e \<and> _\<close> N by (subst isoLoop.simps) auto
    next
      case False
      then have IH: "isoLoop t start e ?c (n + 1) ?acc =
          (if n + 1 + int ?M > MaxOccurrenceIterations then Inl ErrTooManyOccurrences
           else Inr (?acc @ filter (\<lambda>x. instant start \<le> instant x \<and> ISO_isWithinWindow t x)
                              (map (iso_time ?c (i_interval t)) [0 ..< ?M])))"
        using 1(1) [OF _ _ refl refl _ 1(2)] True by (auto simp: Let_def)
      have "isoLoop t start e current n acc = isoLoop t start e ?c (n + 1) ?acc"
        using True False by (subst isoLoop.simps) (auto simp: Let_def)
      moreover have "map (iso_time current (i_interval t)) [0 ..< Suc ?M]
          = current # map (iso_time ?c (i_interval t)) [0 ..< ?M]"
        unfolding upt by (simp only: list.map map_map comp_def c c0)
      ultimately show ?thesis unfolding IH N Let_def by (simp add: keep)
    qed
  qed
qed

subsection \<open>What the ticker emits\<close>

definition nth_time :: "ISO8601Ticker \<Rightarrow> int \<Rightarrow> instant" where
  "nth_time t k = instant (i_startTime t) + k * sint (i_interval t)"

text \<open>The next run lies within the range of a duration, from its start and from the creation at \<open>now0\<close>.\<close>

definition fits :: "instant \<Rightarrow> ISO8601Ticker \<Rightarrow> bool" where
  "fits now0 t \<longleftrightarrow> i_runCount t * sint (i_interval t) < 2 ^ 63
     \<and> nth_time t (i_runCount t) - now0 < 2 ^ 63"

definition iso_emission :: "ISO8601Ticker \<Rightarrow> TickContext \<Rightarrow> bool" where
  "iso_emission t c \<longleftrightarrow>
     withinWindow (i_config t) (x_ScheduledTime c)
     \<and> instant (x_ScheduledTime c) \<le> instant (x_ActualTime c) \<and> instant (x_ActualTime c) \<le> clock t
     \<and> (\<exists>k. 0 \<le> k \<and> k < i_runCount t \<and> instant (x_ScheduledTime c) = nth_time t k)"

fun iso_pc :: "ISO8601Ticker \<Rightarrow> pc \<Rightarrow> bool" where
  "iso_pc t (TimerSelect nxt due) =
     (withinWindow (i_config t) nxt \<and> instant nxt \<le> due
      \<and> (\<exists>k. 0 \<le> k \<and> k \<le> i_runCount t \<and> instant nxt = nth_time t k))"
| "iso_pc t p = True"

fun armed_last :: "ISO8601Ticker \<Rightarrow> pc \<Rightarrow> bool" where
  "armed_last t (TimerSelect nxt due) = (instant nxt = nth_time t (i_runCount t) \<and> \<not> ISO_exhausted t)"
| "armed_last t p = True"

text \<open>With one loop: the emitted times are those of increasing run numbers.\<close>

definition iso_single :: "ISO8601Ticker \<Rightarrow> bool" where
  "iso_single t \<longleftrightarrow>
     (\<forall>p \<in> set (loops t). armed_last t p) \<and> (0 < i_repetitions t \<longrightarrow> i_runCount t \<le> i_repetitions t) \<and>
     (\<exists>ks. sorted_wrt (<) ks \<and> set ks \<subseteq> {0 ..< i_runCount t}
        \<and> map (\<lambda>c. instant (x_ScheduledTime c)) (emitted t) = map (nth_time t) ks)"

definition iso_inv :: "instant \<Rightarrow> ISO8601Ticker \<Rightarrow> bool" where
  "iso_inv now0 t \<longleftrightarrow>
     now0 \<le> clock t \<and> 0 < sint (i_interval t) \<and> 0 \<le> i_runCount t \<and>
     (fits now0 t \<longrightarrow>
        (\<forall>c \<in> set (emitted t). iso_emission t c) \<and> (\<forall>p \<in> set (loops t). iso_pc t p) \<and>
        (length (loops t) \<le> 1 \<longrightarrow> iso_single t))"

definition iso_quiet :: "ISO8601Ticker \<Rightarrow> ISO8601Ticker \<Rightarrow> bool" where
  "iso_quiet t t' \<longleftrightarrow> emitted t' = emitted t \<and> clock t \<le> clock t' \<and> i_runCount t' = i_runCount t
     \<and> i_interval t' = i_interval t \<and> i_startTime t' = i_startTime t
     \<and> i_repetitions t' = i_repetitions t \<and> i_config t' = i_config t"

fun iso_timer :: "pc \<Rightarrow> bool" where
  "iso_timer (TimerSelect nxt due) = True"
| "iso_timer p = False"

lemma iso_set_pc [simp]:
  "i_interval (set_pc i p t) = i_interval t" "i_startTime (set_pc i p t) = i_startTime t"
  "i_repetitions (set_pc i p t) = i_repetitions t" "i_config (set_pc i p t) = i_config t"
  "i_runCount (set_pc i p t) = i_runCount t" "i_location (set_pc i p t) = i_location t"
  "i_lastRunTime (set_pc i p t) = i_lastRunTime t"
  by (simp_all add: set_pc_def)

lemma quiet_facts:
  assumes "iso_quiet t t'"
  shows "nth_time t' = nth_time t" "fits now0 t' = fits now0 t" "ISO_exhausted t' = ISO_exhausted t"
    "iso_pc t' p = iso_pc t p" "armed_last t' p = armed_last t p"
    "iso_emission t c \<Longrightarrow> iso_emission t' c"
proof -
  show n: "nth_time t' = nth_time t" using assms by (simp add: iso_quiet_def nth_time_def fun_eq_iff)
  show "fits now0 t' = fits now0 t" using assms n by (simp add: iso_quiet_def fits_def)
  show x: "ISO_exhausted t' = ISO_exhausted t" using assms by (simp add: iso_quiet_def ISO_exhausted_def)
  show "iso_pc t' p = iso_pc t p" using assms n by (cases p) (simp_all add: iso_quiet_def)
  show "armed_last t' p = armed_last t p" using assms n x by (cases p) (simp_all add: iso_quiet_def)
  show "iso_emission t c \<Longrightarrow> iso_emission t' c" using assms n by (auto simp: iso_quiet_def iso_emission_def)
qed

lemma not_timer_ok: "\<not> iso_timer p \<Longrightarrow> iso_pc t p \<and> armed_last t p"
  by (cases p) auto

lemma iso_quiet_preserves:
  assumes inv: "iso_inv now0 t" and q: "iso_quiet t t'"
    and loops: "\<forall>p \<in> set (loops t'). p \<in> set (loops t) \<or> \<not> iso_timer p" "length (loops t) \<le> length (loops t')"
  shows "iso_inv now0 t'"
proof -
  note f = quiet_facts [OF q]
  have "iso_pc t' p" if "\<forall>p \<in> set (loops t). iso_pc t p" "p \<in> set (loops t')" for p
    using loops(1) that f(4) not_timer_ok by blast
  moreover have "iso_single t'" if "iso_single t"
  proof -
    have "\<forall>p \<in> set (loops t'). armed_last t' p"
      using that loops(1) f(5) not_timer_ok unfolding iso_single_def by blast
    then show ?thesis using that q unfolding iso_single_def f(1) by (simp add: iso_quiet_def)
  qed
  ultimately show ?thesis
    using inv q loops(2) f(6) unfolding iso_inv_def f(2) by (auto simp: iso_quiet_def)
qed

lemma times_word: "word_of_int n * (w :: 64 word) = word_of_int (n * sint w)"
  by simp

lemma nextRun_time:
  assumes "0 \<le> i_runCount t" "0 < sint (i_interval t)" "i_runCount t * sint (i_interval t) < 2 ^ 63"
  shows "instant (ISO_calculateNextRun t) = nth_time t (i_runCount t)"
proof -
  have "0 \<le> i_runCount t * sint (i_interval t)" using assms by simp
  then show ?thesis
    using assms(3) unfolding ISO_calculateNextRun_def times_word
    by (simp add: Add_def add_dur_def nth_time_def sint_word_of_int_64 del: of_int_mult)
qed

lemma isoTop_cases:
  "(\<exists>q. loops (isoTop i t) = (loops t)[i := q] \<and> \<not> iso_timer q) \<and> iso_quiet t (isoTop i t)
   \<or> \<not> ISO_exhausted t \<and> ISO_isWithinWindow t (ISO_calculateNextRun t) \<and>
     isoTop i t = set_pc i (TimerSelect (ISO_calculateNextRun t) (add_dur (clock t)
       (if Before (ISO_calculateNextRun t) (ISO_now t) then 0 else Sub (ISO_calculateNextRun t) (ISO_now t)))) t"
  by (auto simp: isoTop_def iso_quiet_def Let_def)

lemma set_pc_quiet: "iso_quiet t (set_pc i p t)"
  by (simp add: iso_quiet_def)

lemma isoTop_inv:
  assumes inv: "iso_inv now0 t" and i: "i < length (loops t)"
  shows "iso_inv now0 (isoTop i t)"
  using isoTop_cases [of i t]
proof (elim disjE conjE exE)
  fix q
  assume "loops (isoTop i t) = (loops t)[i := q]" "\<not> iso_timer q" "iso_quiet t (isoTop i t)"
  then show ?thesis using iso_quiet_preserves [OF inv] in_set_update by fastforce
next
  let ?n = "ISO_calculateNextRun t"
  let ?due = "add_dur (clock t) (if Before ?n (ISO_now t) then 0 else Sub ?n (ISO_now t))"
  let ?p = "TimerSelect ?n ?due"
  assume a: "\<not> ISO_exhausted t" "ISO_isWithinWindow t ?n" and top: "isoTop i t = set_pc i ?p t"
  note f = quiet_facts [OF set_pc_quiet [of t i ?p]]
  have new: "iso_pc t ?p \<and> armed_last t ?p" if "fits now0 t"
  proof -
    have n: "instant ?n = nth_time t (i_runCount t)" "nth_time t (i_runCount t) - clock t < 2 ^ 63"
      using that inv nextRun_time by (auto simp: fits_def iso_inv_def)
    then have "instant ?n \<le> ?due" by (intro timer_not_early) (simp_all add: ISO_now_def)
    then show ?thesis using a n(1) inv by (auto simp: ISO_isWithinWindow_def iso_inv_def)
  qed
  have pcs: "\<forall>p \<in> set ((loops t)[i := ?p]). iso_pc t p" if "fits now0 t"
  proof -
    have "\<forall>p \<in> set (loops t). iso_pc t p" using inv that by (simp add: iso_inv_def)
    then show ?thesis using new [OF that] by (intro ball_update) blast+
  qed
  have single: "iso_single (set_pc i ?p t)" if "fits now0 t" "length (loops t) \<le> 1"
  proof -
    have "iso_single t" using inv that by (simp add: iso_inv_def)
    moreover from this have "\<forall>p \<in> set ((loops t)[i := ?p]). armed_last t p"
      using new [OF that(1)] unfolding iso_single_def by (intro ball_update) blast+
    ultimately show ?thesis unfolding iso_single_def f(1,5) by simp
  qed
  show ?thesis unfolding top
    using inv pcs single f(6) unfolding iso_inv_def f(2,4) by simp
qed

lemma iso_fire_fields:
  "emitted (isoFire i nxt t) = emitted t \<or> emitted (isoFire i nxt t) = emitted t @ [isoContext nxt t]"
  "i_runCount (isoFire i nxt t) = i_runCount t + 1" "i_interval (isoFire i nxt t) = i_interval t"
  "i_startTime (isoFire i nxt t) = i_startTime t" "i_repetitions (isoFire i nxt t) = i_repetitions t"
  "i_config (isoFire i nxt t) = i_config t" "clock (isoFire i nxt t) = clock t"
  "loops (isoFire i nxt t) = (loops t)[i := Top]"
  by (auto simp: isoFire_def trySend_def)

lemma isoFire_inv:
  assumes inv: "iso_inv now0 t" and i: "i < length (loops t)" "loops t ! i = TimerSelect nxt due" "due \<le> clock t"
  shows "iso_inv now0 (isoFire i nxt t)"
proof -
  let ?t = "isoFire i nxt t"
  note fd = iso_fire_fields [of i nxt t]
  have nt: "nth_time ?t = nth_time t" by (simp add: nth_time_def fd fun_eq_iff)
  have fits: "fits now0 t" if "fits now0 ?t"
  proof -
    have "0 < sint (i_interval t)" using inv by (simp add: iso_inv_def)
    then show ?thesis using that by (simp add: fits_def fd nth_time_def distrib_right)
  qed
  have mem: "TimerSelect nxt due \<in> set (loops t)" using i(1,2) nth_mem by fastforce
  have new: "iso_emission ?t (isoContext nxt t)" if "fits now0 t"
  proof -
    have "iso_pc t (TimerSelect nxt due)" using inv that mem unfolding iso_inv_def by blast
    then show ?thesis using i(3) unfolding iso_emission_def nt fd
      by (auto simp: isoContext_def ISO_now_def intro: le_imp_less_or_eq)
  qed
  have old: "iso_emission ?t c" if "iso_emission t c" for c
    using that unfolding iso_emission_def nt fd by force
  have pcs: "iso_pc ?t p" if "\<forall>p \<in> set (loops t). iso_pc t p" "p \<in> set (loops ?t)" for p
  proof -
    have "p = Top \<or> p \<in> set (loops t)" using in_set_update that(2) fd(8) by metis
    then show ?thesis
    proof
      assume "p \<in> set (loops t)"
      then have "iso_pc t p" using that(1) by blast
      then show ?thesis using nt fd by (cases p) force+
    qed simp
  qed
  have single: "iso_single ?t" if "fits now0 t" "length (loops t) \<le> 1"
  proof -
    have s: "iso_single t" using inv that by (simp add: iso_inv_def)
    then obtain ks where ks: "sorted_wrt (<) ks" "set ks \<subseteq> {0 ..< i_runCount t}"
      "map (\<lambda>c. instant (x_ScheduledTime c)) (emitted t) = map (nth_time t) ks"
      by (auto simp: iso_single_def)
    have armed: "instant nxt = nth_time t (i_runCount t)" "\<not> ISO_exhausted t"
      using s mem by (auto simp: iso_single_def)
    have top: "loops ?t = [Top]" using that(2) i(1) fd(8) by (cases "loops t") auto
    have rc: "0 \<le> i_runCount t" using inv by (simp add: iso_inv_def)
    have "\<exists>ks. sorted_wrt (<) ks \<and> set ks \<subseteq> {0 ..< i_runCount t + 1}
        \<and> map (\<lambda>c. instant (x_ScheduledTime c)) (emitted ?t) = map (nth_time t) ks"
      using fd(1)
    proof
      assume "emitted ?t = emitted t"
      then show ?thesis using ks by (intro exI [of _ ks]) force
    next
      assume "emitted ?t = emitted t @ [isoContext nxt t]"
      then show ?thesis using ks armed(1) rc
        by (intro exI [of _ "ks @ [i_runCount t]"]) (fastforce simp: sorted_wrt_append isoContext_def)
    qed
    then show ?thesis using top armed(2) unfolding iso_single_def nt fd by (auto simp: ISO_exhausted_def)
  qed
  show ?thesis
  proof -
    have "now0 \<le> clock ?t" "0 < sint (i_interval ?t)" "0 \<le> i_runCount ?t" "length (loops ?t) = length (loops t)"
      using inv by (simp_all add: iso_inv_def fd)
    moreover have "\<forall>c \<in> set (emitted ?t). iso_emission ?t c" "\<forall>p \<in> set (loops ?t). iso_pc ?t p" if "fits now0 ?t"
      using inv fits [OF that] new old pcs fd(1) unfolding iso_inv_def by auto
    ultimately show ?thesis using single fits unfolding iso_inv_def by simp
  qed
qed

lemma ISO_run_cases:
  assumes "ISO_run i b t = Some t'"
  obtains (top) "i < length (loops t)" "t' = isoTop i t"
  | (fire) nxt due where "i < length (loops t)" "loops t ! i = TimerSelect nxt due" "due \<le> clock t"
      "t' = isoFire i nxt t"
  | (quiet) q where "i < length (loops t)" "iso_quiet t t'" "loops t' = (loops t)[i := q]" "\<not> iso_timer q"
proof -
  have i: "i < length (loops t)" using assms by (auto simp: ISO_run_def split: if_splits)
  have q: "iso_quiet t v \<and> (\<exists>q. loops v = (loops t)[i := q] \<and> \<not> iso_timer q)"
    if "stopBranch i t = Some v \<or> pauseBranch f i t = Some v \<or> v = set_pc i Top t" for v f
    using that by (auto simp: stopBranch_def pauseBranch_def iso_quiet_def split: if_splits list.splits)
  have "t' = isoTop i t \<or> (\<exists>nxt due. loops t ! i = TimerSelect nxt due \<and> due \<le> clock t \<and> t' = isoFire i nxt t)
      \<or> stopBranch i t = Some t' \<or> pauseBranch (\<lambda>b. b) i t = Some t' \<or> pauseBranch Not i t = Some t'
      \<or> t' = set_pc i Top t"
    using assms i by (auto simp: ISO_run_def split: pc.splits branch.splits if_splits)
  then show thesis using i q [of t' "\<lambda>b. b"] q [of t' Not] that by blast
qed

lemma iso_step_inv:
  assumes "iso_step t t'" "iso_inv now0 t"
  shows "iso_inv now0 t'"
  using assms(1)
proof cases
  case (loop i b)
  from this(1) show ?thesis
  proof (cases rule: ISO_run_cases)
    case top
    then show ?thesis using isoTop_inv assms(2) by simp
  next
    case fire
    then show ?thesis using isoFire_inv assms(2) by simp
  next
    case quiet
    then show ?thesis using iso_quiet_preserves [OF assms(2)] in_set_update by fastforce
  qed
qed (rule iso_quiet_preserves [OF assms(2)]; auto simp: iso_quiet_def ISO_Start_def startCore_def
    ISO_Stop_def stopCore_def ISO_Pause_def pauseCore_def ISO_Resume_def resumeCore_def receive_def
    split: if_splits list.splits)+

definition iso_static :: "ISO8601Ticker \<Rightarrow> ISO8601Ticker \<Rightarrow> bool" where
  "iso_static t t' \<longleftrightarrow> i_interval t' = i_interval t \<and> i_startTime t' = i_startTime t
     \<and> i_repetitions t' = i_repetitions t \<and> i_config t' = i_config t"

lemma iso_step_static:
  assumes "iso_step t t'"
  shows "iso_static t t'"
  using assms
proof cases
  case (loop i b)
  from this(1) show ?thesis
    by (cases rule: ISO_run_cases)
      (auto simp: iso_static_def iso_quiet_def isoTop_def isoFire_def trySend_def Let_def)
qed (auto simp: iso_static_def ISO_Start_def startCore_def ISO_Stop_def stopCore_def ISO_Pause_def
    pauseCore_def ISO_Resume_def resumeCore_def receive_def split: if_splits list.splits)

lemma iso_reach_inv:
  assumes "iso_step\<^sup>*\<^sup>* t0 t" "iso_inv now0 t0"
  shows "iso_inv now0 t \<and> iso_static t0 t"
  using assms(1)
proof (induction rule: rtranclp_induct)
  case base
  then show ?case using assms(2) by (simp add: iso_static_def)
next
  case (step t t')
  then show ?case using iso_step_inv [OF step(2)] iso_step_static [OF step(2)] by (auto simp: iso_static_def)
qed

lemma new_iso:
  assumes "NewISO8601Ticker LoadLocation now interval startTime repetitions cfg = Inr t"
  shows "iso_inv now t" "i_interval t = interval" "instant (i_startTime t) = instant startTime"
    "i_repetitions t = repetitions" "i_config t = cfg"
  using assms
  by (auto simp: NewISO8601Ticker_def iso_inv_def iso_single_def fits_def new_core_def TickerCore.extend_def
      ISO8601Ticker.fields_def In_def split: sum.splits if_splits)

lemma iso_occurrences:
  assumes "0 < sint (i_interval t)"
  shows "ISO_GetOccurrencesBetween t start end' =
    (let N = visits (instant (i_startTime t)) (instant end') (sint (i_interval t)) (i_repetitions t) 0
     in if int N > 10000 then Inl ErrTooManyOccurrences
        else Inr (filter (\<lambda>x. instant start \<le> instant x \<and> withinWindow (i_config t) x)
                          (map (iso_time (i_startTime t) (i_interval t)) [0 ..< N])))"
  using isoLoop_spec [OF assms, of 0 "In start (i_location t)" "In end' (i_location t)" "i_startTime t" "[]"]
  unfolding Let_def
  by (simp add: ISO_GetOccurrencesBetween_def MaxOccurrenceIterations_def In_def ISO_isWithinWindow_def)

subsection \<open>Properties\<close>

text \<open>
  C27. The occurrences of an interval ticker between two times are the start time plus every multiple
  of the interval that lies before the end, not before the start, inside the active window and within
  the number of repetitions, in order; only if more than 10000 runs lie between the ticker's start
  time and the end is the result an error, even if none of them lies between the two times.
\<close>

theorem iso_occurrences_exact:
  assumes "0 < sint (i_interval t)"
  shows "ISO_GetOccurrencesBetween t start end' =
    (let N = visits (instant (i_startTime t)) (instant end') (sint (i_interval t)) (i_repetitions t) 0
     in if int N > 10000 then Inl ErrTooManyOccurrences
        else Inr (filter (\<lambda>x. instant start \<le> instant x \<and> withinWindow (i_config t) x)
                          (map (iso_time (i_startTime t) (i_interval t)) [0 ..< N])))"
  by (rule iso_occurrences [OF assms])

definition sample_iso :: "ISO8601Ticker result" where
  "sample_iso = NewISO8601Ticker (\<lambda>z. Inr UTC) 0 10 \<lparr>instant = 5, loc = 0\<rparr> 3
     \<lparr>tk_StartTime = None, tk_EndTime = None, tk_Timezone = ''''\<rparr>"

lemma sample_iso_ticker:
  obtains t where "sample_iso = Inr t" "i_interval t = 10" "i_startTime t = \<lparr>instant = 5, loc = 0\<rparr>"
    "i_repetitions t = 3" "\<And>x. withinWindow (i_config t) x"
    "i_runCount t = 0" "loops t = []" "running t = False"
  by (simp add: sample_iso_def NewISO8601Ticker_def timezone_of_def new_core_def TickerCore.extend_def
      ISO8601Ticker.fields_def In_def UTC_def withinWindow_def)

theorem iso_occurrences_exact_witness:
  "\<exists>t. sample_iso = Inr t \<and>
     ISO_GetOccurrencesBetween t \<lparr>instant = 15, loc = 0\<rparr> \<lparr>instant = 1000, loc = 0\<rparr>
       = Inr [\<lparr>instant = 15, loc = 0\<rparr>, \<lparr>instant = 25, loc = 0\<rparr>]"
proof -
  obtain t where t: "sample_iso = Inr t" "i_interval t = 10" "i_startTime t = \<lparr>instant = 5, loc = 0\<rparr>"
    "i_repetitions t = 3" "\<And>x. withinWindow (i_config t) x" by (rule sample_iso_ticker) blast
  have "{k :: nat. 5 + int k * 10 < 1000 \<and> 0 + int k < 3} = {..< 3}" by auto
  then have "visits 5 1000 10 3 0 = 3" by (simp add: visits_def)
  then show ?thesis
    using iso_occurrences_exact [of t "\<lparr>instant = 15, loc = 0\<rparr>" "\<lparr>instant = 1000, loc = 0\<rparr>"] t
    unfolding Let_def by (intro exI [of _ t]) (simp add: iso_time_def upt_rec)
qed

text \<open>
  C28. While its next run lies within the range of a duration, an interval ticker emits only
  multiples of its interval after its start time, inside the active window and never before they are
  due, whatever its client does and however its loops are scheduled. While it has been started once,
  the emitted runs have increasing numbers, so none is emitted twice, and it never counts more runs
  than the repetitions it was given.
\<close>

theorem iso_emissions:
  assumes "NewISO8601Ticker LoadLocation now interval startTime repetitions cfg = Inr t0"
    "iso_step\<^sup>*\<^sup>* t0 t" "fits now t"
  shows "(\<forall>c \<in> set (emitted t). withinWindow cfg (x_ScheduledTime c)
        \<and> instant (x_ScheduledTime c) \<le> instant (x_ActualTime c) \<and> instant (x_ActualTime c) \<le> clock t)
    \<and> (\<exists>ks. map (\<lambda>c. instant (x_ScheduledTime c)) (emitted t)
              = map (\<lambda>k. instant startTime + k * sint interval) ks \<and> set ks \<subseteq> {0 ..< i_runCount t}
            \<and> (length (loops t) \<le> 1 \<longrightarrow> sorted_wrt (<) ks))
    \<and> (length (loops t) \<le> 1 \<and> 0 < repetitions \<longrightarrow> i_runCount t \<le> repetitions)"
proof -
  note new = new_iso [OF assms(1)]
  have inv: "iso_inv now t" and st: "iso_static t0 t" using iso_reach_inv [OF assms(2) new(1)] by blast+
  have nt: "nth_time t = (\<lambda>k. instant startTime + k * sint interval)"
    using st new by (simp add: nth_time_def iso_static_def fun_eq_iff)
  have em: "iso_emission t c" if "c \<in> set (emitted t)" for c
    using inv assms(3) that by (simp add: iso_inv_def)
  have one: "iso_single t" if "length (loops t) \<le> 1" using inv assms(3) that by (simp add: iso_inv_def)
  have "\<exists>ks. map (\<lambda>c. instant (x_ScheduledTime c)) (emitted t) = map (nth_time t) ks
            \<and> set ks \<subseteq> {0 ..< i_runCount t} \<and> (length (loops t) \<le> 1 \<longrightarrow> sorted_wrt (<) ks)"
  proof (cases "length (loops t) \<le> 1")
    case True
    then show ?thesis using one unfolding iso_single_def by blast
  next
    case False
    have "\<forall>c \<in> set (emitted t). \<exists>k. 0 \<le> k \<and> k < i_runCount t \<and> instant (x_ScheduledTime c) = nth_time t k"
      using em by (simp add: iso_emission_def)
    then obtain f where "\<forall>c \<in> set (emitted t). 0 \<le> f c \<and> f c < i_runCount t
        \<and> instant (x_ScheduledTime c) = nth_time t (f c)" by metis
    then show ?thesis using False by (intro exI [of _ "map f (emitted t)"]) auto
  qed
  moreover have "i_config t = cfg" "i_repetitions t = repetitions" using st new by (simp_all add: iso_static_def)
  ultimately show ?thesis using em one unfolding nt by (auto simp: iso_emission_def iso_single_def)
qed

text \<open>The ticker of before, started, waiting for its first time, and after it has fired.\<close>

definition sample_timer :: ISO8601Ticker where
  "sample_timer = the (ISO_run 0 Proceed (ISO_Start (projr sample_iso)))"

definition sample_ticked :: ISO8601Ticker where
  "sample_ticked = the (ISO_run 0 TimerFired (sample_timer\<lparr>clock := 5\<rparr>))"

lemma sample_ticked_steps:
  "sample_iso = Inr (projr sample_iso)" "ISO_run 0 Proceed (ISO_Start (projr sample_iso)) = Some sample_timer"
  "clock sample_timer \<le> 5" "ISO_run 0 TimerFired (sample_timer\<lparr>clock := 5\<rparr>) = Some sample_ticked"
  "map x_ScheduledTime (emitted sample_ticked) = [\<lparr>instant = 5, loc = 0\<rparr>]" "length (loops sample_ticked) \<le> 1"
  "fits 0 sample_ticked" "clock sample_ticked = 5" "i_runCount sample_ticked = 1"
  by code_simp+

theorem iso_emissions_witness:
  "\<exists>c. emitted sample_ticked = [c] \<and> instant (x_ScheduledTime c) = 5 \<and> instant (x_ActualTime c) = 5 \<and> i_runCount sample_ticked = 1"
proof -
  let ?t = "projr sample_iso"
  have "iso_step\<^sup>*\<^sup>* ?t (ISO_Start ?t)" by (blast intro: iso_step.start)
  also have "iso_step (ISO_Start ?t) sample_timer" using sample_ticked_steps(2) by (rule iso_step.loop)
  also have "iso_step sample_timer (sample_timer\<lparr>clock := 5\<rparr>)" using sample_ticked_steps(3) by (rule iso_step.time)
  also have "iso_step (sample_timer\<lparr>clock := 5\<rparr>) sample_ticked" using sample_ticked_steps(4) by (rule iso_step.loop)
  finally have "iso_step\<^sup>*\<^sup>* ?t sample_ticked" .
  from iso_emissions [OF sample_ticked_steps(1) [unfolded sample_iso_def] this [unfolded sample_iso_def] sample_ticked_steps(7),
      THEN conjunct1] sample_ticked_steps(5,8,9)
  show ?thesis by (auto simp: map_eq_Cons_conv)
qed

end
