(* ===== verification/TickerInterface.thy ===== *)
theory TickerInterface
  imports CronTicker OnceTicker ISO8601Ticker
begin

text \<open>
  The interface \<^verbatim>\<open>Ticker\<close> of \<^verbatim>\<open>ticker/ticker.go\<close>: a ticker is one of the three implementations, and each
  method of the interface is the method of the implementation. What the clients of the interface rely
  on is stated as locales and discharged for the three tickers and for the interface itself.
\<close>

datatype Ticker = TCron CronTicker | TOnce OnceTicker | TISO8601 ISO8601Ticker

fun Ticker_Channel :: "Ticker \<Rightarrow> TickContext list" where
  "Ticker_Channel (TCron t) = Cron_Channel t"
| "Ticker_Channel (TOnce t) = Once_Channel t"
| "Ticker_Channel (TISO8601 t) = ISO_Channel t"

fun Ticker_Start :: "Ticker \<Rightarrow> error option \<times> Ticker" where
  "Ticker_Start (TCron t) = (None, TCron (Cron_Start t))"
| "Ticker_Start (TOnce t) = (case Once_Start t of (err, t') \<Rightarrow> (err, TOnce t'))"
| "Ticker_Start (TISO8601 t) = (None, TISO8601 (ISO_Start t))"

text \<open>No \<^verbatim>\<open>Stop\<close> returns an error; \<open>None\<close> is the panic of closing a closed channel.\<close>

fun Ticker_Stop :: "Ticker \<Rightarrow> Ticker option" where
  "Ticker_Stop (TCron t) = map_option TCron (Cron_Stop t)"
| "Ticker_Stop (TOnce t) = map_option TOnce (Once_Stop t)"
| "Ticker_Stop (TISO8601 t) = map_option TISO8601 (ISO_Stop t)"

fun Ticker_Pause :: "Ticker \<Rightarrow> Ticker" where
  "Ticker_Pause (TCron t) = TCron (Cron_Pause t)"
| "Ticker_Pause (TOnce t) = TOnce (Once_Pause t)"
| "Ticker_Pause (TISO8601 t) = TISO8601 (ISO_Pause t)"

fun Ticker_Resume :: "Ticker \<Rightarrow> Ticker" where
  "Ticker_Resume (TCron t) = TCron (Cron_Resume t)"
| "Ticker_Resume (TOnce t) = TOnce (Once_Resume t)"
| "Ticker_Resume (TISO8601 t) = TISO8601 (ISO_Resume t)"

fun Ticker_IsActive :: "Ticker \<Rightarrow> bool" where
  "Ticker_IsActive (TCron t) = Cron_IsActive t"
| "Ticker_IsActive (TOnce t) = Once_IsActive t"
| "Ticker_IsActive (TISO8601 t) = ISO_IsActive t"

fun Ticker_IsPaused :: "Ticker \<Rightarrow> bool" where
  "Ticker_IsPaused (TCron t) = Cron_IsPaused t"
| "Ticker_IsPaused (TOnce t) = Once_IsPaused t"
| "Ticker_IsPaused (TISO8601 t) = ISO_IsPaused t"

fun Ticker_IsEnabled :: "Ticker \<Rightarrow> bool" where
  "Ticker_IsEnabled (TCron t) = Cron_IsEnabled t"
| "Ticker_IsEnabled (TOnce t) = Once_IsEnabled t"
| "Ticker_IsEnabled (TISO8601 t) = ISO_IsEnabled t"

fun Ticker_NextRun :: "Ticker \<Rightarrow> gotime option result" where
  "Ticker_NextRun (TCron t) = Cron_NextRun t"
| "Ticker_NextRun (TOnce t) = Once_NextRun t"
| "Ticker_NextRun (TISO8601 t) = ISO_NextRun t"

fun Ticker_GetOccurrencesBetween :: "Ticker \<Rightarrow> gotime \<Rightarrow> gotime \<Rightarrow> gotime list result" where
  "Ticker_GetOccurrencesBetween (TCron t) start end' = Cron_GetOccurrencesBetween t start end'"
| "Ticker_GetOccurrencesBetween (TOnce t) start end' = Once_GetOccurrencesBetween t start end'"
| "Ticker_GetOccurrencesBetween (TISO8601 t) start end' = ISO_GetOccurrencesBetween t start end'"

subsection \<open>The contract of the occurrences\<close>

lemma strict_sorted_distinct: "sorted_wrt (\<lambda>x y. instant x < instant y) ts \<Longrightarrow> distinct ts"
  by (induction ts) auto

text \<open>
  The occurrences of a well-formed ticker between two times lie between them (whether an end itself
  counts differs among the tickers) and in the active window, and come in increasing order.
\<close>

locale schedule =
  fixes Occurrences :: "'t \<Rightarrow> gotime \<Rightarrow> gotime \<Rightarrow> gotime list result"
    and window :: "'t \<Rightarrow> TickerConfig"
    and wf :: "'t \<Rightarrow> bool"
  assumes occurrence_between: "wf t \<Longrightarrow> Occurrences t a b = Inr ts \<Longrightarrow> x \<in> set ts \<Longrightarrow>
      instant a \<le> instant x \<and> instant x \<le> instant b \<and> withinWindow (window t) x"
    and occurrences_increase: "wf t \<Longrightarrow> Occurrences t a b = Inr ts \<Longrightarrow>
      sorted_wrt (\<lambda>x y. instant x < instant y) ts"
begin

lemma occurrences_distinct: "wf t \<Longrightarrow> Occurrences t a b = Inr ts \<Longrightarrow> distinct ts"
  using strict_sorted_distinct [OF occurrences_increase] by blast

lemma last_latest:
  assumes "wf t" "Occurrences t a b = Inr ts" "x \<in> set ts"
  shows "instant x \<le> instant (last ts)"
proof -
  have s: "sorted_wrt (\<lambda>x y. instant x < instant y) (butlast ts @ [last ts])"
    using occurrences_increase [OF assms(1,2)] assms(3) by (metis append_butlast_last_id empty_iff set_empty)
  have "x \<in> set (butlast ts @ [last ts])"
    using assms(3) by (metis append_butlast_last_id empty_iff set_empty)
  then show ?thesis using s by (auto simp: sorted_wrt_append)
qed

text \<open>The last of any selection of the occurrences are the latest ones.\<close>

lemma suffix_latest:
  assumes "wf t" "Occurrences t a b = Inr ts" "x \<in> set (take n (filter P ts))" "y \<in> set (drop n (filter P ts))"
  shows "instant x < instant y"
proof -
  have "sorted_wrt (\<lambda>x y. instant x < instant y) (filter P ts)"
    by (rule sorted_wrt_filter [OF occurrences_increase [OF assms(1,2)]])
  then show ?thesis using assms(3,4) by (metis append_take_drop_id sorted_wrt_append)
qed

end

text \<open>A cron expression that is never without an activation for five years, read in the location of the ticker.\<close>

definition cron_wf :: "CronTicker \<Rightarrow> bool" where
  "cron_wf t \<longleftrightarrow> (\<exists>A. cron_next (Next t) A \<and> cron_regular A (location t) UNIV)"

lemma cron_schedule: "schedule Cron_GetOccurrencesBetween CronTicker.config cron_wf"
proof
  fix t a b ts
  assume "cron_wf t" and ts: "Cron_GetOccurrencesBetween t a b = Inr ts"
  then obtain A where A: "cron_next (Next t) A" "cron_regular A (location t) UNIV" by (auto simp: cron_wf_def)
  let ?S = "{x \<in> A (location t). instant a < x \<and> x \<le> instant b \<and> withinWindow (CronTicker.config t) (at_location (location t) x)}"
  have eq: "ts = map (at_location (location t)) (sorted_list_of_set ?S)"
    using ts cron_occurrences [OF A(1) cron_regular_subset [OF A(2) subset_UNIV], of a b] by (auto split: if_splits)
  have fin: "finite ?S" by (rule finite_between)
  have at': "instant (at_location l x) = x" for l x by (simp add: at_location_def)
  show "sorted_wrt (\<lambda>x y. instant x < instant y) ts"
    unfolding eq sorted_wrt_map at' by (rule strict_sorted_list_of_set)
  show "instant a \<le> instant x \<and> instant x \<le> instant b \<and> withinWindow (CronTicker.config t) x" if "x \<in> set ts" for x
    using that fin unfolding eq by (auto simp: at')
qed

interpretation cron: schedule Cron_GetOccurrencesBetween CronTicker.config cron_wf
  by (rule cron_schedule)

interpretation once: schedule Once_GetOccurrencesBetween o_config "\<lambda>t. True"
  by unfold_locales
    (auto simp: Once_GetOccurrencesBetween_def After_def Before_def In_def Once_isWithinWindow_def Let_def
      split: if_splits)

lemma iso_schedule: "schedule ISO_GetOccurrencesBetween i_config (\<lambda>t. 0 < sint (i_interval t))"
proof
  fix t a b ts
  assume i: "0 < sint (i_interval t)" and ts: "ISO_GetOccurrencesBetween t a b = Inr ts"
  let ?V = "\<lambda>N. map (iso_time (i_startTime t) (i_interval t)) [0 ..< N]"
  obtain N where N: "N = visits (instant (i_startTime t)) (instant b) (sint (i_interval t)) (i_repetitions t) 0"
    by blast
  have eq: "ts = filter (\<lambda>x. instant a \<le> instant x \<and> withinWindow (i_config t) x) (?V N)"
    using ts isoLoop_spec [OF i, of 0 "In a (i_location t)" "In b (i_location t)" "i_startTime t" "[]"]
    unfolding Let_def
    by (auto simp: ISO_GetOccurrencesBetween_def In_def N ISO_isWithinWindow_def MaxOccurrenceIterations_def
        split: if_splits)
  have "sorted_wrt (\<lambda>x y. instant x < instant y) (?V N)"
    unfolding sorted_wrt_map using i by (intro sorted_wrt_mono_rel [OF _ sorted_wrt_upt]) (simp add: iso_time_def)
  then show "sorted_wrt (\<lambda>x y. instant x < instant y) ts" unfolding eq by (rule sorted_wrt_filter)
  have "instant x \<le> instant b" if "x \<in> set (?V N)" for x
    using that visited_before [OF i] unfolding N by (fastforce simp: iso_time_def)
  then show "instant a \<le> instant x \<and> instant x \<le> instant b \<and> withinWindow (i_config t) x" if "x \<in> set ts" for x
    using that unfolding eq by auto
qed

interpretation iso: schedule ISO_GetOccurrencesBetween i_config "\<lambda>t. 0 < sint (i_interval t)"
  by (rule iso_schedule)

fun ticker_window :: "Ticker \<Rightarrow> TickerConfig" where
  "ticker_window (TCron t) = CronTicker.config t"
| "ticker_window (TOnce t) = o_config t"
| "ticker_window (TISO8601 t) = i_config t"

fun ticker_wf :: "Ticker \<Rightarrow> bool" where
  "ticker_wf (TCron t) = cron_wf t"
| "ticker_wf (TOnce t) = True"
| "ticker_wf (TISO8601 t) = (0 < sint (i_interval t))"

lemma ticker_schedule: "schedule Ticker_GetOccurrencesBetween ticker_window ticker_wf"
proof
  fix t a b ts
  assume "ticker_wf t" "Ticker_GetOccurrencesBetween t a b = Inr ts"
  then show "sorted_wrt (\<lambda>x y. instant x < instant y) ts"
    using cron.occurrences_increase once.occurrences_increase iso.occurrences_increase by (cases t) auto
next
  fix t a b ts x
  assume "ticker_wf t" "Ticker_GetOccurrencesBetween t a b = Inr ts" "x \<in> set ts"
  then show "instant a \<le> instant x \<and> instant x \<le> instant b \<and> withinWindow (ticker_window t) x"
    using cron.occurrence_between once.occurrence_between iso.occurrence_between by (cases t) simp_all
qed

interpretation ticker: schedule Ticker_GetOccurrencesBetween ticker_window ticker_wf
  by (rule ticker_schedule)

end
