(* ===== verification/Recovery.thy ===== *)
theory Recovery
  imports ExecutionFrame Pool TickerInterface
begin

text \<open>
  The recovery handler of \<^verbatim>\<open>recovery/recovery.go\<close>: which missed times a strategy recovers, and the run it
  schedules for each. The function literal given to the pool is the pair of the job and the
  occurrence it captures. The pool is passed along with the world; a submission is what
  \<open>Submit_alone\<close> gives: the handler runs the occurrence itself on a pool that is not started, and
  queues it on a started pool with room; when the call would have to wait, or the run panics, the
  result is \<open>None\<close>. The interleaving of parallel tasks of an occurrence is given by \<open>sched\<close>.
\<close>

type_synonym 'tk run = "'tk Job \<times> JobOccurrence"

record ('s, 'm) RecoveryHandler =
  rh_store :: "'s Storage"
  rh_executor :: "('s, 'm) Executor"
  rh_metrics :: "'m MetricsCollector"

definition NewRecoveryHandler :: "'s Storage \<Rightarrow> ('s, 'm) Executor \<Rightarrow> ('s, 'm) RecoveryHandler" where
  "NewRecoveryHandler store exec = \<lparr>rh_store = store, rh_executor = exec, rh_metrics = NoOpMetrics\<rparr>"

definition Recovery_SetMetrics ::
  "('s, 'm) RecoveryHandler \<Rightarrow> 'm MetricsCollector \<Rightarrow> ('s, 'm) RecoveryHandler" where
  "Recovery_SetMetrics r m = r\<lparr>rh_metrics := m\<rparr>"

text \<open>Running the function literal: the execution, whose results are dropped.\<close>

definition run_closure ::
  "Env \<Rightarrow> ('s, 'm) Executor \<Rightarrow> (JobOccurrence \<Rightarrow> nat list) \<Rightarrow> 'tk run \<Rightarrow> ('s, 'm) World \<Rightarrow> ('s, 'm) World option"
where
  "run_closure E e sched f w =
     (case f of (job, occurrence) \<Rightarrow>
        map_option (\<lambda>(report, err, occurrence, w). w)
          (ExecuteJobOccurrence E e job (sched occurrence) occurrence w))"

definition recovery_occurrence :: "Env \<Rightarrow> 'tk Job \<Rightarrow> gotime \<Rightarrow> instant \<Rightarrow> instant \<Rightarrow> JobOccurrence" where
  "recovery_occurrence E job scheduledTime createdAt updatedAt =
     \<lparr>jo_ID = GenerateJobOccurrenceID (NewSHA1 E) (j_ID job) (instant scheduledTime),
      jo_JobID = j_ID job, jo_JobVersion = j_Version job, jo_ScheduledTime = instant scheduledTime,
      jo_Status = JobStatusPending, jo_OwningNodeID = '''', jo_StartTime = None, jo_EndTime = None,
      jo_Config = j_Config job, jo_IsRecoveryRun = True, jo_CreatedAt = createdAt,
      jo_UpdatedAt = updatedAt\<rparr>"

definition recovery_record :: "JobOccurrence \<Rightarrow> StoredOccurrence" where
  "recovery_record occurrence =
     \<lparr>so_ID = jo_ID occurrence, so_JobID = jo_JobID occurrence, so_JobVersion = jo_JobVersion occurrence,
      so_ScheduledTime = jo_ScheduledTime occurrence, so_Status = jo_Status occurrence,
      so_OwningNodeID = '''', so_StartTime = None, so_EndTime = None, so_Config = None,
      so_IsRecoveryRun = jo_IsRecoveryRun occurrence, so_CreatedAt = jo_CreatedAt occurrence,
      so_UpdatedAt = jo_UpdatedAt occurrence\<rparr>"

definition scheduleRecoveryRun ::
  "Env \<Rightarrow> (JobOccurrence \<Rightarrow> nat list) \<Rightarrow> ('s, 'm) RecoveryHandler \<Rightarrow> 'tk Job \<Rightarrow> gotime \<Rightarrow> string
   \<Rightarrow> ('s, 'm) World \<times> 'tk run WorkerPool \<Rightarrow> (error option \<times> ('s, 'm) World \<times> 'tk run WorkerPool) option"
where
  "scheduleRecoveryRun E sched r job scheduledTime strategy = (\<lambda>(w, p).
     (let (createdAt, w) = time_Now E w;
          (updatedAt, w) = time_Now E w;
          occurrence = recovery_occurrence E job scheduledTime createdAt updatedAt;
          (err, st) = CreateJobOccurrence (rh_store r) (w_store w) (recovery_record occurrence);
          w = w\<lparr>w_store := st\<rparr>
      in (case err of
            Some _ \<Rightarrow> Some (None, w, p)
          | None \<Rightarrow>
              (let w = w\<lparr>w_metrics := IncRecoveryRuns (rh_metrics r) (w_metrics w) (j_Name job) strategy\<rparr>
               in (case Submit_alone p (job, occurrence) of
                     None \<Rightarrow> None
                   | Some RunHere \<Rightarrow>
                       map_option (\<lambda>w. (None, w, p)) (run_closure E (rh_executor r) sched (job, occurrence) w)
                   | Some (Queued p) \<Rightarrow> Some (None, w, p))))))"

fun executeAll ::
  "Env \<Rightarrow> (JobOccurrence \<Rightarrow> nat list) \<Rightarrow> ('s, 'm) RecoveryHandler \<Rightarrow> 'tk Job \<Rightarrow> gotime list
   \<Rightarrow> ('s, 'm) World \<times> 'tk run WorkerPool \<Rightarrow> (error option \<times> ('s, 'm) World \<times> 'tk run WorkerPool) option"
where
  "executeAll E sched r job [] s = Some (None, s)"
| "executeAll E sched r job (t # missedTimes) s =
     (case scheduleRecoveryRun E sched r job t ''full_backfill'' s of
        None \<Rightarrow> None
      | Some (Some err, s) \<Rightarrow> Some (Some err, s)
      | Some (None, s) \<Rightarrow> executeAll E sched r job missedTimes s)"

definition executeLast ::
  "Env \<Rightarrow> (JobOccurrence \<Rightarrow> nat list) \<Rightarrow> ('s, 'm) RecoveryHandler \<Rightarrow> 'tk Job \<Rightarrow> gotime list
   \<Rightarrow> ('s, 'm) World \<times> 'tk run WorkerPool \<Rightarrow> (error option \<times> ('s, 'm) World \<times> 'tk run WorkerPool) option"
where
  "executeLast E sched r job missedTimes s =
     (if missedTimes = [] then Some (None, s)
      else scheduleRecoveryRun E sched r job (missedTimes ! (length missedTimes - 1)) ''latest_only'' s)"

definition markAsMissed ::
  "'tk Job \<Rightarrow> gotime list
   \<Rightarrow> ('s, 'm) World \<times> 'tk run WorkerPool \<Rightarrow> (error option \<times> ('s, 'm) World \<times> 'tk run WorkerPool) option"
where
  "markAsMissed job missedTimes s = Some (None, s)"

definition boundedWindow ::
  "Env \<Rightarrow> (JobOccurrence \<Rightarrow> nat list) \<Rightarrow> ('s, 'm) RecoveryHandler \<Rightarrow> 'tk Job \<Rightarrow> gotime list
   \<Rightarrow> ('s, 'm) World \<times> 'tk run WorkerPool \<Rightarrow> (error option \<times> ('s, 'm) World \<times> 'tk run WorkerPool) option"
where
  "boundedWindow E sched r job missedTimes s =
     (case jc_BoundedWindow (j_Config job) of
        None \<Rightarrow> executeAll E sched r job missedTimes s
      | Some window \<Rightarrow>
          (let (filteredTimes, w) =
                 (if sint (MaxDuration window) > 0
                  then (let (now, w) = time_Now E (fst s);
                            cutoff = add_dur now (- MaxDuration window)
                        in (filter (\<lambda>t. cutoff < instant t) missedTimes, w))
                  else (missedTimes, fst s));
               filteredTimes =
                 (if MaxOccurrences window > 0 \<and> int (length filteredTimes) > MaxOccurrences window
                  then drop (length filteredTimes - nat (MaxOccurrences window)) filteredTimes
                  else filteredTimes)
           in executeAll E sched r job filteredTimes (w, snd s)))"

definition ApplyStrategy ::
  "Env \<Rightarrow> (JobOccurrence \<Rightarrow> nat list) \<Rightarrow> ('s, 'm) RecoveryHandler \<Rightarrow> 'tk Job \<Rightarrow> gotime list
   \<Rightarrow> ('s, 'm) World \<times> 'tk run WorkerPool \<Rightarrow> (error option \<times> ('s, 'm) World \<times> 'tk run WorkerPool) option"
where
  "ApplyStrategy E sched r job missedTimes s =
     (let strategy = jc_RecoveryStrategy (j_Config job)
      in if missedTimes = [] then Some (None, s)
         else if strategy = RecoveryStrategyExecuteAll then executeAll E sched r job missedTimes s
         else if strategy = RecoveryStrategyExecuteLast then executeLast E sched r job missedTimes s
         else if strategy = RecoveryStrategyMarkAsMissed then markAsMissed job missedTimes s
         else if strategy = RecoveryStrategyBoundedWindow then boundedWindow E sched r job missedTimes s
         else executeAll E sched r job missedTimes s)"

subsection \<open>The selected times\<close>

text \<open>What each strategy means: the times whose occurrences it recovers, at the given time.\<close>

definition selected_times :: "JobConfig \<Rightarrow> instant \<Rightarrow> gotime list \<Rightarrow> gotime list" where
  "selected_times cfg now missed =
     (if jc_RecoveryStrategy cfg = RecoveryStrategyExecuteLast then drop (length missed - 1) missed
      else if jc_RecoveryStrategy cfg = RecoveryStrategyMarkAsMissed then []
      else if jc_RecoveryStrategy cfg = RecoveryStrategyBoundedWindow
      then (case jc_BoundedWindow cfg of
              None \<Rightarrow> missed
            | Some win \<Rightarrow>
                (let recent = (if 0 < sint (MaxDuration win)
                               then filter (\<lambda>t. now - sint (MaxDuration win) < instant t) missed else missed)
                 in if 0 < MaxOccurrences win then drop (length recent - nat (MaxOccurrences win)) recent
                    else recent))
      else missed)"

text \<open>Scheduling a run for each of a list of times.\<close>

fun recover ::
  "Env \<Rightarrow> (JobOccurrence \<Rightarrow> nat list) \<Rightarrow> ('s, 'm) RecoveryHandler \<Rightarrow> 'tk Job \<Rightarrow> string \<Rightarrow> gotime list
   \<Rightarrow> ('s, 'm) World \<times> 'tk run WorkerPool \<Rightarrow> (('s, 'm) World \<times> 'tk run WorkerPool) option"
where
  "recover E sched r job label [] s = Some s"
| "recover E sched r job label (t # ts) s =
     (case scheduleRecoveryRun E sched r job t label s of
        None \<Rightarrow> None | Some (err, s) \<Rightarrow> recover E sched r job label ts s)"

lemma scheduleRecoveryRun_no_error:
  "scheduleRecoveryRun E sched r job t label s = Some (err, s') \<Longrightarrow> err = None"
  by (auto simp: scheduleRecoveryRun_def Let_def split: prod.splits option.splits submission.splits)

lemma executeAll_recover:
  "executeAll E sched r job ts s = map_option (\<lambda>s. (None, s)) (recover E sched r job ''full_backfill'' ts s)"
proof (induction ts arbitrary: s)
  case (Cons t ts)
  show ?case
  proof (cases "scheduleRecoveryRun E sched r job t ''full_backfill'' s")
    case (Some res)
    obtain err s' where res: "res = (err, s')" by (cases res)
    then show ?thesis using Some scheduleRecoveryRun_no_error Cons.IH by fastforce
  qed simp
qed simp

lemma word_uminus_sint: "0 < sint d \<Longrightarrow> sint (- (d :: duration)) = - sint d"
proof -
  assume d: "0 < sint d"
  have "- d = word_of_int (- sint d)" by simp
  moreover have "sint d < 2 ^ 63" using sint_lt [of d] by simp
  ultimately show ?thesis using d by (simp only: sint_word_of_int_64)
qed

text \<open>The clock the bounded window reads.\<close>

definition reads_clock :: "JobConfig \<Rightarrow> bool" where
  "reads_clock cfg \<longleftrightarrow> jc_RecoveryStrategy cfg = RecoveryStrategyBoundedWindow
     \<and> (\<exists>win. jc_BoundedWindow cfg = Some win \<and> 0 < sint (MaxDuration win))"

lemma ApplyStrategy_recover:
  assumes "missed \<noteq> []"
  shows "ApplyStrategy E sched r job missed (w, p) = map_option (\<lambda>s. (None, s))
    (recover E sched r job
       (if jc_RecoveryStrategy (j_Config job) = RecoveryStrategyExecuteLast then ''latest_only'' else ''full_backfill'')
       (selected_times (j_Config job) (Now E (w_clock w)) missed)
       (if reads_clock (j_Config job) then w\<lparr>w_clock := Suc (w_clock w)\<rparr> else w, p))"
proof -
  let ?c = "j_Config job"
  have last: "drop (length missed - 1) missed = [missed ! (length missed - 1)]"
    using assms by (cases missed rule: rev_cases) simp_all
  consider (all) "jc_RecoveryStrategy ?c = RecoveryStrategyExecuteAll"
    | (latest) "jc_RecoveryStrategy ?c = RecoveryStrategyExecuteLast"
    | (missed) "jc_RecoveryStrategy ?c = RecoveryStrategyMarkAsMissed"
    | (bounded) "jc_RecoveryStrategy ?c = RecoveryStrategyBoundedWindow"
    | (other) "jc_RecoveryStrategy ?c \<noteq> RecoveryStrategyExecuteAll" "jc_RecoveryStrategy ?c \<noteq> RecoveryStrategyExecuteLast"
        "jc_RecoveryStrategy ?c \<noteq> RecoveryStrategyMarkAsMissed" "jc_RecoveryStrategy ?c \<noteq> RecoveryStrategyBoundedWindow"
    by blast
  then show ?thesis
  proof cases
    case latest
    then have eqs: "ApplyStrategy E sched r job missed (w, p)
        = scheduleRecoveryRun E sched r job (missed ! (length missed - 1)) ''latest_only'' (w, p)"
      "selected_times ?c (Now E (w_clock w)) missed = [missed ! (length missed - 1)]" "\<not> reads_clock ?c"
      using last assms by (simp_all add: ApplyStrategy_def executeLast_def selected_times_def reads_clock_def)
    show ?thesis
    proof (cases "scheduleRecoveryRun E sched r job (missed ! (length missed - 1)) ''latest_only'' (w, p)")
      case (Some res)
      obtain err s where res: "res = (err, s)" by (cases res)
      then have "err = None" using Some scheduleRecoveryRun_no_error by blast
      then show ?thesis using Some latest eqs(3) res unfolding eqs(1,2) by simp
    next
      case None
      then show ?thesis using latest eqs(3) unfolding eqs(1,2) by simp
    qed
  next
    case bounded
    show ?thesis
    proof (cases "jc_BoundedWindow ?c")
      case None
      then show ?thesis using bounded assms
        by (simp add: ApplyStrategy_def boundedWindow_def selected_times_def reads_clock_def executeAll_recover)
    next
      case (Some win)
      have drop: "(if P \<and> int (length xs) > n then drop (length xs - nat n) xs else xs)
          = (if P then drop (length xs - nat n) xs else xs)" for P n and xs :: "gotime list" by auto
      have cut: "0 < sint (MaxDuration win) \<Longrightarrow> add_dur i (- MaxDuration win) = i - sint (MaxDuration win)" for i
        by (simp add: add_dur_def word_uminus_sint)
      show ?thesis using bounded assms Some
        by (simp add: ApplyStrategy_def boundedWindow_def selected_times_def reads_clock_def executeAll_recover
            time_Now_def Let_def drop cut)
    qed
  qed (simp_all add: assms ApplyStrategy_def selected_times_def reads_clock_def executeAll_recover markAsMissed_def)
qed

subsection \<open>The effect on the store\<close>

definition occ_of :: "Env \<Rightarrow> 'tk Job \<Rightarrow> gotime \<Rightarrow> string \<times> string" where
  "occ_of E job t = (j_ID job, GenerateJobOccurrenceID (NewSHA1 E) (j_ID job) (instant t))"

definition recovered_record :: "'tk Job \<Rightarrow> StoredOccurrence \<Rightarrow> bool" where
  "recovered_record job rec \<longleftrightarrow>
     so_IsRecoveryRun rec \<and> so_JobVersion rec = j_Version job \<and> so_StartTime rec \<noteq> None \<and> so_EndTime rec \<noteq> None
     \<and> (so_Status rec = JobStatusCompleted \<or> so_Status rec = JobStatusFailed)"

text \<open>
  The store after a recovery of the given times in place: an occurrence that was there is unchanged,
  one that was not has been run to its end, and no other occurrence is touched.
\<close>

definition recovered :: "Env \<Rightarrow> 'tk Job \<Rightarrow> gotime list \<Rightarrow> AStore \<Rightarrow> AStore \<Rightarrow> bool" where
  "recovered E job ts a a' \<longleftrightarrow>
     a_jobs a' = a_jobs a \<and> a_tasks a' = a_tasks a
     \<and> (\<forall>k. k \<notin> occ_of E job ` set ts \<longrightarrow> a_occs a' k = a_occs a k)
     \<and> (\<forall>t \<in> set ts. case a_occs a (occ_of E job t) of
          Some rec \<Rightarrow> a_occs a' (occ_of E job t) = Some rec
        | None \<Rightarrow> \<exists>rec. a_occs a' (occ_of E job t) = Some rec \<and> recovered_record job rec)"

lemma recovered_other: "recovered E job ts a b \<Longrightarrow> k \<notin> occ_of E job ` set ts \<Longrightarrow> a_occs b k = a_occs a k"
  unfolding recovered_def by blast

lemma recovered_Cons:
  assumes one: "recovered E job [t] a b" and rest: "recovered E job ts b c"
  shows "recovered E job (t # ts) a c"
proof -
  have keep: "a_occs c (occ_of E job t) = a_occs b (occ_of E job t)"
  proof (cases "occ_of E job t \<in> occ_of E job ` set ts")
    case True
    then obtain t' where t': "t' \<in> set ts" "occ_of E job t = occ_of E job t'" by blast
    obtain rec where "a_occs b (occ_of E job t) = Some rec"
      using one by (cases "a_occs a (occ_of E job t)") (auto simp: recovered_def)
    then show ?thesis using rest t' by (fastforce simp: recovered_def)
  next
    case False
    then show ?thesis by (rule recovered_other [OF rest])
  qed
  have "case a_occs a (occ_of E job t') of
          Some rec \<Rightarrow> a_occs c (occ_of E job t') = Some rec
        | None \<Rightarrow> \<exists>rec. a_occs c (occ_of E job t') = Some rec \<and> recovered_record job rec"
    if "t' \<in> set (t # ts)" for t'
  proof (cases "occ_of E job t' = occ_of E job t")
    case True
    show ?thesis using one unfolding True keep recovered_def by simp
  next
    case False
    then have "t' \<in> set ts" "a_occs b (occ_of E job t') = a_occs a (occ_of E job t')"
      using that recovered_other [OF one] by auto
    then show ?thesis using rest unfolding recovered_def by metis
  qed
  moreover have "a_occs c k = a_occs a k" if "k \<notin> occ_of E job ` set (t # ts)" for k
    using that recovered_other [OF one, of k] recovered_other [OF rest, of k] by simp
  ultimately show ?thesis using one rest unfolding recovered_def by simp
qed

lemma recovery_occurrence_ok:
  assumes "uuid_text (NewSHA1 E)" "job_id_ok (j_ID job)" "clock_ok E" "year_ok (instant t)"
  shows "job_id_ok (jo_JobID (recovery_occurrence E job t (Now E m) (Now E n)))"
    "occ_id_ok (jo_ID (recovery_occurrence E job t (Now E m) (Now E n)))"
    "occurrence_times_ok (recovery_occurrence E job t (Now E m) (Now E n))"
    "occ_times_ok (recovery_record (recovery_occurrence E job t (Now E m) (Now E n)))"
    "joc_key (recovery_occurrence E job t (Now E m) (Now E n)) = occ_of E job t"
    "occ_key (recovery_record (recovery_occurrence E job t (Now E m) (Now E n))) = occ_of E job t"
  using assms generated_ids_ok [OF assms(1)]
  by (simp_all add: recovery_occurrence_def recovery_record_def occurrence_times_ok_def occ_times_ok_def
      opt_year_ok_def clock_ok_def occ_of_def)

definition executions_return ::
  "Env \<Rightarrow> ('s, 'm) Executor \<Rightarrow> (JobOccurrence \<Rightarrow> nat list) \<Rightarrow> 'tk Job \<Rightarrow> bool" where
  "executions_return E e sched job \<longleftrightarrow> (\<forall>oc w. ExecuteJobOccurrence E e job (sched oc) oc w \<noteq> None)"

context reliable_storage
begin

text \<open>The creation of the record of a recovery run.\<close>

lemma create_recovery:
  assumes u: "uuid_text (NewSHA1 E)" and j: "job_id_ok (j_ID job)" and clk: "clock_ok E" and y: "year_ok (instant t)"
    and inv: "invar s"
    and c: "CreateJobOccurrence S s (recovery_record (recovery_occurrence E job t (Now E m) (Now E n))) = (err, s')"
  shows "invar s'" "err = None \<longleftrightarrow> a_occs (abs s) (occ_of E job t) = None"
    "abs s' = (if err = None then (abs s)\<lparr>a_occs := (a_occs (abs s))(occ_of E job t \<mapsto>
        recovery_record (recovery_occurrence E job t (Now E m) (Now E n)))\<rparr> else abs s)"
proof -
  let ?rec = "recovery_record (recovery_occurrence E job t (Now E m) (Now E n))"
  note ok = recovery_occurrence_ok [OF u j clk y, of m n]
  have ids: "job_id_ok (so_JobID ?rec)" "occ_id_ok (so_ID ?rec)" using ok(1,2) by (simp_all add: recovery_record_def)
  note law = CreateJobOccurrence_law [OF inv ids c, unfolded ok(6)]
  show "invar s'" using law by blast
  show e: "err = None \<longleftrightarrow> a_occs (abs s) (occ_of E job t) = None"
    using CreateJobOccurrence_ok [OF inv ids ok(4)] c unfolding ok(6) by (simp split: if_splits)
  have "abs s' = (abs s)\<lparr>a_occs := a_occs (abs s')\<rparr>" using law by blast
  moreover have "a_occs (abs s') = (if err = None then (a_occs (abs s))(occ_of E job t \<mapsto> ?rec) else a_occs (abs s))"
    using law by (auto simp: create_spec_def split: option.splits)
  ultimately show "abs s' = (if err = None then (abs s)\<lparr>a_occs := (a_occs (abs s))(occ_of E job t \<mapsto> ?rec)\<rparr> else abs s)"
    by (cases err) (metis AStore.surjective AStore.update_convs(3) AStore.select_convs(3))+
qed

end

subsection \<open>Recovery in place and recovery through the queue\<close>

text \<open>A recovery handler on the storage \<open>S\<close>, for a job and times that can be stored.\<close>

definition recovery_setup :: "Env \<Rightarrow> 's Storage \<Rightarrow> ('s, 'm) RecoveryHandler \<Rightarrow> 'tk Job \<Rightarrow> gotime list \<Rightarrow> bool" where
  "recovery_setup E S r job ts \<longleftrightarrow>
     rh_store r = S \<and> ex_store (rh_executor r) = S \<and> uuid_text (NewSHA1 E) \<and> clock_ok E \<and> job_id_ok (j_ID job)
     \<and> (\<forall>t \<in> set ts. year_ok (instant t))"

lemma recovery_setup_Cons: "recovery_setup E S r job (t # ts) \<longleftrightarrow>
    recovery_setup E S r job [t] \<and> recovery_setup E S r job ts"
  by (auto simp: recovery_setup_def)

text \<open>A started pool that is not being stopped and has room for \<open>n\<close> more tasks.\<close>

definition pool_takes :: "nat \<Rightarrow> 'a WorkerPool \<Rightarrow> bool" where
  "pool_takes n p \<longleftrightarrow> p_started p \<and> \<not> p_stopping p \<and> \<not> p_stopClosed p
     \<and> length (p_taskQueue p) + n \<le> queue_capacity p"

text \<open>What is queued for the given times, and stored for it.\<close>

definition queued :: "Env \<Rightarrow> 'tk Job \<Rightarrow> gotime list \<Rightarrow> AStore \<Rightarrow> AStore \<Rightarrow> 'tk run list \<Rightarrow> bool" where
  "queued E job ts a a' new \<longleftrightarrow>
     a_jobs a' = a_jobs a \<and> a_tasks a' = a_tasks a
     \<and> distinct (map (joc_key \<circ> snd) new) \<and> set (map (joc_key \<circ> snd) new) = occ_of E job ` set ts - dom (a_occs a)
     \<and> (\<forall>(j, oc) \<in> set new. j = job \<and> jo_IsRecoveryRun oc \<and> a_occs a' (joc_key oc) = Some (recovery_record oc))
     \<and> (\<forall>k. k \<notin> set (map (joc_key \<circ> snd) new) \<longrightarrow> a_occs a' k = a_occs a k)"

context reliable_storage
begin

lemma scheduleRecoveryRun_here:
  assumes set_up: "recovery_setup E S r job [t]" and inv: "invar (w_store w)"
    and p: "\<not> p_started p" "\<not> p_stopping p" and ret: "executions_return E (rh_executor r) sched job"
  shows "\<exists>w'. scheduleRecoveryRun E sched r job t label (w, p) = Some (None, w', p) \<and> invar (w_store w')
    \<and> recovered E job [t] (abs (w_store w)) (abs (w_store w'))"
proof -
  have st: "rh_store r = S" "ex_store (rh_executor r) = S" and u: "uuid_text (NewSHA1 E)" and clk: "clock_ok E"
    and j: "job_id_ok (j_ID job)" and y: "year_ok (instant t)" using set_up by (simp_all add: recovery_setup_def)
  let ?oc = "recovery_occurrence E job t (Now E (w_clock w)) (Now E (Suc (w_clock w)))"
  note ok = recovery_occurrence_ok [OF u j clk y, of "w_clock w" "Suc (w_clock w)"]
  obtain err s' where c: "CreateJobOccurrence S (w_store w) (recovery_record ?oc) = (err, s')"
    by (cases "CreateJobOccurrence S (w_store w) (recovery_record ?oc)")
  note cr = create_recovery [OF u j clk y inv c]
  let ?w = "w\<lparr>w_clock := Suc (Suc (w_clock w)), w_store := s'\<rparr>"
  show ?thesis
  proof (cases err)
    case (Some x)
    then have "scheduleRecoveryRun E sched r job t label (w, p) = Some (None, ?w, p)"
      using c st(1) by (simp add: scheduleRecoveryRun_def time_Now_def Let_def)
    moreover have "recovered E job [t] (abs (w_store w)) (abs s')"
      using cr(2,3) Some by (auto simp: recovered_def split: option.splits)
    ultimately show ?thesis using cr(1) by auto
  next
    case None
    let ?v = "?w\<lparr>w_metrics := IncRecoveryRuns (rh_metrics r) (w_metrics w) (j_Name job) label\<rparr>"
    obtain rep er oc' w' where ex: "ExecuteJobOccurrence E (rh_executor r) job (sched ?oc) ?oc ?v = Some (rep, er, oc', w')"
      using ret unfolding executions_return_def by (metis not_None_eq prod_cases4)
    have "scheduleRecoveryRun E sched r job t label (w, p) = Some (None, w', p)"
      using c st(1) None p ex
      by (simp add: scheduleRecoveryRun_def time_Now_def Let_def Submit_alone_def run_closure_def)
    moreover have occs: "a_occs (abs s') = (a_occs (abs (w_store w)))(occ_of E job t \<mapsto> recovery_record ?oc)"
      "a_jobs (abs s') = a_jobs (abs (w_store w))" "a_tasks (abs s') = a_tasks (abs (w_store w))"
      using cr(3) None by simp_all
    have inv': "invar (w_store ?v)" using cr(1) by simp
    have present: "a_occs (abs (w_store ?v)) (joc_key ?oc) \<noteq> None" using occs(1) unfolding ok(5) by simp
    note fr = ExecuteJobOccurrence_frame [OF st(2) u inv' ok(1,2) ex, unfolded ok(5)]
    obtain t1 t2 t3 status where fin: "a_occs (abs (w_store w')) = (a_occs (abs s'))(occ_of E job t \<mapsto> storage_occ oc' t3)"
        "oc' = ?oc\<lparr>jo_StartTime := Some t1, jo_EndTime := Some t2, jo_Status := status\<rparr>"
        "status = JobStatusCompleted \<or> status = JobStatusFailed"
      using ExecuteJobOccurrence_finishes [OF st(2) u clk inv' ok(1,2,3) present ex]
      unfolding ok(5) by (cases er) auto
    have "recovered_record job (storage_occ oc' t3)"
      using fin(3) unfolding fin(2) by (simp add: recovered_record_def storage_occ_def recovery_occurrence_def)
    then have "recovered E job [t] (abs (w_store w)) (abs (w_store w'))"
      using cr(2) None fin(1) occs fr by (auto simp: recovered_def occ_frame_def)
    ultimately show ?thesis using fr by blast
  qed
qed

lemma recover_here:
  assumes "recovery_setup E S r job ts" "invar (w_store w)" "\<not> p_started p" "\<not> p_stopping p"
    "executions_return E (rh_executor r) sched job"
  shows "\<exists>w'. recover E sched r job label ts (w, p) = Some (w', p) \<and> invar (w_store w')
    \<and> recovered E job ts (abs (w_store w)) (abs (w_store w'))"
  using assms(1,2)
proof (induction ts arbitrary: w)
  case Nil
  then show ?case by (simp add: recovered_def)
next
  case (Cons t ts)
  obtain w1 where one: "scheduleRecoveryRun E sched r job t label (w, p) = Some (None, w1, p)" "invar (w_store w1)"
      "recovered E job [t] (abs (w_store w)) (abs (w_store w1))"
    using scheduleRecoveryRun_here [OF _ Cons.prems(2) assms(3-5)] Cons.prems(1) by (metis recovery_setup_Cons)
  have "recovery_setup E S r job ts" using Cons.prems(1) by (metis recovery_setup_Cons)
  from Cons.IH [OF this one(2)] show ?case using one(1) recovered_Cons [OF one(3)] by auto
qed

end

lemma queued_Nil: "queued E job [] a a []"
  by (simp add: queued_def)

lemma queued_skip:
  assumes "a_occs a (occ_of E job t) \<noteq> None" "queued E job ts a a' new"
  shows "queued E job (t # ts) a a' new"
  using assms by (auto simp: queued_def dom_def)

lemma queued_other: "queued E job ts a a' new \<Longrightarrow> k \<notin> set (map (joc_key \<circ> snd) new) \<Longrightarrow> a_occs a' k = a_occs a k"
  unfolding queued_def by blast

lemma queued_new:
  assumes none: "a_occs a (occ_of E job t) = None" and oc: "joc_key oc = occ_of E job t" "jo_IsRecoveryRun oc"
    and b: "b = a\<lparr>a_occs := (a_occs a)(occ_of E job t \<mapsto> recovery_record oc)\<rparr>" and q: "queued E job ts b a' new"
  shows "queued E job (t # ts) a a' ((job, oc) # new)"
proof -
  let ?K = "set (map (joc_key \<circ> snd) new)"
  have K: "?K = occ_of E job ` set ts - insert (occ_of E job t) (dom (a_occs a))"
    using q unfolding queued_def b by auto
  then have out: "occ_of E job t \<notin> ?K" by blast
  let ?N = "(job, oc) # new"
  have keys: "set (map (joc_key \<circ> snd) ?N) = insert (occ_of E job t) ?K" using oc(1) by simp
  have at_t: "a_occs a' (occ_of E job t) = Some (recovery_record oc)"
    using queued_other [OF q out] unfolding b by simp
  have 1: "a_jobs a' = a_jobs a" "a_tasks a' = a_tasks a" using q unfolding queued_def b by simp_all
  have "distinct (map (joc_key \<circ> snd) new)" using q unfolding queued_def by (elim conjE)
  then have 2: "distinct (map (joc_key \<circ> snd) ?N)" using out oc(1) by simp
  have 3: "set (map (joc_key \<circ> snd) ?N) = occ_of E job ` set (t # ts) - dom (a_occs a)"
    unfolding keys K using none by (auto simp: dom_def)
  have "\<forall>(j, oc) \<in> set new. j = job \<and> jo_IsRecoveryRun oc \<and> a_occs a' (joc_key oc) = Some (recovery_record oc)"
    using q unfolding queued_def by (elim conjE)
  then have 4: "\<forall>(j, oc) \<in> set ?N. j = job \<and> jo_IsRecoveryRun oc \<and> a_occs a' (joc_key oc) = Some (recovery_record oc)"
    using at_t oc by simp
  have 5: "\<forall>k. k \<notin> set (map (joc_key \<circ> snd) ?N) \<longrightarrow> a_occs a' k = a_occs a k"
  proof (intro allI impI)
    fix k assume k: "k \<notin> set (map (joc_key \<circ> snd) ?N)"
    then have "k \<noteq> occ_of E job t" "k \<notin> ?K" unfolding keys by blast+
    then show "a_occs a' k = a_occs a k" using queued_other [OF q, of k] unfolding b by simp
  qed
  show ?thesis unfolding queued_def using 1 2 3 4 5 by (intro conjI)
qed

context reliable_storage
begin

lemma scheduleRecoveryRun_queued:
  assumes set_up: "recovery_setup E S r job [t]" and inv: "invar (w_store w)" and p: "pool_takes (Suc n) p"
  obtains (new) w' p' oc where "scheduleRecoveryRun E sched r job t label (w, p) = Some (None, w', p')"
      "invar (w_store w')" "a_occs (abs (w_store w)) (occ_of E job t) = None" "joc_key oc = occ_of E job t"
      "jo_IsRecoveryRun oc" "abs (w_store w') = (abs (w_store w))\<lparr>a_occs :=
         (a_occs (abs (w_store w)))(occ_of E job t \<mapsto> recovery_record oc)\<rparr>"
      "p_taskQueue p' = p_taskQueue p @ [(job, oc)]" "pool_takes n p'"
  | (skip) w' where "scheduleRecoveryRun E sched r job t label (w, p) = Some (None, w', p)"
      "invar (w_store w')" "a_occs (abs (w_store w)) (occ_of E job t) \<noteq> None" "abs (w_store w') = abs (w_store w)"
proof -
  have st: "rh_store r = S" and u: "uuid_text (NewSHA1 E)" and clk: "clock_ok E"
    and j: "job_id_ok (j_ID job)" and y: "year_ok (instant t)" using set_up by (simp_all add: recovery_setup_def)
  let ?oc = "recovery_occurrence E job t (Now E (w_clock w)) (Now E (Suc (w_clock w)))"
  note ok = recovery_occurrence_ok [OF u j clk y, of "w_clock w" "Suc (w_clock w)"]
  obtain err s' where c: "CreateJobOccurrence S (w_store w) (recovery_record ?oc) = (err, s')"
    by (cases "CreateJobOccurrence S (w_store w) (recovery_record ?oc)")
  note cr = create_recovery [OF u j clk y inv c]
  let ?w = "w\<lparr>w_clock := Suc (Suc (w_clock w)), w_store := s'\<rparr>"
  show thesis
  proof (cases err)
    case (Some x)
    then have "scheduleRecoveryRun E sched r job t label (w, p) = Some (None, ?w, p)"
      using c st by (simp add: scheduleRecoveryRun_def time_Now_def Let_def)
    then show thesis using that(2) [of ?w] cr Some by (simp del: not_None_eq)
  next
    case None
    let ?v = "?w\<lparr>w_metrics := IncRecoveryRuns (rh_metrics r) (w_metrics w) (j_Name job) label\<rparr>"
    let ?p = "p\<lparr>p_callers := p_callers p @ [CallReturned],
      p_taskQueue := p_taskQueue p @ [(job, ?oc)], p_accepted := p_accepted p @ [(job, ?oc)]\<rparr>"
    have "Submit_alone p (job, ?oc) = Some (Queued ?p)" using p by (simp add: Submit_alone_def pool_takes_def)
    then have "scheduleRecoveryRun E sched r job t label (w, p) = Some (None, ?v, ?p)"
      using c st None by (simp add: scheduleRecoveryRun_def time_Now_def Let_def)
    moreover have "pool_takes n ?p" using p by (simp add: pool_takes_def queue_capacity_def)
    moreover have "jo_IsRecoveryRun ?oc" by (simp add: recovery_occurrence_def)
    ultimately show thesis using that(1) [of ?v ?p ?oc] cr None ok(5) by simp
  qed
qed

lemma recover_queued:
  assumes "recovery_setup E S r job ts" "invar (w_store w)" "pool_takes (length ts) p"
  shows "\<exists>w' p' new. recover E sched r job label ts (w, p) = Some (w', p') \<and> invar (w_store w')
    \<and> p_taskQueue p' = p_taskQueue p @ new \<and> queued E job ts (abs (w_store w)) (abs (w_store w')) new"
  using assms
proof (induction ts arbitrary: w p)
  case Nil
  then show ?case using queued_Nil by auto
next
  case (Cons t ts)
  have set_up: "recovery_setup E S r job [t]" "recovery_setup E S r job ts"
    using Cons.prems(1) by (metis recovery_setup_Cons)+
  have room: "pool_takes (Suc (length ts)) p" using Cons.prems(3) by simp
  from set_up(1) Cons.prems(2) room show ?case
  proof (cases rule: scheduleRecoveryRun_queued [where sched = sched and label = label])
    case (new w1 p1 oc)
    from Cons.IH [OF set_up(2) new(2,8)] obtain w' p' more where
      "recover E sched r job label ts (w1, p1) = Some (w', p')" "invar (w_store w')"
      "p_taskQueue p' = p_taskQueue p1 @ more" "queued E job ts (abs (w_store w1)) (abs (w_store w')) more" by blast
    then show ?thesis using new(1,7) queued_new [OF new(3-6)] by auto
  next
    case (skip w1)
    have "pool_takes (length ts) p" using room by (simp add: pool_takes_def)
    from Cons.IH [OF set_up(2) skip(2) this] skip show ?thesis using queued_skip [OF skip(3)] by auto
  qed
qed

end

subsection \<open>The strategies\<close>

lemma selected_subset: "set (selected_times cfg now missed) \<subseteq> set missed"
  by (auto simp: selected_times_def Let_def dest: in_set_dropD split: option.splits if_splits)

lemma selected_length: "length (selected_times cfg now missed) \<le> length missed"
  by (auto simp: selected_times_def Let_def intro: le_trans [OF diff_le_self length_filter_le] split: option.splits)

lemma selected_Nil [simp]: "selected_times cfg now [] = []"
  using selected_subset [of cfg now "[]"] by simp

lemma recovery_setup_subset: "recovery_setup E S r job ts \<Longrightarrow> set us \<subseteq> set ts \<Longrightarrow> recovery_setup E S r job us"
  by (auto simp: recovery_setup_def)

context reliable_storage
begin

lemma ApplyStrategy_here:
  assumes "recovery_setup E S r job missed" "invar (w_store w)" "\<not> p_started p" "\<not> p_stopping p"
    "executions_return E (rh_executor r) sched job"
  shows "\<exists>w'. ApplyStrategy E sched r job missed (w, p) = Some (None, w', p) \<and> invar (w_store w')
    \<and> recovered E job (selected_times (j_Config job) (Now E (w_clock w)) missed)
        (abs (w_store w)) (abs (w_store w'))"
proof (cases "missed = []")
  case True
  then show ?thesis using assms(2) by (simp add: ApplyStrategy_def recovered_def)
next
  case False
  let ?v = "if reads_clock (j_Config job) then w\<lparr>w_clock := Suc (w_clock w)\<rparr> else w"
  have v: "w_store ?v = w_store w" by simp
  note set_up = recovery_setup_subset [OF assms(1) selected_subset]
  from recover_here [OF set_up _ assms(3-5), of ?v] assms(2) ApplyStrategy_recover [OF False, of E sched r job w p]
  show ?thesis unfolding v by fastforce
qed

lemma ApplyStrategy_queued:
  assumes "recovery_setup E S r job missed" "invar (w_store w)" "pool_takes (length missed) p"
  shows "\<exists>w' p' new. ApplyStrategy E sched r job missed (w, p) = Some (None, w', p') \<and> invar (w_store w')
    \<and> p_taskQueue p' = p_taskQueue p @ new
    \<and> queued E job (selected_times (j_Config job) (Now E (w_clock w)) missed)
        (abs (w_store w)) (abs (w_store w')) new"
proof (cases "missed = []")
  case True
  then show ?thesis using assms(2) queued_Nil by (simp add: ApplyStrategy_def)
next
  case False
  let ?v = "if reads_clock (j_Config job) then w\<lparr>w_clock := Suc (w_clock w)\<rparr> else w"
  let ?sel = "selected_times (j_Config job) (Now E (w_clock w)) missed"
  have v: "w_store ?v = w_store w" by simp
  note set_up = recovery_setup_subset [OF assms(1) selected_subset]
  have "pool_takes (length ?sel) p"
    using assms(3) selected_length [of "j_Config job" "Now E (w_clock w)" missed] by (simp add: pool_takes_def)
  from recover_queued [OF set_up _ this, of ?v] assms(2) ApplyStrategy_recover [OF False, of E sched r job w p]
  show ?thesis unfolding v by fastforce
qed

end

subsection \<open>Properties\<close>

text \<open>
  C10. On a BadgerDB that does not fail and a pool that is not started (as when the scheduler starts),
  recovery runs exactly the missed occurrences its strategy selects: each selected occurrence that no
  node had recorded is created and run to its end on the spot, one that was recorded is left as it
  is, and no other occurrence, job or task is touched.
\<close>

theorem recovery_backfills:
  assumes "badger_db_reliable B contents" "recovery_setup E (BadgerStorage B) r job missed"
    "keys_ok (contents (w_store w))" "\<not> p_started p" "\<not> p_stopping p"
    "executions_return E (rh_executor r) sched job"
  shows "\<exists>w'. ApplyStrategy E sched r job missed (w, p) = Some (None, w', p) \<and> keys_ok (contents (w_store w'))
    \<and> recovered E job (selected_times (j_Config job) (Now E (w_clock w)) missed)
        (abs_of (contents (w_store w))) (abs_of (contents (w_store w')))"
  by (rule reliable_storage.ApplyStrategy_here
      [OF badger_db_reliable.implements_reliable_storage [OF assms(1)] assms(2-)])

text \<open>A recovery on the in-memory database, of two missed times of a job that executes them all.\<close>

definition sample_handler :: "(mem, unit) RecoveryHandler" where
  "sample_handler = NewRecoveryHandler mem_storage sample_executor"

definition sample_missed :: "gotime list" where
  "sample_missed = [\<lparr>instant = 0, loc = 0\<rparr>, \<lparr>instant = 60 * Second, loc = 0\<rparr>]"

abbreviation sample_recovery_job :: "unit Job" where
  "sample_recovery_job \<equiv> sample_job TaskExecutionModeSequential"

lemma sample_recovery_setup: "recovery_setup sample_env mem_storage sample_handler sample_recovery_job sample_missed"
proof -
  have "year_ok 0" "year_ok (60 * Second)" "job_id_ok ''job_1''" by code_simp+
  then show ?thesis using sample_env_ok
    by (simp add: recovery_setup_def sample_handler_def NewRecoveryHandler_def sample_executor_def NewExecutor_def
        sample_job_def sample_missed_def)
qed

lemma sample_executions_return: "executions_return E e sched sample_recovery_job"
  unfolding executions_return_def
  by (intro allI ExecuteJobOccurrence_returns) (simp_all add: sample_mode sample_tasks sample_max_retries)

lemma sample_selected: "selected_times (j_Config sample_recovery_job) now sample_missed = sample_missed"
  by (simp add: selected_times_def sample_job_def)

theorem recovery_backfills_witness:
  "\<exists>w'. ApplyStrategy sample_env (\<lambda>oc. []) sample_handler sample_recovery_job sample_missed
        (sample_world, NewWorkerPool 1) = Some (None, w', NewWorkerPool 1)
      \<and> recovered sample_env sample_recovery_job sample_missed
          (abs_of (map_of (w_store sample_world))) (abs_of (map_of (w_store w')))"
  using recovery_backfills [OF mem.badger_db_reliable_axioms sample_recovery_setup sample_store(1) _ _
      sample_executions_return, of "NewWorkerPool 1" "\<lambda>oc. []"]
  unfolding sample_selected by (auto simp: NewWorkerPool_def)

text \<open>
  On a started pool with room for them, recovery records and queues exactly the selected
  occurrences that no node had recorded, each once, and neither runs nor touches anything else.
\<close>

theorem recovery_queues:
  assumes "badger_db_reliable B contents" "recovery_setup E (BadgerStorage B) r job missed"
    "keys_ok (contents (w_store w))" "pool_takes (length missed) p"
  shows "\<exists>w' p' new. ApplyStrategy E sched r job missed (w, p) = Some (None, w', p')
    \<and> keys_ok (contents (w_store w')) \<and> p_taskQueue p' = p_taskQueue p @ new
    \<and> queued E job (selected_times (j_Config job) (Now E (w_clock w)) missed)
        (abs_of (contents (w_store w))) (abs_of (contents (w_store w'))) new"
  by (rule reliable_storage.ApplyStrategy_queued
      [OF badger_db_reliable.implements_reliable_storage [OF assms(1)] assms(2-)])

theorem recovery_queues_witness:
  "\<exists>w' p' new. ApplyStrategy sample_env (\<lambda>oc. []) sample_handler sample_recovery_job sample_missed
        (sample_world, Pool_Start (NewWorkerPool 1)) = Some (None, w', p')
      \<and> p_taskQueue p' = new
      \<and> queued sample_env sample_recovery_job sample_missed
          (abs_of (map_of (w_store sample_world))) (abs_of (map_of (w_store w'))) new"
proof -
  have "pool_takes (length sample_missed) (Pool_Start (NewWorkerPool 1) :: unit run WorkerPool)"
    by (simp add: pool_takes_def Pool_Start_def NewWorkerPool_def queue_capacity_def sample_missed_def)
  from recovery_queues [OF mem.badger_db_reliable_axioms sample_recovery_setup sample_store(1) this,
      of "\<lambda>oc. []"]
  show ?thesis unfolding sample_selected by (auto simp: Pool_Start_def NewWorkerPool_def)
qed

text \<open>
  C31. The bounded window keeps the latest missed occurrences. Of the times a ticker gives, the
  strategy recovers at most \<open>MaxOccurrences\<close>, none of them older than \<open>MaxDuration\<close> (for the limits that
  are positive), and it leaves out a time only if it is too old or if \<open>MaxOccurrences\<close> later ones are
  recovered.
\<close>

theorem bounded_window_latest:
  assumes tk: "ticker_wf tk" "Ticker_GetOccurrencesBetween tk a b = Inr missed"
    and strat: "jc_RecoveryStrategy (j_Config job) = RecoveryStrategyBoundedWindow"
      "jc_BoundedWindow (j_Config job) = Some win"
  shows "\<exists>chosen w'. ApplyStrategy E sched r job missed (w, p) = executeAll E sched r job chosen (w', p)
    \<and> set chosen \<subseteq> set missed
    \<and> (0 < MaxOccurrences win \<longrightarrow> int (length chosen) \<le> MaxOccurrences win)
    \<and> (0 < sint (MaxDuration win) \<longrightarrow> (\<forall>t \<in> set chosen. Now E (w_clock w) - sint (MaxDuration win) < instant t))
    \<and> (\<forall>t \<in> set missed - set chosen.
         0 < sint (MaxDuration win) \<and> instant t \<le> Now E (w_clock w) - sint (MaxDuration win)
         \<or> 0 < MaxOccurrences win \<and> int (length chosen) = MaxOccurrences win
           \<and> (\<forall>t' \<in> set chosen. instant t < instant t'))"
proof (cases "missed = []")
  case True
  then show ?thesis by (intro exI [of _ "[]"] exI [of _ w]) (simp add: ApplyStrategy_def)
next
  case False
  let ?now = "Now E (w_clock w)" and ?d = "sint (MaxDuration win)" and ?n = "MaxOccurrences win"
  define P where "P = (\<lambda>t :: gotime. 0 < ?d \<longrightarrow> ?now - ?d < instant t)"
  define recent where "recent = filter P missed"
  define k where "k = (if 0 < ?n then length recent - nat ?n else 0)"
  have chosen: "selected_times (j_Config job) ?now missed = drop k recent"
    using strat by (auto simp: selected_times_def Let_def recent_def P_def k_def)
  have run: "\<exists>w'. ApplyStrategy E sched r job missed (w, p) = executeAll E sched r job (drop k recent) (w', p)"
    using ApplyStrategy_recover [OF False, of E sched r job w p] strat(1)
    unfolding chosen by (auto simp: executeAll_recover)
  have late: "instant t < instant t'" if "t \<in> set (take k recent)" "t' \<in> set (drop k recent)" for t t'
    using ticker.suffix_latest [OF tk] that unfolding recent_def by blast
  have out: "\<not> P t \<or> t \<in> set (take k recent)" if "t \<in> set missed - set (drop k recent)" for t
  proof -
    have "set recent = set (take k recent) \<union> set (drop k recent)" by (metis append_take_drop_id set_append)
    then show ?thesis using that unfolding recent_def by auto
  qed
  have full: "0 < ?n \<and> int (length (drop k recent)) = ?n" if "t \<in> set (take k recent)" for t
  proof -
    have "0 < k" using that by (cases k) auto
    then show ?thesis by (auto simp: k_def split: if_splits)
  qed
  have "0 < ?d \<and> instant t \<le> ?now - ?d \<or> 0 < ?n \<and> int (length (drop k recent)) = ?n
      \<and> (\<forall>t' \<in> set (drop k recent). instant t < instant t')" if "t \<in> set missed - set (drop k recent)" for t
    using out [OF that] full late by (auto simp: P_def)
  moreover have "set (drop k recent) \<subseteq> set missed" "\<forall>t \<in> set (drop k recent). P t"
    by (auto simp: recent_def dest: in_set_dropD)
  moreover have "0 < ?n \<longrightarrow> int (length (drop k recent)) \<le> ?n" by (auto simp: k_def)
  ultimately show ?thesis using run unfolding P_def by blast
qed

definition sample_window_job :: "unit Job" where
  "sample_window_job = sample_recovery_job\<lparr>j_Config := (j_Config sample_recovery_job)
     \<lparr>jc_RecoveryStrategy := RecoveryStrategyBoundedWindow,
      jc_BoundedWindow := Some \<lparr>MaxOccurrences = 1, MaxDuration = 0\<rparr>\<rparr>\<rparr>"

theorem bounded_window_latest_witness:
  "\<exists>t missed. sample_once = Inr t
     \<and> Ticker_GetOccurrencesBetween (TOnce t) \<lparr>instant = 0, loc = 0\<rparr> \<lparr>instant = 10 * Second, loc = 0\<rparr> = Inr missed
     \<and> (\<exists>chosen w'. ApplyStrategy sample_env (\<lambda>oc. []) sample_handler sample_window_job missed (sample_world, NewWorkerPool 1)
          = executeAll sample_env (\<lambda>oc. []) sample_handler sample_window_job chosen (w', NewWorkerPool 1)
        \<and> int (length chosen) \<le> 1)"
proof -
  obtain t where "sample_once = Inr t" by (simp add: sample_once_def NewOnceTicker_def)
  moreover obtain missed where
    "Ticker_GetOccurrencesBetween (TOnce t) \<lparr>instant = 0, loc = 0\<rparr> \<lparr>instant = 10 * Second, loc = 0\<rparr> = Inr missed"
    by (cases "Ticker_GetOccurrencesBetween (TOnce t) \<lparr>instant = 0, loc = 0\<rparr> \<lparr>instant = 10 * Second, loc = 0\<rparr>")
      (auto simp: Once_GetOccurrencesBetween_def Let_def split: if_splits)
  ultimately have t: "sample_once = Inr t"
    "Ticker_GetOccurrencesBetween (TOnce t) \<lparr>instant = 0, loc = 0\<rparr> \<lparr>instant = 10 * Second, loc = 0\<rparr> = Inr missed" .
  have c: "jc_RecoveryStrategy (j_Config sample_window_job) = RecoveryStrategyBoundedWindow"
    "jc_BoundedWindow (j_Config sample_window_job) = Some \<lparr>MaxOccurrences = 1, MaxDuration = 0\<rparr>"
    by (simp_all add: sample_window_job_def)
  from bounded_window_latest [OF _ t(2) c, where E = sample_env and sched = "\<lambda>oc. []" and r = sample_handler
      and w = sample_world and p = "NewWorkerPool 1"]
  show ?thesis using t by fastforce
qed

end
