(* ===== verification/OccurrenceRewrite.thy ===== *)
theory OccurrenceRewrite
  imports ExecutionFrame
begin

text \<open>
  Loops that read a list of stored occurrences, change each and write it back: the reaper and the
  update manager have four of them. What such a loop leaves in the store, and the lemmas that carry
  the proofs about them.
\<close>

text \<open>Each occurrence under a key in \<open>K\<close> is replaced by one related to it, everything else is kept.\<close>

definition rewritten ::
  "(string \<times> string) set \<Rightarrow> (StoredOccurrence \<Rightarrow> StoredOccurrence \<Rightarrow> bool) \<Rightarrow> AStore \<Rightarrow> AStore \<Rightarrow> bool" where
  "rewritten K R a a' \<longleftrightarrow>
     a' = a\<lparr>a_occs := a_occs a'\<rparr>
     \<and> (\<forall>k. case a_occs a k of
          None \<Rightarrow> a_occs a' k = None
        | Some oc \<Rightarrow> if k \<in> K then \<exists>oc'. a_occs a' k = Some oc' \<and> R oc oc' else a_occs a' k = Some oc)"

lemma rewritten_none: "rewritten {} R a a"
  by (simp add: rewritten_def split: option.splits)

lemma rewritten_at:
  "rewritten K R a a' \<Longrightarrow> case a_occs a k of
     None \<Rightarrow> a_occs a' k = None
   | Some oc \<Rightarrow> if k \<in> K then \<exists>oc'. a_occs a' k = Some oc' \<and> R oc oc' else a_occs a' k = Some oc"
  unfolding rewritten_def by blast

lemma rewritten_insert:
  assumes at_k: "a_occs a k = Some oc" and R: "R oc oc'" and k: "k \<notin> K"
    and b: "b = a\<lparr>a_occs := (a_occs a)(k \<mapsto> oc')\<rparr>" and rest: "rewritten K R b c"
  shows "rewritten (insert k K) R a c"
proof -
  have "c = a\<lparr>a_occs := a_occs c\<rparr>" using rest unfolding rewritten_def b by simp
  moreover have "case a_occs a l of
      None \<Rightarrow> a_occs c l = None
    | Some o1 \<Rightarrow> if l \<in> insert k K then \<exists>o2. a_occs c l = Some o2 \<and> R o1 o2 else a_occs c l = Some o1" for l
  proof (cases "l = k")
    case True
    have "a_occs c k = Some oc'" using rewritten_at [OF rest, of k] k unfolding b by simp
    then show ?thesis using True at_k R by simp
  next
    case False
    then have "a_occs b l = a_occs a l" "l \<in> insert k K \<longleftrightarrow> l \<in> K" unfolding b by simp_all
    then show ?thesis using rewritten_at [OF rest, of l] by (simp split: option.splits)
  qed
  ultimately show ?thesis unfolding rewritten_def by blast
qed

lemma well_keyed_occ:
  assumes "well_keyed a" "a_occs a k = Some oc"
  shows "occ_key oc = k \<and> job_id_ok (so_JobID oc) \<and> occ_id_ok (so_ID oc) \<and> occ_times_ok oc"
proof -
  have "\<forall>k oc. a_occs a k = Some oc \<longrightarrow>
      occ_key oc = k \<and> job_id_ok (so_JobID oc) \<and> occ_id_ok (so_ID oc) \<and> occ_times_ok oc"
    using assms(1) unfolding well_keyed_def by (elim conjE)
  then show ?thesis using assms(2) by blast
qed

lemma well_keyed_task:
  assumes "well_keyed a" "a_tasks a k = Some t"
  shows "task_key t = k \<and> job_id_ok (st_JobID t) \<and> task_id_ok (st_ID t) \<and> task_times_ok t"
proof -
  have "\<forall>k t. a_tasks a k = Some t \<longrightarrow>
      task_key t = k \<and> job_id_ok (st_JobID t) \<and> task_id_ok (st_ID t) \<and> task_times_ok t"
    using assms(1) unfolding well_keyed_def by (elim conjE)
  then show ?thesis using assms(2) by blast
qed

lemma well_keyed_job:
  "well_keyed a \<Longrightarrow> a_jobs a i = Some j \<Longrightarrow> sj_ID j = i \<and> job_id_ok i \<and> job_times_ok j"
  unfolding well_keyed_def by blast

text \<open>A listed occurrence is stored under its own key, and different ones have different keys.\<close>

lemma listed_keys:
  assumes "well_keyed a" "set occs \<subseteq> ran (a_occs a)"
  shows "oc \<in> set occs \<Longrightarrow> a_occs a (occ_key oc) = Some oc" "distinct occs \<Longrightarrow> distinct (map occ_key occs)"
    "oc \<in> set occs \<Longrightarrow> job_id_ok (so_JobID oc) \<and> occ_id_ok (so_ID oc) \<and> occ_times_ok oc"
proof -
  have at_key: "a_occs a (occ_key oc) = Some oc \<and> job_id_ok (so_JobID oc) \<and> occ_id_ok (so_ID oc) \<and> occ_times_ok oc"
    if listed: "oc \<in> set occs" for oc
  proof -
    obtain k where "a_occs a k = Some oc" using assms(2) listed unfolding ran_def by blast
    then show ?thesis using well_keyed_occ [OF assms(1)] by blast
  qed
  then show "oc \<in> set occs \<Longrightarrow> a_occs a (occ_key oc) = Some oc"
    "oc \<in> set occs \<Longrightarrow> job_id_ok (so_JobID oc) \<and> occ_id_ok (so_ID oc) \<and> occ_times_ok oc" by blast+
  show "distinct occs \<Longrightarrow> distinct (map occ_key occs)"
    unfolding distinct_map inj_on_def using at_key by (metis option.inject)
qed

lemma listed_key_set:
  assumes "well_keyed a" "set occs = {v \<in> ran (a_occs a). P v}"
  shows "occ_key ` set occs = {k. \<exists>oc. a_occs a k = Some oc \<and> P oc}"
proof (intro equalityI subsetI)
  have sub: "set occs \<subseteq> ran (a_occs a)" using assms(2) by blast
  fix k assume "k \<in> occ_key ` set occs"
  then obtain oc where oc: "oc \<in> set occs" "k = occ_key oc" by blast
  then show "k \<in> {k. \<exists>oc. a_occs a k = Some oc \<and> P oc}"
    using listed_keys(1) [OF assms(1) sub oc(1)] assms(2) by blast
next
  fix k assume "k \<in> {k. \<exists>oc. a_occs a k = Some oc \<and> P oc}"
  then obtain oc where oc: "a_occs a k = Some oc" "P oc" by blast
  have "occ_key oc = k" using well_keyed_occ [OF assms(1) oc(1)] by blast
  moreover have "oc \<in> set occs" using oc assms(2) ranI [of "a_occs a"] by blast
  ultimately show "k \<in> occ_key ` set occs" by blast
qed

text \<open>The rest of a list of occurrences is still stored after the first was written back.\<close>

lemma rest_listed:
  assumes "well_keyed a" "set (oc # occs) \<subseteq> ran (a_occs a)" "distinct (oc # occs)"
    and "b = a\<lparr>a_occs := (a_occs a)(occ_key oc \<mapsto> oc')\<rparr>"
  shows "occ_key oc \<notin> occ_key ` set occs" "set occs \<subseteq> ran (a_occs b)"
proof -
  note keys = listed_keys [OF assms(1,2)]
  show out: "occ_key oc \<notin> occ_key ` set occs" using keys(2) assms(3) by auto
  show "set occs \<subseteq> ran (a_occs b)"
  proof
    fix x assume x: "x \<in> set occs"
    have "occ_key x \<noteq> occ_key oc"
    proof
      assume eq: "occ_key x = occ_key oc"
      have "occ_key oc \<in> occ_key ` set occs" unfolding eq [symmetric] using x by (rule imageI)
      then show False using out by contradiction
    qed
    moreover have "a_occs a (occ_key x) = Some x" using keys(1) x by simp
    ultimately have "a_occs b (occ_key x) = Some x" unfolding assms(4) by auto
    then show "x \<in> ran (a_occs b)" by (rule ranI)
  qed
qed

text \<open>Writing an occurrence back; the storage reads the clock for the time of the update.\<close>

definition write_back ::
  "Env \<Rightarrow> 's Storage \<Rightarrow> StoredOccurrence \<Rightarrow> ('s, 'm) World \<Rightarrow> error option \<times> ('s, 'm) World" where
  "write_back E S oc w =
     (let (now, w) = time_Now E w;
          (err, st) = UpdateJobOccurrence S (w_store w) now oc
      in (err, w\<lparr>w_store := st\<rparr>))"

context reliable_storage
begin

lemma write_back_ok:
  assumes inv: "invar (w_store w)" and clk: "clock_ok E"
    and ids: "job_id_ok (so_JobID oc)" "occ_id_ok (so_ID oc)"
    and times: "\<And>u. year_ok u \<Longrightarrow> occ_times_ok (oc\<lparr>so_UpdatedAt := u\<rparr>)"
    and ex: "a_occs (abs (w_store w)) (occ_key oc) \<noteq> None" and wr: "write_back E S oc w = (err, w')"
  shows "err = None" "invar (w_store w')"
    "abs (w_store w') = (abs (w_store w))\<lparr>a_occs := (a_occs (abs (w_store w)))
       (occ_key oc \<mapsto> oc\<lparr>so_UpdatedAt := Now E (w_clock w)\<rparr>)\<rparr>"
proof -
  let ?now = "Now E (w_clock w)"
  obtain r s' where c: "UpdateJobOccurrence S (w_store w) ?now oc = (r, s')"
    by (cases "UpdateJobOccurrence S (w_store w) ?now oc")
  have w': "err = r" "w_store w' = s'" using wr c by (auto simp: write_back_def time_Now_def)
  have "occ_times_ok (oc\<lparr>so_UpdatedAt := ?now\<rparr>)" using times clk by (simp add: clock_ok_def)
  then have none: "r = None" using UpdateJobOccurrence_ok [OF inv ids(1,2), of ?now] c ex by simp
  from UpdateJobOccurrence_law [OF inv ids(1,2) c] none
  have law: "invar s'" "abs s' = (abs (w_store w))\<lparr>a_occs := a_occs (abs s')\<rparr>"
    "a_occs (abs s') = (a_occs (abs (w_store w)))(occ_key oc \<mapsto> oc\<lparr>so_UpdatedAt := ?now\<rparr>)"
    by (auto simp: update_spec_def)
  show "err = None" "invar (w_store w')" using w' none law(1) by simp_all
  show "abs (w_store w') = (abs (w_store w))\<lparr>a_occs := (a_occs (abs (w_store w)))
       (occ_key oc \<mapsto> oc\<lparr>so_UpdatedAt := ?now\<rparr>)\<rparr>"
    unfolding w'(2) by (subst law(2), subst law(3)) (rule refl)
qed

end

subsection \<open>A store with one occurrence\<close>

definition one_store :: "StoredOccurrence \<Rightarrow> mem" where
  "one_store oc = snd (CreateJobOccurrence mem_storage [] oc)"

lemma one_store:
  assumes "job_id_ok (so_JobID oc)" "occ_id_ok (so_ID oc)" "occ_times_ok oc"
  shows "keys_ok (map_of (one_store oc))"
    "abs_of (map_of (one_store oc)) = (abs_of (map_of []))\<lparr>a_occs := [occ_key oc \<mapsto> oc]\<rparr>"
proof -
  obtain r s' where c: "CreateJobOccurrence mem_storage [] oc = (r, s')" by (cases "CreateJobOccurrence mem_storage [] oc")
  have s': "one_store oc = s'" using c by (simp add: one_store_def)
  have "r = None" using mem.CreateJobOccurrence_ok [OF empty_store(1) assms] c empty_store(2) by simp
  with mem.CreateJobOccurrence_law [OF empty_store(1) assms(1,2) c]
  have law: "keys_ok (map_of s')" "abs_of (map_of s') = (abs_of (map_of []))\<lparr>a_occs := a_occs (abs_of (map_of s'))\<rparr>"
    "a_occs (abs_of (map_of s')) = (a_occs (abs_of (map_of [])))(occ_key oc \<mapsto> oc)"
    by (auto simp: create_spec_def)
  have none: "a_occs (abs_of (map_of [])) = Map.empty" using empty_store(2) by (simp add: fun_eq_iff)
  show "keys_ok (map_of (one_store oc))" unfolding s' by (rule law(1))
  show "abs_of (map_of (one_store oc)) = (abs_of (map_of []))\<lparr>a_occs := [occ_key oc \<mapsto> oc]\<rparr>"
    unfolding s' by (subst law(2), subst law(3), subst none) (rule refl)
qed

definition one_world :: "StoredOccurrence \<Rightarrow> (mem, unit) World" where
  "one_world oc = sample_world\<lparr>w_store := one_store oc\<rparr>"

end
