(* ===== verification/Reaper.thy ===== *)
theory Reaper
  imports OccurrenceRewrite
begin

text \<open>
  The reaper of \<^verbatim>\<open>recovery/reaper.go\<close>: the scan for stale occurrences and the loop that repeats it. The
  loop is a state machine whose steps are the branches of its select; \<^verbatim>\<open>stopCh\<close>, which is only ever
  closed, is a flag, and so is the cancellation of the context. \<^verbatim>\<open>time.NewTicker\<close> panics on an interval
  that is not positive, and so does closing a closed channel: a panic sets \<open>rp_crashed\<close>.
\<close>

datatype reaper_pc = NotStarted | Selecting | ReaperReturned

record 's Reaper =
  rp_store :: "'s Storage"
  rp_interval :: duration
  rp_stopClosed :: bool
  rp_pc :: reaper_pc
  rp_crashed :: bool

definition NewReaper :: "'s Storage \<Rightarrow> duration \<Rightarrow> 's Reaper" where
  "NewReaper store interval =
     \<lparr>rp_store = store, rp_interval = (if interval = 0 then 5 * word_of_int Minute else interval),
      rp_stopClosed = False, rp_pc = NotStarted, rp_crashed = False\<rparr>"

text \<open>Starting the goroutine, which creates its ticker first.\<close>

definition Reaper_Start :: "'s Reaper \<Rightarrow> 's Reaper" where
  "Reaper_Start r =
     (if sint (rp_interval r) \<le> 0 then r\<lparr>rp_crashed := True\<rparr> else r\<lparr>rp_pc := Selecting\<rparr>)"

fun reapLoop :: "Env \<Rightarrow> 's Storage \<Rightarrow> StoredOccurrence list \<Rightarrow> ('s, 'm) World \<Rightarrow> ('s, 'm) World" where
  "reapLoop E store [] w = w"
| "reapLoop E store (occ # occs) w =
     (let (now, w) = time_Now E w;
          (err, w) = write_back E store
            (occ\<lparr>so_Status := JobStatusFailedStale, so_EndTime := Some now, so_UpdatedAt := now\<rparr>) w
      in reapLoop E store occs w)"

definition staleThreshold :: duration where
  "staleThreshold = word_of_int Hour"

definition reapStaleJobs :: "Env \<Rightarrow> 's Storage \<Rightarrow> ('s, 'm) World \<Rightarrow> ('s, 'm) World" where
  "reapStaleJobs E store w =
     (let (now, w) = time_Now E w
      in (case ListStaleOccurrences store (w_store w) now staleThreshold of
            Inl err \<Rightarrow> w
          | Inr staleOccurrences \<Rightarrow> reapLoop E store staleOccurrences w))"

datatype reaper_branch = CtxDone | ReaperStop | Tick

definition Reaper_run ::
  "Env \<Rightarrow> bool \<Rightarrow> reaper_branch \<Rightarrow> 's Reaper \<Rightarrow> ('s, 'm) World \<Rightarrow> ('s Reaper \<times> ('s, 'm) World) option" where
  "Reaper_run E ctxCanceled b r w =
     (if rp_pc r \<noteq> Selecting then None
      else (case b of
              CtxDone \<Rightarrow> if ctxCanceled then Some (r\<lparr>rp_pc := ReaperReturned\<rparr>, w) else None
            | ReaperStop \<Rightarrow> if rp_stopClosed r then Some (r\<lparr>rp_pc := ReaperReturned\<rparr>, w) else None
            | Tick \<Rightarrow> Some (r, reapStaleJobs E (rp_store r) w)))"

definition Reaper_Stop :: "'s Reaper \<Rightarrow> 's Reaper" where
  "Reaper_Stop r = (if rp_stopClosed r then r\<lparr>rp_crashed := True\<rparr> else r\<lparr>rp_stopClosed := True\<rparr>)"

subsection \<open>What a scan does\<close>

text \<open>The occurrence as the reaper leaves it.\<close>

definition reaped :: "StoredOccurrence \<Rightarrow> StoredOccurrence \<Rightarrow> bool" where
  "reaped oc oc' \<longleftrightarrow> (\<exists>t u. oc' = oc\<lparr>so_Status := JobStatusFailedStale, so_EndTime := Some t, so_UpdatedAt := u\<rparr>)"

context reliable_storage
begin

lemma reapLoop_rewrites:
  assumes "invar (w_store w)" "clock_ok E" "set occs \<subseteq> ran (a_occs (abs (w_store w)))" "distinct occs"
  shows "invar (w_store (reapLoop E S occs w))
    \<and> rewritten (occ_key ` set occs) reaped (abs (w_store w)) (abs (w_store (reapLoop E S occs w)))"
  using assms(1,3,4)
proof (induction occs arbitrary: w)
  case Nil
  then show ?case by (simp add: rewritten_none)
next
  case (Cons oc occs)
  let ?a = "abs (w_store w)" and ?now = "Now E (w_clock w)"
  let ?oc = "oc\<lparr>so_Status := JobStatusFailedStale, so_EndTime := Some ?now, so_UpdatedAt := ?now\<rparr>"
  let ?w = "w\<lparr>w_clock := Suc (w_clock w)\<rparr>"
  obtain err w1 where wr: "write_back E S ?oc ?w = (err, w1)" by (cases "write_back E S ?oc ?w")
  note keys = listed_keys [OF invar_keyed [OF Cons.prems(1)] Cons.prems(2)]
  have k: "a_occs ?a (occ_key oc) = Some oc" and ok: "job_id_ok (so_JobID oc)" "occ_id_ok (so_ID oc)" "occ_times_ok oc"
    using keys(1,3) [of oc] by simp_all
  have "occ_times_ok (?oc\<lparr>so_UpdatedAt := u\<rparr>)" if "year_ok u" for u
    using ok(3) that assms(2) by (simp add: occ_times_ok_def clock_ok_def opt_year_ok_def)
  note wb = write_back_ok [OF _ assms(2) _ _ this _ wr, simplified, OF Cons.prems(1) ok(1,2)]
  have w1: "invar (w_store w1)" "abs (w_store w1) = ?a\<lparr>a_occs := (a_occs ?a)(occ_key oc \<mapsto>
      ?oc\<lparr>so_UpdatedAt := Now E (Suc (w_clock w))\<rparr>)\<rparr>" using wb(2,3) k by simp_all
  note rest = rest_listed [OF invar_keyed [OF Cons.prems(1)] Cons.prems(2,3) w1(2)]
  have run: "reapLoop E S (oc # occs) w = reapLoop E S occs w1" using wr by (simp add: time_Now_def)
  have R: "reaped oc (?oc\<lparr>so_UpdatedAt := Now E (Suc (w_clock w))\<rparr>)" by (auto simp: reaped_def)
  from Cons.IH [OF w1(1) rest(2)] Cons.prems(3) rewritten_insert [where R = reaped and K = "occ_key ` set occs", OF k R rest(1) w1(2)]
  show ?case unfolding run by simp
qed

lemma reapStaleJobs_rewrites:
  assumes "invar (w_store w)" "clock_ok E"
  shows "invar (w_store (reapStaleJobs E S w))
    \<and> rewritten {k. \<exists>oc. a_occs (abs (w_store w)) k = Some oc \<and> stale (Now E (w_clock w)) staleThreshold oc}
        reaped (abs (w_store w)) (abs (w_store (reapStaleJobs E S w)))"
proof -
  let ?a = "abs (w_store w)" and ?now = "Now E (w_clock w)" and ?w = "w\<lparr>w_clock := Suc (w_clock w)\<rparr>"
  obtain occs where l: "ListStaleOccurrences S (w_store w) ?now staleThreshold = Inr occs"
    using ListStaleOccurrences_ok [OF assms(1)] by blast
  from ListStaleOccurrences_law [OF assms(1), of ?now staleThreshold] l
  have occs: "distinct occs" "set occs = {v \<in> ran (a_occs ?a). stale ?now staleThreshold v}"
    by (simp_all add: list_spec_def)
  then have sub: "set occs \<subseteq> ran (a_occs (abs (w_store ?w)))" by auto
  have "occ_key ` set occs = {k. \<exists>oc. a_occs ?a k = Some oc \<and> stale ?now staleThreshold oc}"
    by (rule listed_key_set [OF invar_keyed [OF assms(1)] occs(2)])
  moreover have "reapStaleJobs E S w = reapLoop E S occs ?w" using l by (simp add: reapStaleJobs_def time_Now_def)
  ultimately show ?thesis using reapLoop_rewrites [OF _ assms(2) sub occs(1)] assms(1) by simp
qed

end

subsection \<open>Properties\<close>

text \<open>
  C32. One scan of the reaper on a BadgerDB that does not fail marks exactly the stale occurrences: an
  occurrence that is running and was started more than an hour before the scan becomes
  Failed_Stale with an end time, with all its other fields kept, and nothing else in the store
  changes.
\<close>

theorem reaper_marks_stale:
  assumes "badger_db_reliable B contents" "keys_ok (contents (w_store w))" "clock_ok E"
  shows "keys_ok (contents (w_store (reapStaleJobs E (BadgerStorage B) w)))
    \<and> rewritten {k. \<exists>oc. a_occs (abs_of (contents (w_store w))) k = Some oc \<and> so_Status oc = JobStatusRunning
          \<and> (\<exists>t. so_StartTime oc = Some t \<and> t < Now E (w_clock w) - Hour)}
        reaped (abs_of (contents (w_store w))) (abs_of (contents (w_store (reapStaleJobs E (BadgerStorage B) w))))"
proof -
  have thr: "stale now staleThreshold oc \<longleftrightarrow> so_Status oc = JobStatusRunning
      \<and> (\<exists>t. so_StartTime oc = Some t \<and> t < now - Hour)" for now oc
    by (auto simp: stale_def staleThreshold_def add_dur_def split: option.splits)
  show ?thesis
    using reliable_storage.reapStaleJobs_rewrites
      [OF badger_db_reliable.implements_reliable_storage [OF assms(1)] assms(2,3)] unfolding thr .
qed

definition sample_stale :: StoredOccurrence where
  "sample_stale = (sample_occ ''a'')\<lparr>so_Status := JobStatusRunning, so_StartTime := Some (- 2 * Hour)\<rparr>"

theorem reaper_marks_stale_witness:
  "\<exists>oc'. a_occs (abs_of (map_of (w_store (reapStaleJobs sample_env mem_storage (one_world sample_stale)))))
           (occ_key sample_stale) = Some oc' \<and> so_Status oc' = JobStatusFailedStale"
proof -
  have "year_ok (- 2 * Hour)" by code_simp
  then have ok: "job_id_ok (so_JobID sample_stale)" "occ_id_ok (so_ID sample_stale)" "occ_times_ok sample_stale"
    using sample_occ_ok(1,2,3) [of "''a''"] by (simp_all add: sample_stale_def occ_times_ok_def opt_year_ok_def)
  note st = one_store [OF ok]
  have w: "w_store (one_world sample_stale) = one_store sample_stale" "w_clock (one_world sample_stale) = 0"
    by (simp_all add: one_world_def sample_world_def)
  have now: "Now sample_env 0 = 0" by (simp add: sample_env_def)
  from reaper_marks_stale [OF mem.badger_db_reliable_axioms, of "one_world sample_stale" sample_env] st(1) sample_env_ok(2)
  have "rewritten {k. \<exists>oc. a_occs (abs_of (map_of (one_store sample_stale))) k = Some oc \<and> so_Status oc = JobStatusRunning
          \<and> (\<exists>t. so_StartTime oc = Some t \<and> t < 0 - Hour)} reaped (abs_of (map_of (one_store sample_stale)))
        (abs_of (map_of (w_store (reapStaleJobs sample_env mem_storage (one_world sample_stale)))))"
    unfolding w now by blast
  from rewritten_at [OF this, of "occ_key sample_stale"] show ?thesis
    unfolding st(2) by (auto simp: reaped_def sample_stale_def)
qed

end
