(* ===== verification/Update.thy ===== *)
theory Update
  imports OccurrenceRewrite TickerInterface
begin

text \<open>
  The update manager of \<^verbatim>\<open>update/update.go\<close>: a versioned update of a stored job, its tasks and its
  pending occurrences, and the difference of two schedules. The ticker of an update is of an
  arbitrary type: only whether there is one matters here. Versions are \<^verbatim>\<open>int64\<close> and wrap. The storage
  returns no record without an error or a value, so the tests for a nil record have no branch.
\<close>

record 'tk JobUpdate =
  u_JobID :: string
  u_ExpectedVersion :: int
  u_NewConfig :: "JobConfig option"
  u_NewTicker :: "'tk option"
  u_AddedTasks :: "Task list"
  u_RemovedTaskIDs :: "string list"
  u_UpdatedTasks :: "Task list"
  u_Policy :: UpdatePolicy

record 's UpdateManager =
  um_store :: "'s Storage"

definition NewUpdateManager :: "'s Storage \<Rightarrow> 's UpdateManager" where
  "NewUpdateManager store = \<lparr>um_store = store\<rparr>"

definition serializeConfig :: "JobConfig \<Rightarrow> blob option" where
  "serializeConfig cfg = Some EmptyBytes"

definition serializeTaskConfig :: "TaskConfig \<Rightarrow> blob option" where
  "serializeTaskConfig cfg = Some EmptyBytes"

definition next_version :: "int \<Rightarrow> int" where
  "next_version v = sint (word_of_int (v + 1) :: 64 word)"

subsection \<open>Canceling pending occurrences\<close>

text \<open>The loop of the three policies: every listed occurrence that meets the condition is canceled.\<close>

fun cancelLoop ::
  "Env \<Rightarrow> 's Storage \<Rightarrow> (StoredOccurrence \<Rightarrow> bool) \<Rightarrow> StoredOccurrence list \<Rightarrow> ('s, 'm) World
   \<Rightarrow> error option \<times> ('s, 'm) World"
where
  "cancelLoop E store cond [] w = (None, w)"
| "cancelLoop E store cond (occ # occs) w =
     (if cond occ
      then (let (now, w) = time_Now E w;
                (err, w) = write_back E store (occ\<lparr>so_Status := JobStatusCanceled, so_UpdatedAt := now\<rparr>) w
            in (case err of Some e \<Rightarrow> (Some e, w) | None \<Rightarrow> cancelLoop E store cond occs w))
      else cancelLoop E store cond occs w)"

definition applyImmediateUpdate ::
  "Env \<Rightarrow> 's UpdateManager \<Rightarrow> StoredJob \<Rightarrow> instant \<Rightarrow> ('s, 'm) World \<Rightarrow> error option \<times> ('s, 'm) World"
where
  "applyImmediateUpdate E m job now w =
     (case ListPendingOccurrences (um_store m) (w_store w) (sj_ID job) of
        Inl err \<Rightarrow> (Some err, w)
      | Inr occurrences \<Rightarrow> cancelLoop E (um_store m) (\<lambda>occ. now < so_ScheduledTime occ) occurrences w)"

text \<open>The earliest pending occurrence after now; the first of equal ones.\<close>

fun nextOccurrence :: "instant \<Rightarrow> StoredOccurrence list \<Rightarrow> StoredOccurrence option \<Rightarrow> StoredOccurrence option" where
  "nextOccurrence now [] best = best"
| "nextOccurrence now (occ # occs) best =
     nextOccurrence now occs
       (if now < so_ScheduledTime occ
           \<and> (case best of None \<Rightarrow> True | Some b \<Rightarrow> so_ScheduledTime occ < so_ScheduledTime b)
        then Some occ else best)"

definition applyGracefulUpdate ::
  "Env \<Rightarrow> 's UpdateManager \<Rightarrow> StoredJob \<Rightarrow> instant \<Rightarrow> ('s, 'm) World \<Rightarrow> error option \<times> ('s, 'm) World"
where
  "applyGracefulUpdate E m job now w =
     (case ListPendingOccurrences (um_store m) (w_store w) (sj_ID job) of
        Inl err \<Rightarrow> (Some err, w)
      | Inr occurrences \<Rightarrow>
          (case nextOccurrence now occurrences None of
             Some nxt \<Rightarrow>
               cancelLoop E (um_store m) (\<lambda>occ. so_ScheduledTime nxt < so_ScheduledTime occ) occurrences w
           | None \<Rightarrow> applyImmediateUpdate E m job now w))"

definition updateWindow :: duration where
  "updateWindow = 7 * 24 * word_of_int Hour"

definition applyWindowedUpdate ::
  "Env \<Rightarrow> 's UpdateManager \<Rightarrow> StoredJob \<Rightarrow> instant \<Rightarrow> ('s, 'm) World \<Rightarrow> error option \<times> ('s, 'm) World"
where
  "applyWindowedUpdate E m job now w =
     (let windowEnd = add_dur now updateWindow
      in (case ListPendingOccurrences (um_store m) (w_store w) (sj_ID job) of
            Inl err \<Rightarrow> (Some err, w)
          | Inr occurrences \<Rightarrow>
              cancelLoop E (um_store m)
                (\<lambda>occ. now < so_ScheduledTime occ \<and> so_ScheduledTime occ < windowEnd) occurrences w))"

definition applyScheduleUpdate ::
  "Env \<Rightarrow> 's UpdateManager \<Rightarrow> StoredJob \<Rightarrow> 'tk JobUpdate \<Rightarrow> ('s, 'm) World \<Rightarrow> error option \<times> ('s, 'm) World"
where
  "applyScheduleUpdate E m job update w =
     (let (now, w) = time_Now E w; policy = u_Policy update
      in if policy = UpdatePolicyImmediate then applyImmediateUpdate E m job now w
         else if policy = UpdatePolicyGraceful then applyGracefulUpdate E m job now w
         else if policy = UpdatePolicyWindowed then applyWindowedUpdate E m job now w
         else applyImmediateUpdate E m job now w)"

subsection \<open>The tasks\<close>

fun addTasks ::
  "Env \<Rightarrow> 's Storage \<Rightarrow> string \<Rightarrow> Task list \<Rightarrow> ('s, 'm) World \<Rightarrow> error option \<times> ('s, 'm) World"
where
  "addTasks E store jobID [] w = (None, w)"
| "addTasks E store jobID (task # tasks) w =
     (let (createdAt, w) = time_Now E w;
          (updatedAt, w) = time_Now E w;
          (err, st) = CreateTask store (w_store w)
            \<lparr>st_ID = t_ID task, st_JobID = jobID, st_Name = t_Name task,
             st_Config = serializeTaskConfig (t_Config task), st_Order = t_Order task,
             st_CreatedAt = createdAt, st_UpdatedAt = updatedAt\<rparr>;
          w = w\<lparr>w_store := st\<rparr>
      in (case err of
            Some e \<Rightarrow> (Some (ErrWrap (''failed to add task '' @ t_ID task) e), w)
          | None \<Rightarrow> addTasks E store jobID tasks w))"

fun removeTasks :: "'s Storage \<Rightarrow> string list \<Rightarrow> ('s, 'm) World \<Rightarrow> error option \<times> ('s, 'm) World" where
  "removeTasks store [] w = (None, w)"
| "removeTasks store (taskID # taskIDs) w =
     (let (err, st) = DeleteTask store (w_store w) taskID;
          w = w\<lparr>w_store := st\<rparr>
      in (case err of
            Some e \<Rightarrow> (Some (ErrWrap (''failed to remove task '' @ taskID) e), w)
          | None \<Rightarrow> removeTasks store taskIDs w))"

fun updateTasks :: "Env \<Rightarrow> 's Storage \<Rightarrow> Task list \<Rightarrow> ('s, 'm) World \<Rightarrow> error option \<times> ('s, 'm) World" where
  "updateTasks E store [] w = (None, w)"
| "updateTasks E store (task # tasks) w =
     (case GetTask store (w_store w) (t_ID task) of
        Inl e \<Rightarrow> (Some (ErrWrap (''failed to get task '' @ t_ID task) e), w)
      | Inr storageTask \<Rightarrow>
          (let (updatedAt, w) = time_Now E w;
               (now, w) = time_Now E w;
               (err, st) = UpdateTask store (w_store w) now
                 (storageTask\<lparr>st_Name := t_Name task, st_Config := serializeTaskConfig (t_Config task),
                              st_Order := t_Order task, st_UpdatedAt := updatedAt\<rparr>);
               w = w\<lparr>w_store := st\<rparr>
           in (case err of
                 Some e \<Rightarrow> (Some (ErrWrap (''failed to update task '' @ t_ID task) e), w)
               | None \<Rightarrow> updateTasks E store tasks w)))"

subsection \<open>The update\<close>

text \<open>Each part runs if the parts before it returned no error.\<close>

definition andThen ::
  "error option \<times> ('s, 'm) World \<Rightarrow> (('s, 'm) World \<Rightarrow> error option \<times> ('s, 'm) World)
   \<Rightarrow> error option \<times> ('s, 'm) World"
where
  "andThen r f = (case r of (Some e, w) \<Rightarrow> (Some e, w) | (None, w) \<Rightarrow> f w)"

definition wrapError :: "string \<Rightarrow> error option \<times> ('s, 'm) World \<Rightarrow> error option \<times> ('s, 'm) World" where
  "wrapError msg r = (map_option (ErrWrap msg) (fst r), snd r)"

definition updateJobRecord ::
  "Env \<Rightarrow> 's Storage \<Rightarrow> StoredJob \<Rightarrow> ('s, 'm) World \<Rightarrow> error option \<times> ('s, 'm) World" where
  "updateJobRecord E store job w =
     (let (now, w) = time_Now E w;
          (err, st) = StorageInterface.UpdateJob store (w_store w) now job
      in (err, w\<lparr>w_store := st\<rparr>))"

definition applyUpdateTransaction ::
  "Env \<Rightarrow> 's UpdateManager \<Rightarrow> StoredJob \<Rightarrow> 'tk JobUpdate \<Rightarrow> ('s, 'm) World \<Rightarrow> error option \<times> ('s, 'm) World"
where
  "applyUpdateTransaction E m currentJob update w =
     andThen (wrapError ''failed to update job'' (updateJobRecord E (um_store m) currentJob w)) (\<lambda>w.
     andThen (addTasks E (um_store m) (u_JobID update) (u_AddedTasks update) w) (\<lambda>w.
     andThen (removeTasks (um_store m) (u_RemovedTaskIDs update) w) (\<lambda>w.
     andThen (updateTasks E (um_store m) (u_UpdatedTasks update) w) (\<lambda>w.
       (case u_NewTicker update of
          None \<Rightarrow> (None, w)
        | Some tk \<Rightarrow>
            wrapError ''failed to apply schedule update'' (applyScheduleUpdate E m currentJob update w))))))"

definition ApplyUpdate ::
  "Env \<Rightarrow> 's UpdateManager \<Rightarrow> 'tk JobUpdate \<Rightarrow> ('s, 'm) World \<Rightarrow> error option \<times> ('s, 'm) World"
where
  "ApplyUpdate E m update w =
     (case GetJob (um_store m) (w_store w) (u_JobID update) of
        Inl err \<Rightarrow> (Some (ErrWrap ''failed to load current job'' err), w)
      | Inr currentJob \<Rightarrow>
          if sj_Version currentJob \<noteq> u_ExpectedVersion update
          then (Some (ErrVersionMismatch (u_ExpectedVersion update) (sj_Version currentJob)), w)
          else (let currentJob = (case u_NewConfig update of
                      None \<Rightarrow> currentJob
                    | Some cfg \<Rightarrow> currentJob\<lparr>sj_Config := serializeConfig cfg\<rparr>);
                    (now, w) = time_Now E w
                in applyUpdateTransaction E m
                     (currentJob\<lparr>sj_Version := next_version (sj_Version currentJob), sj_UpdatedAt := now\<rparr>)
                     update w))"

subsection \<open>The difference of two schedules\<close>

definition DiffSchedules :: "Ticker \<Rightarrow> Ticker \<Rightarrow> gotime \<Rightarrow> gotime \<Rightarrow> (gotime list \<times> gotime list) result" where
  "DiffSchedules oldTicker newTicker start end' =
     (case Ticker_GetOccurrencesBetween oldTicker start end' of
        Inl err \<Rightarrow> Inl (ErrWrap ''failed to get old occurrences'' err)
      | Inr oldTimes \<Rightarrow>
          (case Ticker_GetOccurrencesBetween newTicker start end' of
             Inl err \<Rightarrow> Inl (ErrWrap ''failed to get new occurrences'' err)
           | Inr newTimes \<Rightarrow>
               (let oldMap = set oldTimes; newMap = set newTimes
                in Inr (filter (\<lambda>t. t \<notin> oldMap) newTimes, filter (\<lambda>t. t \<notin> newMap) oldTimes))))"

subsection \<open>What an update may touch\<close>

text \<open>On any store, also one that fails: only tasks, or only occurrences of one job.\<close>

definition tasks_frame :: "AStore \<Rightarrow> AStore \<Rightarrow> bool" where
  "tasks_frame a a' \<longleftrightarrow> a' = a\<lparr>a_tasks := a_tasks a'\<rparr>"

definition occs_frame :: "string \<Rightarrow> AStore \<Rightarrow> AStore \<Rightarrow> bool" where
  "occs_frame j a a' \<longleftrightarrow> a' = a\<lparr>a_occs := a_occs a'\<rparr> \<and> (\<forall>k. fst k \<noteq> j \<longrightarrow> a_occs a' k = a_occs a k)"

lemma tasks_frame_refl [simp]: "tasks_frame a a"
  by (simp add: tasks_frame_def)

lemma tasks_frame_trans: "tasks_frame a b \<Longrightarrow> tasks_frame b c \<Longrightarrow> tasks_frame a c"
  unfolding tasks_frame_def by (metis AStore.surjective AStore.update_convs(2))

lemma occs_frame_refl [simp]: "occs_frame j a a"
  by (simp add: occs_frame_def)

lemma occs_frame_trans: "occs_frame j a b \<Longrightarrow> occs_frame j b c \<Longrightarrow> occs_frame j a c"
  unfolding occs_frame_def by (metis (no_types, lifting) AStore.surjective AStore.update_convs(3))

context storage
begin

lemma addTasks_frame:
  assumes "job_id_ok jobID" "\<forall>t \<in> set tasks. task_id_ok (t_ID t)" "invar (w_store w)"
    "addTasks E S jobID tasks w = (r, w')"
  shows "invar (w_store w') \<and> tasks_frame (abs (w_store w)) (abs (w_store w'))"
  using assms(2-)
proof (induction tasks arbitrary: w)
  case (Cons task tasks)
  let ?t = "\<lparr>st_ID = t_ID task, st_JobID = jobID, st_Name = t_Name task,
             st_Config = serializeTaskConfig (t_Config task), st_Order = t_Order task,
             st_CreatedAt = Now E (w_clock w), st_UpdatedAt = Now E (Suc (w_clock w))\<rparr>"
  obtain err s' where c: "CreateTask S (w_store w) ?t = (err, s')" by (cases "CreateTask S (w_store w) ?t")
  from CreateTask_law [OF Cons.prems(2) _ _ c] assms(1) Cons.prems(1)
  have law: "invar s'" "tasks_frame (abs (w_store w)) (abs s')" by (auto simp: tasks_frame_def)
  show ?case
  proof (cases err)
    case None
    then have "addTasks E S jobID tasks (w\<lparr>w_clock := Suc (Suc (w_clock w)), w_store := s'\<rparr>) = (r, w')"
      using Cons.prems(3) c by (simp add: time_Now_def)
    from Cons.IH [OF _ _ this] Cons.prems(1) law show ?thesis using tasks_frame_trans by auto
  next
    case (Some e)
    then show ?thesis using Cons.prems(3) c law by (auto simp: time_Now_def)
  qed
qed auto

lemma removeTasks_frame:
  assumes "\<forall>i \<in> set ids. task_id_ok i" "invar (w_store w)" "removeTasks S ids w = (r, w')"
  shows "invar (w_store w') \<and> tasks_frame (abs (w_store w)) (abs (w_store w'))"
  using assms
proof (induction ids arbitrary: w)
  case (Cons i ids)
  obtain err s' where c: "DeleteTask S (w_store w) i = (err, s')" by (cases "DeleteTask S (w_store w) i")
  from DeleteTask_law [OF Cons.prems(2) _ c] Cons.prems(1)
  have law: "invar s'" "tasks_frame (abs (w_store w)) (abs s')" by (auto simp: tasks_frame_def)
  show ?case
  proof (cases err)
    case None
    then have "removeTasks S ids (w\<lparr>w_store := s'\<rparr>) = (r, w')" using Cons.prems(3) c by simp
    from Cons.IH [OF _ _ this] Cons.prems(1) law show ?thesis using tasks_frame_trans by auto
  next
    case (Some e)
    then show ?thesis using Cons.prems(3) c law by auto
  qed
qed auto

lemma updateTasks_frame:
  assumes "\<forall>t \<in> set tasks. task_id_ok (t_ID t)" "invar (w_store w)" "updateTasks E S tasks w = (r, w')"
  shows "invar (w_store w') \<and> tasks_frame (abs (w_store w)) (abs (w_store w'))"
  using assms
proof (induction tasks arbitrary: w)
  case (Cons task tasks)
  show ?case
  proof (cases "GetTask S (w_store w) (t_ID task)")
    case (Inl e)
    then show ?thesis using Cons.prems by auto
  next
    case (Inr tk)
    let ?t = "tk\<lparr>st_Name := t_Name task, st_Config := serializeTaskConfig (t_Config task),
                 st_Order := t_Order task, st_UpdatedAt := Now E (w_clock w)\<rparr>"
    have "task_id_ok (t_ID task)" using Cons.prems(1) by simp
    from GetTask_law [OF Cons.prems(2) this] Inr obtain j where
      "a_tasks (abs (w_store w)) (j, t_ID task) = Some tk" by (auto simp: find_spec_def)
    then have ids: "job_id_ok (st_JobID ?t)" "task_id_ok (st_ID ?t)"
      using well_keyed_task [OF invar_keyed [OF Cons.prems(2)]] by fastforce+
    obtain err s' where c: "UpdateTask S (w_store w) (Now E (Suc (w_clock w))) ?t = (err, s')"
      by (cases "UpdateTask S (w_store w) (Now E (Suc (w_clock w))) ?t")
    from UpdateTask_law [OF Cons.prems(2) ids c]
    have law: "invar s'" "tasks_frame (abs (w_store w)) (abs s')" by (auto simp: tasks_frame_def)
    show ?thesis
    proof (cases err)
      case None
      then have "updateTasks E S tasks (w\<lparr>w_clock := Suc (Suc (w_clock w)), w_store := s'\<rparr>) = (r, w')"
        using Cons.prems(3) Inr c by (simp add: time_Now_def)
      from Cons.IH [OF _ _ this] Cons.prems(1) law show ?thesis using tasks_frame_trans by auto
    next
      case (Some e)
      then show ?thesis using Cons.prems(3) Inr c law by (auto simp: time_Now_def)
    qed
  qed
qed auto

lemma write_back_frame:
  assumes "invar (w_store w)" "job_id_ok (so_JobID oc)" "occ_id_ok (so_ID oc)" "write_back E S oc w = (r, w')"
  shows "invar (w_store w') \<and> occs_frame (so_JobID oc) (abs (w_store w)) (abs (w_store w'))"
proof -
  obtain err s' where c: "UpdateJobOccurrence S (w_store w) (Now E (w_clock w)) oc = (err, s')"
    by (cases "UpdateJobOccurrence S (w_store w) (Now E (w_clock w)) oc")
  have w': "w_store w' = s'" using assms(4) c by (auto simp: write_back_def time_Now_def)
  from UpdateJobOccurrence_law [OF assms(1-3) c]
  have law: "invar s'" "abs s' = (abs (w_store w))\<lparr>a_occs := a_occs (abs s')\<rparr>"
    "update_spec (a_occs (abs (w_store w))) (occ_key oc) (oc\<lparr>so_UpdatedAt := Now E (w_clock w)\<rparr>)
       (ErrOccurrenceNotFound (so_ID oc)) err (a_occs (abs s'))" by auto
  have "a_occs (abs s') k = a_occs (abs (w_store w)) k" if "fst k \<noteq> so_JobID oc" for k
    using law(3) that by (cases k) (auto simp: update_spec_def split: option.splits)
  then show ?thesis using law(1,2) unfolding w' occs_frame_def by blast
qed

lemma cancelLoop_frame:
  assumes "\<forall>oc \<in> set occs. so_JobID oc = j \<and> occ_id_ok (so_ID oc)" "job_id_ok j" "invar (w_store w)"
    "cancelLoop E S cond occs w = (r, w')"
  shows "invar (w_store w') \<and> occs_frame j (abs (w_store w)) (abs (w_store w'))"
  using assms(1,3,4)
proof (induction occs arbitrary: w)
  case (Cons oc occs)
  show ?case
  proof (cases "cond oc")
    case False
    then show ?thesis using Cons by simp
  next
    case True
    let ?w = "w\<lparr>w_clock := Suc (w_clock w)\<rparr>"
    let ?oc = "oc\<lparr>so_Status := JobStatusCanceled, so_UpdatedAt := Now E (w_clock w)\<rparr>"
    obtain err w1 where wr: "write_back E S ?oc ?w = (err, w1)" by (cases "write_back E S ?oc ?w")
    have ids: "so_JobID oc = j" "occ_id_ok (so_ID oc)" using Cons.prems(1) by simp_all
    have "invar (w_store w1) \<and> occs_frame (so_JobID ?oc) (abs (w_store ?w)) (abs (w_store w1))"
      by (rule write_back_frame [OF _ _ _ wr]) (simp_all add: ids assms(2) Cons.prems(2))
    then have one: "invar (w_store w1)" "occs_frame j (abs (w_store w)) (abs (w_store w1))" by (simp_all add: ids)
    show ?thesis
    proof (cases err)
      case None
      then have "cancelLoop E S cond occs w1 = (r, w')" using True Cons.prems(3) wr by (simp add: time_Now_def)
      from Cons.IH [OF _ one(1) this] Cons.prems(1) show ?thesis using occs_frame_trans one(2) by auto
    next
      case (Some e)
      then show ?thesis using True Cons.prems(3) wr one by (simp add: time_Now_def)
    qed
  qed
qed auto

end

context storage
begin

lemma pending_listed:
  assumes "invar s" "job_id_ok j" "ListPendingOccurrences S s j = Inr occs"
  shows "distinct occs" "set occs = {oc \<in> ran (a_occs (abs s)). so_JobID oc = j \<and> so_Status oc = JobStatusPending}"
    "\<forall>oc \<in> set occs. so_JobID oc = j \<and> occ_id_ok (so_ID oc)"
proof -
  show occs: "distinct occs" "set occs = {oc \<in> ran (a_occs (abs s)). so_JobID oc = j \<and> so_Status oc = JobStatusPending}"
    using ListPendingOccurrences_law [OF assms(1,2)] assms(3) by (simp_all add: list_spec_def)
  have "set occs \<subseteq> ran (a_occs (abs s))" using occs(2) by blast
  from listed_keys(3) [OF invar_keyed [OF assms(1)] this]
  show "\<forall>oc \<in> set occs. so_JobID oc = j \<and> occ_id_ok (so_ID oc)" using occs(2) by blast
qed

lemma immediate_frame:
  assumes "um_store m = S" "job_id_ok (sj_ID job)" "invar (w_store w)" "applyImmediateUpdate E m job now w = (r, w')"
  shows "invar (w_store w') \<and> occs_frame (sj_ID job) (abs (w_store w)) (abs (w_store w'))"
proof (cases "ListPendingOccurrences S (w_store w) (sj_ID job)")
  case (Inl e)
  then show ?thesis using assms by (simp add: applyImmediateUpdate_def)
next
  case (Inr occs)
  then show ?thesis
    using cancelLoop_frame [OF pending_listed(3) [OF assms(3,2) Inr] assms(2,3)] assms(1,4)
    by (simp add: applyImmediateUpdate_def)
qed

lemma applyScheduleUpdate_frame:
  assumes "um_store m = S" "job_id_ok (sj_ID job)" "invar (w_store w)" "applyScheduleUpdate E m job u w = (r, w')"
  shows "invar (w_store w') \<and> occs_frame (sj_ID job) (abs (w_store w)) (abs (w_store w'))"
proof -
  let ?w = "w\<lparr>w_clock := Suc (w_clock w)\<rparr>" and ?now = "Now E (w_clock w)"
  note imm = immediate_frame [OF assms(1,2), of ?w E ?now r w', simplified, OF assms(3)]
  have loop: "invar (w_store w') \<and> occs_frame (sj_ID job) (abs (w_store w)) (abs (w_store w'))"
    if "ListPendingOccurrences S (w_store w) (sj_ID job) = Inr occs" "cancelLoop E S cond occs ?w = (r, w')" for occs cond
    using cancelLoop_frame [OF pending_listed(3) [OF assms(3,2) that(1)] assms(2) _ that(2)] assms(3) by simp
  have grace: ?thesis if "applyGracefulUpdate E m job ?now ?w = (r, w')"
    using that imm loop assms(1,3) by (auto simp: applyGracefulUpdate_def split: sum.splits option.splits)
  have win: ?thesis if "applyWindowedUpdate E m job ?now ?w = (r, w')"
    using that loop assms(1,3) by (auto simp: applyWindowedUpdate_def Let_def split: sum.splits)
  show ?thesis
    using assms(4) imm grace win by (simp add: applyScheduleUpdate_def time_Now_def Let_def split: if_splits)
qed

lemma updateJobRecord_law:
  assumes "invar (w_store w)" "job_id_ok (sj_ID job)" "updateJobRecord E S job w = (r, w')"
  shows "invar (w_store w')" "abs (w_store w') = (abs (w_store w))\<lparr>a_jobs := a_jobs (abs (w_store w'))\<rparr>"
    "a_jobs (abs (w_store w')) = (if r = None
       then (a_jobs (abs (w_store w)))(sj_ID job \<mapsto> job\<lparr>sj_UpdatedAt := Now E (w_clock w)\<rparr>) else a_jobs (abs (w_store w)))"
proof -
  obtain err s' where c: "StorageInterface.UpdateJob S (w_store w) (Now E (w_clock w)) job = (err, s')"
    by (cases "StorageInterface.UpdateJob S (w_store w) (Now E (w_clock w)) job")
  have w': "w_store w' = s'" "r = err" using assms(3) c by (auto simp: updateJobRecord_def time_Now_def)
  note law = UpdateJob_law [OF assms(1,2) c]
  show "invar (w_store w')" "abs (w_store w') = (abs (w_store w))\<lparr>a_jobs := a_jobs (abs (w_store w'))\<rparr>"
    using law unfolding w' by blast+
  show "a_jobs (abs (w_store w')) = (if r = None
       then (a_jobs (abs (w_store w)))(sj_ID job \<mapsto> job\<lparr>sj_UpdatedAt := Now E (w_clock w)\<rparr>) else a_jobs (abs (w_store w)))"
    using law unfolding w' by (auto simp: update_spec_def split: option.splits)
qed

end

text \<open>An update whose identifiers the key schema admits.\<close>

definition update_ids_ok :: "'tk JobUpdate \<Rightarrow> bool" where
  "update_ids_ok u \<longleftrightarrow> job_id_ok (u_JobID u) \<and> (\<forall>t \<in> set (u_AddedTasks u). task_id_ok (t_ID t))
     \<and> (\<forall>i \<in> set (u_RemovedTaskIDs u). task_id_ok i) \<and> (\<forall>t \<in> set (u_UpdatedTasks u). task_id_ok (t_ID t))"

text \<open>The parts of the transaction after the job record touch no job.\<close>

definition below_job :: "string \<Rightarrow> AStore \<Rightarrow> AStore \<Rightarrow> bool" where
  "below_job j a a' \<longleftrightarrow> a_jobs a' = a_jobs a \<and> a_runs a' = a_runs a \<and> a_attempts a' = a_attempts a
     \<and> (\<forall>k. fst k \<noteq> j \<longrightarrow> a_occs a' k = a_occs a k)"

lemma below_job_trans: "below_job j a b \<Longrightarrow> below_job j b c \<Longrightarrow> below_job j a c"
  by (simp add: below_job_def)

lemma tasks_frame_below: "tasks_frame a a' \<Longrightarrow> below_job j a a'"
  unfolding tasks_frame_def below_job_def
  by (metis AStore.select_convs(1,3,4,5) AStore.surjective AStore.update_convs(2))

lemma occs_frame_below: "occs_frame j a a' \<Longrightarrow> below_job j a a'"
  unfolding occs_frame_def below_job_def
  by (metis AStore.select_convs(1,4,5) AStore.surjective AStore.update_convs(3))

lemma andThen_cases:
  assumes "andThen p f = (r, w')"
  obtains (stop) e where "p = (Some e, w')" "r = Some e" | (continue) w1 where "p = (None, w1)" "f w1 = (r, w')"
  using assms by (auto simp: andThen_def split: prod.splits option.splits)

context storage
begin

lemma applyUpdateTransaction_frame:
  assumes m: "um_store m = S" and u: "update_ids_ok u" "sj_ID job = u_JobID u" and inv: "invar (w_store w)"
    and run: "applyUpdateTransaction E m job u w = (r, w')"
  obtains (refused) e where "r = Some e" "invar (w_store w')" "abs (w_store w') = abs (w_store w)"
  | (written) b where "invar (w_store w')" "b = (abs (w_store w))\<lparr>a_jobs := (a_jobs (abs (w_store w)))
       (u_JobID u \<mapsto> job\<lparr>sj_UpdatedAt := Now E (w_clock w)\<rparr>)\<rparr>" "below_job (u_JobID u) b (abs (w_store w'))"
proof -
  have ids: "job_id_ok (u_JobID u)" "\<forall>t \<in> set (u_AddedTasks u). task_id_ok (t_ID t)"
    "\<forall>i \<in> set (u_RemovedTaskIDs u). task_id_ok i" "\<forall>t \<in> set (u_UpdatedTasks u). task_id_ok (t_ID t)"
    using u(1) by (simp_all add: update_ids_ok_def)
  let ?j = "u_JobID u"
  obtain r1 w1 where j1: "updateJobRecord E S job w = (r1, w1)" by (cases "updateJobRecord E S job w")
  note law = updateJobRecord_law [OF inv ids(1) [folded u(2)] j1, unfolded u(2)]
  show thesis
  proof (cases r1)
    case (Some e)
    then have "r = Some (ErrWrap ''failed to update job'' e)" "w' = w1"
      using run j1 m by (simp_all add: applyUpdateTransaction_def wrapError_def andThen_def)
    moreover have "abs (w_store w1) = abs (w_store w)" using law(2,3) Some by simp
    ultimately show thesis using that(1) law(1) by blast
  next
    case None
    let ?b = "(abs (w_store w))\<lparr>a_jobs := (a_jobs (abs (w_store w)))(?j \<mapsto> job\<lparr>sj_UpdatedAt := Now E (w_clock w)\<rparr>)\<rparr>"
    have b: "abs (w_store w1) = ?b" using law(2,3) None by simp
    obtain ra wa where a: "addTasks E S ?j (u_AddedTasks u) w1 = (ra, wa)" by (cases "addTasks E S ?j (u_AddedTasks u) w1")
    have fa: "invar (w_store wa)" "below_job ?j ?b (abs (w_store wa))"
      using addTasks_frame [OF ids(1,2) law(1) a] tasks_frame_below unfolding b by blast+
    obtain rd wd where d: "removeTasks S (u_RemovedTaskIDs u) wa = (rd, wd)" by (cases "removeTasks S (u_RemovedTaskIDs u) wa")
    have fd: "invar (w_store wd)" "below_job ?j ?b (abs (w_store wd))"
      using removeTasks_frame [OF ids(3) fa(1) d] tasks_frame_below below_job_trans [OF fa(2)] by blast+
    obtain rt wt where t: "updateTasks E S (u_UpdatedTasks u) wd = (rt, wt)" by (cases "updateTasks E S (u_UpdatedTasks u) wd")
    have ft: "invar (w_store wt)" "below_job ?j ?b (abs (w_store wt))"
      using updateTasks_frame [OF ids(4) fd(1) t] tasks_frame_below below_job_trans [OF fd(2)] by blast+
    obtain rs ws where s: "applyScheduleUpdate E m job u wt = (rs, ws)" by (cases "applyScheduleUpdate E m job u wt")
    have fs: "invar (w_store ws)" "below_job ?j ?b (abs (w_store ws))"
      using applyScheduleUpdate_frame [OF m _ ft(1) s] ids(1) u(2) occs_frame_below below_job_trans [OF ft(2)] by auto
    have "w' \<in> {wa, wd, wt, ws}"
      using run j1 None a d t s unfolding applyUpdateTransaction_def m
      by (cases ra; cases rd; cases rt) (auto simp: wrapError_def andThen_def split: option.splits)
    then show thesis using that(2) [OF _ refl] fa fd ft fs by blast
  qed
qed

lemma ApplyUpdate_effect:
  assumes m: "um_store m = S" and u: "update_ids_ok u" and inv: "invar (w_store w)"
    and run: "ApplyUpdate E m u w = (r, w')"
  obtains (refused) e where "r = Some e" "invar (w_store w')" "abs (w_store w') = abs (w_store w)"
  | (written) job job' b where "a_jobs (abs (w_store w)) (u_JobID u) = Some job" "sj_Version job = u_ExpectedVersion u"
      "invar (w_store w')" "sj_Version job' = next_version (u_ExpectedVersion u)"
      "sj_Config job' = (if u_NewConfig u = None then sj_Config job else Some EmptyBytes)"
      "b = (abs (w_store w))\<lparr>a_jobs := (a_jobs (abs (w_store w)))(u_JobID u \<mapsto> job')\<rparr>"
      "below_job (u_JobID u) b (abs (w_store w'))"
proof (cases "GetJob S (w_store w) (u_JobID u)")
  case (Inl e)
  then have "r = Some (ErrWrap ''failed to load current job'' e)" "w' = w"
    using run m by (simp_all add: ApplyUpdate_def)
  then show thesis using that(1) inv by blast
next
  case (Inr job)
  have j: "job_id_ok (u_JobID u)" using u by (simp add: update_ids_ok_def)
  have at_j: "a_jobs (abs (w_store w)) (u_JobID u) = Some job"
    using GetJob_law [OF inv j] Inr by (simp add: get_spec_def)
  have id: "sj_ID job = u_JobID u" using well_keyed_job [OF invar_keyed [OF inv] at_j] by blast
  show thesis
  proof (cases "sj_Version job = u_ExpectedVersion u")
    case False
    then have "r = Some (ErrVersionMismatch (u_ExpectedVersion u) (sj_Version job))" "w' = w"
      using run m Inr by (simp_all add: ApplyUpdate_def)
    then show thesis using that(1) inv by blast
  next
    case True
    define new where "new = (case u_NewConfig u of None \<Rightarrow> job | Some cfg \<Rightarrow> job\<lparr>sj_Config := serializeConfig cfg\<rparr>)
      \<lparr>sj_Version := next_version (u_ExpectedVersion u), sj_UpdatedAt := Now E (w_clock w)\<rparr>"
    let ?w = "w\<lparr>w_clock := Suc (w_clock w)\<rparr>"
    have new: "sj_ID new = u_JobID u" "sj_Version new = next_version (u_ExpectedVersion u)"
      "sj_Config new = (if u_NewConfig u = None then sj_Config job else Some EmptyBytes)"
      using id by (auto simp: new_def serializeConfig_def split: option.splits)
    have tx: "applyUpdateTransaction E m new u ?w = (r, w')"
      using run m Inr True unfolding new_def
      by (cases "u_NewConfig u") (simp_all add: ApplyUpdate_def time_Now_def)
    have inv': "invar (w_store ?w)" using inv by simp
    from m u new(1) inv' tx show thesis
    proof (cases rule: applyUpdateTransaction_frame)
      case (refused e)
      then show thesis using that(1) by simp
    next
      case (written b)
      then show thesis
        using that(2) [OF at_j True, of "new\<lparr>sj_UpdatedAt := Now E (Suc (w_clock w))\<rparr>" b] new by simp
    qed
  qed
qed

end

subsection \<open>Which occurrences a policy cancels\<close>

definition canceled :: "StoredOccurrence \<Rightarrow> StoredOccurrence \<Rightarrow> bool" where
  "canceled oc oc' \<longleftrightarrow> (\<exists>u. oc' = oc\<lparr>so_Status := JobStatusCanceled, so_UpdatedAt := u\<rparr>)"

abbreviation pending :: "string \<Rightarrow> StoredOccurrence \<Rightarrow> bool" where
  "pending j oc \<equiv> so_JobID oc = j \<and> so_Status oc = JobStatusPending"

text \<open>
  The meaning of the policies: which pending occurrences of a job, whose pending occurrences are
  \<open>pend\<close>, are canceled at time \<open>now\<close>.
\<close>

definition doomed :: "UpdatePolicy \<Rightarrow> instant \<Rightarrow> StoredOccurrence set \<Rightarrow> StoredOccurrence \<Rightarrow> bool" where
  "doomed policy now pend oc \<longleftrightarrow>
     now < so_ScheduledTime oc
     \<and> (policy = UpdatePolicyGraceful \<longrightarrow>
          (\<exists>oc' \<in> pend. now < so_ScheduledTime oc' \<and> so_ScheduledTime oc' < so_ScheduledTime oc))
     \<and> (policy = UpdatePolicyWindowed \<longrightarrow> so_ScheduledTime oc < now + 7 * 24 * Hour)"

lemma nextOccurrence_earliest:
  assumes "\<forall>b. best = Some b \<longrightarrow> now < so_ScheduledTime b"
  shows "case nextOccurrence now occs best of
      None \<Rightarrow> best = None \<and> (\<forall>oc \<in> set occs. \<not> now < so_ScheduledTime oc)
    | Some n \<Rightarrow> n \<in> set occs \<union> set_option best \<and> now < so_ScheduledTime n
        \<and> (\<forall>oc \<in> set occs \<union> set_option best. now < so_ScheduledTime oc \<longrightarrow> so_ScheduledTime n \<le> so_ScheduledTime oc)"
  using assms
proof (induction occs arbitrary: best)
  case Nil
  then show ?case by (auto split: option.splits)
next
  case (Cons oc occs)
  define C where "C \<longleftrightarrow> now < so_ScheduledTime oc
     \<and> (case best of None \<Rightarrow> True | Some b \<Rightarrow> so_ScheduledTime oc < so_ScheduledTime b)"
  define nb where "nb = (if C then Some oc else best)"
  have pre: "\<forall>b. nb = Some b \<longrightarrow> now < so_ScheduledTime b" using Cons.prems by (simp add: nb_def C_def)
  have step: "nextOccurrence now (oc # occs) best = nextOccurrence now occs nb" by (simp add: nb_def C_def)
  have bound: "\<exists>b. nb = Some b \<and> so_ScheduledTime b \<le> so_ScheduledTime x"
    if x: "x = oc \<or> best = Some x" "now < so_ScheduledTime x" for x
    using x by (cases best) (auto simp: nb_def C_def)
  show ?case
  proof (cases "nextOccurrence now occs nb")
    case None
    then have none: "nb = None" "\<forall>oc \<in> set occs. \<not> now < so_ScheduledTime oc" using Cons.IH [OF pre] by simp_all
    then have "best = None" by (simp add: nb_def split: if_splits)
    moreover have "\<not> now < so_ScheduledTime oc" using none(1) bound [of oc] by auto
    ultimately show ?thesis using none(2) None unfolding step by simp
  next
    case (Some n)
    have n: "n \<in> set occs \<union> set_option nb" "now < so_ScheduledTime n"
      "\<forall>x \<in> set occs \<union> set_option nb. now < so_ScheduledTime x \<longrightarrow> so_ScheduledTime n \<le> so_ScheduledTime x"
      using Cons.IH [OF pre] unfolding Some by simp_all
    have "n \<in> set (oc # occs) \<union> set_option best" using n(1) by (auto simp: nb_def split: if_splits)
    moreover have "so_ScheduledTime n \<le> so_ScheduledTime x"
      if x: "x \<in> set (oc # occs) \<union> set_option best" "now < so_ScheduledTime x" for x
    proof (cases "x \<in> set occs")
      case True
      then show ?thesis using n(3) x(2) by blast
    next
      case False
      then obtain b where b: "nb = Some b" "so_ScheduledTime b \<le> so_ScheduledTime x"
        using bound [of x] x by (cases best) auto
      then have "so_ScheduledTime n \<le> so_ScheduledTime b" using n(3) pre by simp
      then show ?thesis using b(2) by simp
    qed
    ultimately show ?thesis using n(2) Some unfolding step by simp
  qed
qed

context reliable_storage
begin

lemma cancelLoop_rewrites:
  assumes "invar (w_store w)" "clock_ok E" "set occs \<subseteq> ran (a_occs (abs (w_store w)))" "distinct occs"
  shows "\<exists>w'. cancelLoop E S cond occs w = (None, w') \<and> invar (w_store w')
    \<and> rewritten (occ_key ` set (filter cond occs)) canceled (abs (w_store w)) (abs (w_store w'))"
  using assms(1,3,4)
proof (induction occs arbitrary: w)
  case Nil
  then show ?case by (simp add: rewritten_none)
next
  case (Cons oc occs)
  show ?case
  proof (cases "cond oc")
    case False
    then show ?thesis using Cons by simp
  next
    case True
    let ?a = "abs (w_store w)" and ?now = "Now E (w_clock w)" and ?w = "w\<lparr>w_clock := Suc (w_clock w)\<rparr>"
    let ?oc = "oc\<lparr>so_Status := JobStatusCanceled, so_UpdatedAt := ?now\<rparr>"
    obtain err w1 where wr: "write_back E S ?oc ?w = (err, w1)" by (cases "write_back E S ?oc ?w")
    note keys = listed_keys [OF invar_keyed [OF Cons.prems(1)] Cons.prems(2)]
    have k: "a_occs ?a (occ_key oc) = Some oc" and ok: "job_id_ok (so_JobID oc)" "occ_id_ok (so_ID oc)" "occ_times_ok oc"
      using keys(1,3) [of oc] by simp_all
    have "occ_times_ok (?oc\<lparr>so_UpdatedAt := u\<rparr>)" if "year_ok u" for u using ok(3) that by (simp add: occ_times_ok_def)
    note wb = write_back_ok [OF _ assms(2) _ _ this _ wr, simplified, OF Cons.prems(1) ok(1,2)]
    have w1: "err = None" "invar (w_store w1)" "abs (w_store w1) = ?a\<lparr>a_occs := (a_occs ?a)(occ_key oc \<mapsto>
        ?oc\<lparr>so_UpdatedAt := Now E (Suc (w_clock w))\<rparr>)\<rparr>" using wb k by simp_all
    note rest = rest_listed [OF invar_keyed [OF Cons.prems(1)] Cons.prems(2,3) w1(3)]
    from Cons.IH [OF w1(2) rest(2)] Cons.prems(3) obtain w' where w':
      "cancelLoop E S cond occs w1 = (None, w')" "invar (w_store w')"
      "rewritten (occ_key ` set (filter cond occs)) canceled (abs (w_store w1)) (abs (w_store w'))" by auto
    have "cancelLoop E S cond (oc # occs) w = (None, w')" using wr w1(1) w'(1) True by (simp add: time_Now_def)
    moreover have "occ_key oc \<notin> occ_key ` set (filter cond occs)" using rest(1) by auto
    from rewritten_insert [where R = canceled, OF k _ this w1(3) w'(3)]
    have "rewritten (occ_key ` set (filter cond (oc # occs))) canceled ?a (abs (w_store w'))"
      using True by (auto simp: canceled_def)
    ultimately show ?thesis using w'(2) by blast
  qed
qed

lemma applyScheduleUpdate_cancels:
  assumes m: "um_store m = S" and clk: "clock_ok E" and j: "job_id_ok (sj_ID job)" and inv: "invar (w_store w)"
  shows "\<exists>w'. applyScheduleUpdate E m job u w = (None, w') \<and> invar (w_store w')
    \<and> rewritten {k. \<exists>oc. a_occs (abs (w_store w)) k = Some oc \<and> pending (sj_ID job) oc
          \<and> doomed (u_Policy u) (Now E (w_clock w)) {oc \<in> ran (a_occs (abs (w_store w))). pending (sj_ID job) oc} oc}
        canceled (abs (w_store w)) (abs (w_store w'))"
proof -
  let ?a = "abs (w_store w)" and ?w = "w\<lparr>w_clock := Suc (w_clock w)\<rparr>" and ?now = "Now E (w_clock w)"
  let ?pend = "{oc \<in> ran (a_occs ?a). pending (sj_ID job) oc}"
  obtain occs where l: "ListPendingOccurrences S (w_store w) (sj_ID job) = Inr occs"
    using ListPendingOccurrences_ok [OF inv j] by blast
  note occs = pending_listed(1,2) [OF inv j l]
  have sub: "set occs \<subseteq> ran (a_occs (abs (w_store ?w)))" using occs(2) by auto
  have loop: "\<exists>w'. cancelLoop E S cond occs ?w = (None, w') \<and> invar (w_store w')
      \<and> rewritten {k. \<exists>oc. a_occs ?a k = Some oc \<and> pending (sj_ID job) oc \<and> D oc} canceled ?a (abs (w_store w'))"
    if cond: "\<And>oc. oc \<in> set occs \<Longrightarrow> cond oc = D oc" for cond D
  proof -
    have "set (filter cond occs) = {oc \<in> ran (a_occs ?a). pending (sj_ID job) oc \<and> D oc}"
      using occs(2) cond by auto
    from listed_key_set [OF invar_keyed [OF inv] this] cancelLoop_rewrites [OF _ clk sub occs(1), of cond] inv
    show ?thesis by simp
  qed
  have run: "applyScheduleUpdate E m job u w =
      (if u_Policy u = UpdatePolicyGraceful then applyGracefulUpdate E m job ?now ?w
       else if u_Policy u = UpdatePolicyWindowed then applyWindowedUpdate E m job ?now ?w
       else applyImmediateUpdate E m job ?now ?w)"
    by (simp add: applyScheduleUpdate_def time_Now_def Let_def)
  have imm: "applyImmediateUpdate E m job ?now ?w = cancelLoop E S (\<lambda>oc. ?now < so_ScheduledTime oc) occs ?w"
    using l m by (simp add: applyImmediateUpdate_def)
  consider (graceful) "u_Policy u = UpdatePolicyGraceful" | (windowed) "u_Policy u = UpdatePolicyWindowed"
    | (immediate) "u_Policy u \<noteq> UpdatePolicyGraceful" "u_Policy u \<noteq> UpdatePolicyWindowed" by blast
  then show ?thesis
  proof cases
    case immediate
    then show ?thesis unfolding run using imm
      by (simp only: if_False) (rule loop, simp add: doomed_def)
  next
    case windowed
    have d: "add_dur ?now updateWindow = ?now + 7 * 24 * Hour" by (simp add: add_dur_def updateWindow_def)
    have "applyWindowedUpdate E m job ?now ?w = cancelLoop E S
        (\<lambda>oc. ?now < so_ScheduledTime oc \<and> so_ScheduledTime oc < ?now + 7 * 24 * Hour) occs ?w"
      using l m by (simp add: applyWindowedUpdate_def d)
    then show ?thesis unfolding run using windowed loop
        [of "\<lambda>oc. ?now < so_ScheduledTime oc \<and> so_ScheduledTime oc < ?now + 7 * 24 * Hour" "doomed (u_Policy u) ?now ?pend"]
      by (simp add: doomed_def)
  next
    case graceful
    have pend: "?pend = set occs" using occs(2) by blast
    let ?D = "doomed (u_Policy u) ?now ?pend"
    show ?thesis
    proof (cases "nextOccurrence ?now occs None")
      case None
      then have "\<forall>oc \<in> set occs. \<not> ?now < so_ScheduledTime oc"
        using nextOccurrence_earliest [of None ?now occs] by simp
      then have "?now < so_ScheduledTime oc \<longleftrightarrow> ?D oc" if "oc \<in> set occs" for oc using that by (simp add: doomed_def)
      moreover have "applyGracefulUpdate E m job ?now ?w = cancelLoop E S (\<lambda>oc. ?now < so_ScheduledTime oc) occs ?w"
        using None l m imm by (simp add: applyGracefulUpdate_def)
      ultimately show ?thesis unfolding run using graceful loop [of "\<lambda>oc. ?now < so_ScheduledTime oc" ?D] by simp
    next
      case (Some n)
      then have n: "n \<in> set occs" "?now < so_ScheduledTime n"
        "\<forall>oc \<in> set occs. ?now < so_ScheduledTime oc \<longrightarrow> so_ScheduledTime n \<le> so_ScheduledTime oc"
        using nextOccurrence_earliest [of None ?now occs] by simp_all
      have "so_ScheduledTime n < so_ScheduledTime oc \<longleftrightarrow> ?D oc" for oc
        unfolding doomed_def pend using n graceful by (auto intro: order.strict_trans1)
      moreover have "applyGracefulUpdate E m job ?now ?w
          = cancelLoop E S (\<lambda>oc. so_ScheduledTime n < so_ScheduledTime oc) occs ?w"
        using Some l m by (simp add: applyGracefulUpdate_def)
      ultimately show ?thesis
        unfolding run using graceful loop [of "\<lambda>oc. so_ScheduledTime n < so_ScheduledTime oc" ?D] by simp
    qed
  qed
qed

end

subsection \<open>The version guard\<close>

lemma next_version_changes: "next_version v \<noteq> v"
proof
  assume "next_version v = v"
  then have "word_of_int (sint (word_of_int (v + 1) :: 64 word)) = (word_of_int v :: 64 word)"
    by (simp add: next_version_def)
  then show False by simp
qed

text \<open>What an update with the result \<open>r\<close> did to a store.\<close>

definition guarded :: "'tk JobUpdate \<Rightarrow> error option \<Rightarrow> AStore \<Rightarrow> AStore \<Rightarrow> bool" where
  "guarded u r a a' \<longleftrightarrow>
     (r = None \<longrightarrow> (\<exists>job job'. a_jobs a (u_JobID u) = Some job \<and> sj_Version job = u_ExpectedVersion u
          \<and> a_jobs a' (u_JobID u) = Some job' \<and> sj_Version job' = next_version (u_ExpectedVersion u)
          \<and> sj_Config job' = (if u_NewConfig u = None then sj_Config job else Some EmptyBytes)))
    \<and> ((\<exists>job. a_jobs a (u_JobID u) = Some job \<and> sj_Version job \<noteq> u_ExpectedVersion u) \<longrightarrow> r \<noteq> None \<and> a' = a)
    \<and> (\<forall>i. i \<noteq> u_JobID u \<longrightarrow> a_jobs a' i = a_jobs a i) \<and> (\<forall>k. fst k \<noteq> u_JobID u \<longrightarrow> a_occs a' k = a_occs a k)
    \<and> a_runs a' = a_runs a \<and> a_attempts a' = a_attempts a"

context storage
begin

lemma ApplyUpdate_guarded:
  assumes "um_store m = S" "update_ids_ok u" "invar (w_store w)" "ApplyUpdate E m u w = (r, w')"
  shows "invar (w_store w') \<and> guarded u r (abs (w_store w)) (abs (w_store w'))"
  using assms
proof (cases rule: ApplyUpdate_effect)
  case (refused e)
  then show ?thesis by (simp add: guarded_def)
next
  case (written job job' b)
  then show ?thesis by (auto simp: guarded_def below_job_def)
qed

lemma ApplyUpdate_once:
  assumes "um_store m = S" "update_ids_ok u" "update_ids_ok v" "invar (w_store w)"
    and "u_JobID v = u_JobID u" "u_ExpectedVersion v = u_ExpectedVersion u"
    and "ApplyUpdate E m u w = (None, w1)" "ApplyUpdate E m v w1 = (r, w2)"
  shows "r \<noteq> None \<and> abs (w_store w2) = abs (w_store w1)"
proof -
  have one: "invar (w_store w1)" "guarded u None (abs (w_store w)) (abs (w_store w1))"
    using ApplyUpdate_guarded [OF assms(1,2,4,7)] by blast+
  then obtain job' where "a_jobs (abs (w_store w1)) (u_JobID v) = Some job'"
    "sj_Version job' = next_version (u_ExpectedVersion v)"
    using assms(5,6) by (auto simp: guarded_def)
  moreover have "guarded v r (abs (w_store w1)) (abs (w_store w2))"
    using ApplyUpdate_guarded [OF assms(1,3) one(1) assms(8)] by blast
  ultimately show ?thesis using next_version_changes by (auto simp: guarded_def)
qed

end

subsection \<open>Properties\<close>

text \<open>
  C11. An update is guarded by the version, on any BadgerDB, also one whose operations fail. If it
  reports success, the stored job had the expected version and now has the next one; if the stored
  version is another one, the update is refused and changes nothing. In any case it touches no other
  job, no occurrence of another job, no run and no attempt. A new configuration is not stored: the
  bytes that are written are empty.
\<close>

theorem update_guarded:
  assumes "badger_db B contents" "um_store m = BadgerStorage B" "update_ids_ok u"
    and "keys_ok (contents (w_store w))" "ApplyUpdate E m u w = (r, w')"
  shows "keys_ok (contents (w_store w'))
    \<and> guarded u r (abs_of (contents (w_store w))) (abs_of (contents (w_store w')))"
  by (rule storage.ApplyUpdate_guarded [OF badger_db.implements_storage [OF assms(1)] assms(2-)])

definition sample_stored_job :: StoredJob where
  "sample_stored_job = \<lparr>sj_ID = ''job_1'', sj_Name = ''nightly'', sj_ScheduleType = ''cron'', sj_ScheduleConfig = None,
     sj_Config = None, sj_Version = 1, sj_Active = True, sj_Paused = False, sj_LastRunTime = None,
     sj_CreatedAt = 0, sj_UpdatedAt = 0\<rparr>"

definition sample_job_world :: "(mem, unit) World" where
  "sample_job_world = sample_world\<lparr>w_store := snd (CreateJob mem_storage [] sample_stored_job)\<rparr>"

definition sample_update :: "int \<Rightarrow> nat JobUpdate" where
  "sample_update v = \<lparr>u_JobID = ''job_1'', u_ExpectedVersion = v, u_NewConfig = None, u_NewTicker = None,
     u_AddedTasks = [], u_RemovedTaskIDs = [], u_UpdatedTasks = [], u_Policy = UpdatePolicyImmediate\<rparr>"

lemma sample_job_id_ok: "job_id_ok ''job_1''"
  by code_simp

lemma sample_job_store:
  "keys_ok (map_of (w_store sample_job_world))"
  "a_jobs (abs_of (map_of (w_store sample_job_world))) ''job_1'' = Some sample_stored_job"
proof -
  obtain r s' where c: "CreateJob mem_storage [] sample_stored_job = (r, s')"
    by (cases "CreateJob mem_storage [] sample_stored_job")
  have s': "w_store sample_job_world = s'" using c by (simp add: sample_job_world_def)
  have "year_ok 0" by code_simp
  then have ok: "job_id_ok (sj_ID sample_stored_job)" "job_times_ok sample_stored_job"
    using sample_job_id_ok by (simp_all add: sample_stored_job_def job_times_ok_def opt_year_ok_def)
  have none: "a_jobs (abs_of (map_of [])) i = None" for i by (simp add: abs_of_def decode_def)
  have "r = None" using mem.CreateJob_ok [OF empty_store(1) ok] c none by simp
  with mem.CreateJob_law [OF empty_store(1) ok(1) c]
  show "keys_ok (map_of (w_store sample_job_world))"
    "a_jobs (abs_of (map_of (w_store sample_job_world))) ''job_1'' = Some sample_stored_job"
    unfolding s' by (auto simp: create_spec_def sample_stored_job_def)
qed

abbreviation sample_manager :: "mem UpdateManager" where
  "sample_manager \<equiv> NewUpdateManager mem_storage"

lemma sample_update_ids: "update_ids_ok (sample_update v)"
  using sample_job_id_ok by (simp add: update_ids_ok_def sample_update_def)

theorem update_guarded_witness:
  "fst (ApplyUpdate sample_env sample_manager (sample_update 5) sample_job_world) \<noteq> None"
proof -
  obtain r w' where run: "ApplyUpdate sample_env sample_manager (sample_update 5) sample_job_world = (r, w')"
    by (cases "ApplyUpdate sample_env sample_manager (sample_update 5) sample_job_world")
  have "um_store sample_manager = mem_storage" by (simp add: NewUpdateManager_def)
  from update_guarded [OF mem.badger_db_axioms this sample_update_ids sample_job_store(1) run] sample_job_store(2) run
  show ?thesis by (auto simp: guarded_def sample_update_def sample_stored_job_def)
qed

text \<open>
  C12. Optimistic locking: of two updates of a job prepared for the same version, applied one after the
  other, on a database that may fail, once the first has succeeded the second is refused and changes
  nothing. Calls that overlap are not covered: the version is read and the job written in separate
  transactions.
\<close>

theorem update_applied_once:
  assumes "badger_db B contents" "um_store m = BadgerStorage B" "update_ids_ok u" "update_ids_ok v"
    and "keys_ok (contents (w_store w))" "u_JobID v = u_JobID u" "u_ExpectedVersion v = u_ExpectedVersion u"
    and "ApplyUpdate E m u w = (None, w1)" "ApplyUpdate E m v w1 = (r, w2)"
  shows "r \<noteq> None \<and> abs_of (contents (w_store w2)) = abs_of (contents (w_store w1))"
  by (rule storage.ApplyUpdate_once [OF badger_db.implements_storage [OF assms(1)] assms(2-)])

abbreviation sample_next_job :: StoredJob where
  "sample_next_job \<equiv>
     sample_stored_job\<lparr>sj_Version := next_version 1, sj_UpdatedAt := Now sample_env (w_clock sample_job_world)\<rparr>"

abbreviation sample_next_world :: "(mem, unit) World" where
  "sample_next_world \<equiv> sample_job_world\<lparr>w_clock := Suc (w_clock sample_job_world)\<rparr>"

lemma sample_record_written: "\<exists>w'. updateJobRecord sample_env mem_storage sample_next_job sample_next_world = (None, w')"
proof -
  let ?job = sample_next_job
  have "year_ok 0" by code_simp
  then have "job_times_ok (?job\<lparr>sj_UpdatedAt := Now sample_env n\<rparr>)" for n
    by (simp add: job_times_ok_def sample_stored_job_def opt_year_ok_def sample_env_def)
  then have "fst (StorageInterface.UpdateJob mem_storage (w_store sample_job_world) (Now sample_env n) ?job) = None" for n
    using mem.UpdateJob_ok [OF sample_job_store(1), of ?job] sample_job_id_ok sample_job_store(2)
    by (simp add: sample_stored_job_def)
  then obtain s' where c: "StorageInterface.UpdateJob mem_storage (w_store sample_job_world)
      (Now sample_env (Suc (w_clock sample_job_world))) ?job = (None, s')" by (metis prod.collapse)
  then show ?thesis unfolding updateJobRecord_def time_Now_def by simp
qed

lemma sample_transaction:
  assumes "u_JobID u = ''job_1''" "u_ExpectedVersion u = 1" "u_NewConfig u = None"
  shows "ApplyUpdate sample_env sample_manager u sample_job_world
    = applyUpdateTransaction sample_env sample_manager sample_next_job u sample_next_world"
proof -
  have "GetJob mem_storage (w_store sample_job_world) ''job_1'' = Inr sample_stored_job"
    using mem.GetJob_ok [OF sample_job_store(1) sample_job_id_ok] sample_job_store(2) by simp
  moreover have "sj_Version sample_stored_job = 1" by (simp add: sample_stored_job_def)
  ultimately show ?thesis using assms by (simp add: ApplyUpdate_def NewUpdateManager_def time_Now_def)
qed

lemma sample_update_succeeds:
  "fst (ApplyUpdate sample_env sample_manager (sample_update 1) sample_job_world) = None"
proof -
  have "ApplyUpdate sample_env sample_manager (sample_update 1) sample_job_world
      = applyUpdateTransaction sample_env sample_manager sample_next_job (sample_update 1) sample_next_world"
    by (rule sample_transaction) (simp_all add: sample_update_def)
  then show ?thesis using sample_record_written
    by (auto simp: applyUpdateTransaction_def sample_update_def NewUpdateManager_def andThen_def wrapError_def)
qed

theorem update_applied_once_witness:
  "\<exists>w1. ApplyUpdate sample_env sample_manager (sample_update 1) sample_job_world = (None, w1)
     \<and> fst (ApplyUpdate sample_env sample_manager (sample_update 1) w1) \<noteq> None"
proof -
  obtain w1 where one: "ApplyUpdate sample_env sample_manager (sample_update 1) sample_job_world = (None, w1)"
    using sample_update_succeeds by (metis prod.collapse)
  obtain r w2 where two: "ApplyUpdate sample_env sample_manager (sample_update 1) w1 = (r, w2)"
    by (cases "ApplyUpdate sample_env sample_manager (sample_update 1) w1")
  have "um_store sample_manager = mem_storage" by (simp add: NewUpdateManager_def)
  from update_applied_once [OF mem.badger_db_axioms this sample_update_ids sample_update_ids sample_job_store(1)
      refl refl one two] one two
  show ?thesis by auto
qed

text \<open>
  C22. Changing the schedule on a BadgerDB that does not fail cancels exactly the pending occurrences of
  the job that its policy names: with the immediate policy (and an unknown one) all that are
  scheduled after now, with the graceful policy those after the next one, with the windowed policy
  those within the next seven days. Each keeps its other fields, and nothing else changes; so a pending
  occurrence that is overdue, still waiting for a worker, survives every policy, the immediate one
  included, although its documentation speaks of all pending occurrences.
\<close>

theorem policy_cancels:
  assumes "badger_db_reliable B contents" "um_store m = BadgerStorage B" "clock_ok E" "job_id_ok (sj_ID job)"
    and "keys_ok (contents (w_store w))"
  shows "\<exists>w'. applyScheduleUpdate E m job u w = (None, w') \<and> keys_ok (contents (w_store w'))
    \<and> rewritten {k. \<exists>oc. a_occs (abs_of (contents (w_store w))) k = Some oc \<and> pending (sj_ID job) oc
          \<and> doomed (u_Policy u) (Now E (w_clock w))
              {oc \<in> ran (a_occs (abs_of (contents (w_store w)))). pending (sj_ID job) oc} oc}
        canceled (abs_of (contents (w_store w))) (abs_of (contents (w_store w')))"
  by (rule reliable_storage.applyScheduleUpdate_cancels
      [OF badger_db_reliable.implements_reliable_storage [OF assms(1)] assms(2-)])

definition sample_pending :: StoredOccurrence where
  "sample_pending = (sample_occ ''a'')\<lparr>so_ScheduledTime := Hour\<rparr>"

theorem policy_cancels_witness:
  "\<exists>w' oc'. applyScheduleUpdate sample_env sample_manager sample_stored_job (sample_update 1) (one_world sample_pending)
       = (None, w')
     \<and> a_occs (abs_of (map_of (w_store w'))) (occ_key sample_pending) = Some oc' \<and> so_Status oc' = JobStatusCanceled"
proof -
  have "year_ok Hour" by code_simp
  then have ok: "job_id_ok (so_JobID sample_pending)" "occ_id_ok (so_ID sample_pending)" "occ_times_ok sample_pending"
    using sample_occ_ok(1,2,3) [of "''a''"] by (simp_all add: sample_pending_def occ_times_ok_def opt_year_ok_def)
  note st = one_store [OF ok]
  have w: "w_store (one_world sample_pending) = one_store sample_pending" "w_clock (one_world sample_pending) = 0"
    by (simp_all add: one_world_def sample_world_def)
  have j: "job_id_ok (sj_ID sample_stored_job)" using sample_job_id_ok by (simp add: sample_stored_job_def)
  have m: "um_store sample_manager = mem_storage" by (simp add: NewUpdateManager_def)
  from policy_cancels [OF mem.badger_db_reliable_axioms m sample_env_ok(2) j, of "one_world sample_pending" "sample_update 1"]
  obtain w' where w': "applyScheduleUpdate sample_env sample_manager sample_stored_job (sample_update 1) (one_world sample_pending)
       = (None, w')"
    "rewritten {k. \<exists>oc. a_occs (abs_of (map_of (one_store sample_pending))) k = Some oc \<and> pending (sj_ID sample_stored_job) oc
          \<and> doomed (u_Policy (sample_update 1)) (Now sample_env 0) {oc \<in> ran (a_occs (abs_of (map_of (one_store sample_pending)))).
              pending (sj_ID sample_stored_job) oc} oc}
        canceled (abs_of (map_of (one_store sample_pending))) (abs_of (map_of (w_store w')))"
    using st(1) unfolding w by blast
  from rewritten_at [OF w'(2), of "occ_key sample_pending"]
  have "\<exists>oc'. a_occs (abs_of (map_of (w_store w'))) (occ_key sample_pending) = Some oc' \<and> canceled sample_pending oc'"
    unfolding st(2) by (simp add: sample_pending_def sample_occ_def sample_stored_job_def doomed_def sample_update_def sample_env_def)
  then show ?thesis using w'(1) by (auto simp: canceled_def)
qed

text \<open>
  C37. The difference of two schedules turns the one into the other. For tickers whose occurrences
  between the two times can be computed, the removed times are occurrences of the old ticker only,
  the added ones of the new ticker only, both without repetition and in increasing order, and
  removing the ones from the old occurrences and adding the others gives the new occurrences.
\<close>

theorem diff_schedules_exact:
  assumes "ticker_wf old" "ticker_wf new" "Ticker_GetOccurrencesBetween old a b = Inr oldTimes"
    "Ticker_GetOccurrencesBetween new a b = Inr newTimes"
  shows "\<exists>added removed. DiffSchedules old new a b = Inr (added, removed)
    \<and> (set oldTimes - set removed) \<union> set added = set newTimes
    \<and> set removed \<subseteq> set oldTimes \<and> set removed \<inter> set newTimes = {} \<and> set added \<inter> set oldTimes = {}
    \<and> sorted_wrt (\<lambda>x y. instant x < instant y) added \<and> sorted_wrt (\<lambda>x y. instant x < instant y) removed"
proof -
  have "sorted_wrt (\<lambda>x y. instant x < instant y) (filter (\<lambda>t. t \<notin> set oldTimes) newTimes)"
    "sorted_wrt (\<lambda>x y. instant x < instant y) (filter (\<lambda>t. t \<notin> set newTimes) oldTimes)"
    using ticker.occurrences_increase assms by (blast intro: sorted_wrt_filter)+
  then show ?thesis using assms(3,4)
    by (intro exI [of _ "filter (\<lambda>t. t \<notin> set oldTimes) newTimes"] exI [of _ "filter (\<lambda>t. t \<notin> set newTimes) oldTimes"])
      (auto simp: DiffSchedules_def)
qed

theorem diff_schedules_exact_witness:
  "\<exists>t u. sample_once = Inr t
     \<and> NewOnceTicker (\<lambda>z. Inr UTC) 0 \<lparr>instant = 7 * Second, loc = 0\<rparr>
         \<lparr>tk_StartTime = None, tk_EndTime = None, tk_Timezone = ''''\<rparr> = Inr u
     \<and> (\<exists>added removed. DiffSchedules (TOnce t) (TOnce u) \<lparr>instant = 0, loc = 0\<rparr> \<lparr>instant = 10 * Second, loc = 0\<rparr>
          = Inr (added, removed) \<and> set removed \<inter> set added = {})"
proof -
  have once: "\<exists>ts. Ticker_GetOccurrencesBetween (TOnce t) a b = Inr ts" for t a b
    by (simp add: Once_GetOccurrencesBetween_def Let_def)
  obtain t where t: "sample_once = Inr t" by (simp add: sample_once_def NewOnceTicker_def)
  obtain u where u: "NewOnceTicker (\<lambda>z. Inr UTC) 0 \<lparr>instant = 7 * Second, loc = 0\<rparr>
         \<lparr>tk_StartTime = None, tk_EndTime = None, tk_Timezone = ''''\<rparr> = Inr u" by (simp add: NewOnceTicker_def)
  let ?a = "\<lparr>instant = 0, loc = 0\<rparr>" and ?b = "\<lparr>instant = 10 * Second, loc = 0\<rparr>"
  obtain ts us where "Ticker_GetOccurrencesBetween (TOnce t) ?a ?b = Inr ts" "Ticker_GetOccurrencesBetween (TOnce u) ?a ?b = Inr us"
    using once by metis
  from diff_schedules_exact [OF _ _ this] show ?thesis using t u by fastforce
qed

end
