(* ===== verification/Scheduler.thy ===== *)
theory Scheduler
  imports Recovery Reaper Update
begin

text \<open>
  The scheduler of \<^verbatim>\<open>scheduler/scheduler.go\<close>, which puts the parts together. Jobs refer to their tickers
  by address: \<open>s_tickers\<close> is the heap of tickers of the process, and an address without a ticker is the
  nil interface. The fields after \<open>s_canceled\<close> are the goroutines: one entry per \<^verbatim>\<open>watchJob\<close> and the
  place where a call of \<^verbatim>\<open>Shutdown\<close> waits. Iteration over a Go map has no fixed order: the order of the
  keys is an argument. A panic is the result \<open>None\<close>.

  The configurations marshal without error: a duration, a string and a finite number always do.
  Contexts are not passed to the storage, which ignores them.
\<close>

text \<open>
  Where a \<^verbatim>\<open>watchJob\<close> goroutine stands: before its select, in the select on the channel of the ticker at
  an address, in \<^verbatim>\<open>handleJobTrigger\<close> between the overlap check and the creation of the occurrence, in
  \<^verbatim>\<open>Submit\<close> as the given caller of the pool, or returned. The string is the identifier of its job.
\<close>

datatype watcher =
    WatchTop string
  | Watching string nat
  | Claiming string TickContext
  | Submitting string nat
  | Unwatched

text \<open>Where \<^verbatim>\<open>Shutdown\<close> stands: no call, waiting for the watchers, waiting for the pool.\<close>

datatype shutdown_pc = NoShutdown | AwaitingWatchers | AwaitingPool

record ('s, 'm) Scheduler =
  s_config :: SchedulerConfig
  s_store :: "'s Storage"
  s_exec :: "('s, 'm) Executor"
  s_pool :: "nat run WorkerPool"
  s_reaper :: "'s Reaper"
  s_metrics :: "'m MetricsCollector"
  s_jobs :: "string \<rightharpoonup> nat Job"
  s_tickers :: "nat \<rightharpoonup> Ticker"
  s_running :: bool
  s_canceled :: bool
  s_watchers :: "watcher list"
  s_shutdown :: shutdown_pc

text \<open>The field \<^verbatim>\<open>Metrics\<close> of the configuration, an \<^verbatim>\<open>interface{}\<close>: nil, a collector, or something else.\<close>

datatype 'm metrics_value = NilMetrics | CollectorMetrics "'m MetricsCollector" | OtherMetrics

definition NewScheduler ::
  "SchedulerConfig \<Rightarrow> 'm metrics_value \<Rightarrow> 's Storage \<Rightarrow> (nat \<rightharpoonup> Ticker) \<Rightarrow> ('s, 'm) Scheduler"
where
  "NewScheduler cfg metrics store tickers =
     (let exec = NewExecutor store;
          pool = NewWorkerPool (MaxConcurrentJobs cfg);
          reaper = NewReaper store (ReaperInterval cfg);
          mc = (case metrics of NilMetrics \<Rightarrow> NoOpMetrics | CollectorMetrics m \<Rightarrow> m | OtherMetrics \<Rightarrow> NoOpMetrics)
      in \<lparr>s_config = cfg, s_store = store, s_exec = SetMetrics exec mc, s_pool = pool, s_reaper = reaper,
          s_metrics = mc, s_jobs = Map.empty, s_tickers = tickers, s_running = False, s_canceled = False,
          s_watchers = [], s_shutdown = NoShutdown\<rparr>)"

subsection \<open>Registering a job\<close>

fun registerTasks ::
  "Env \<Rightarrow> 's Storage \<Rightarrow> string \<Rightarrow> Task list \<Rightarrow> ('s, 'm) World \<Rightarrow> error option \<times> ('s, 'm) World"
where
  "registerTasks E store jobID [] w = (None, w)"
| "registerTasks E store jobID (task # tasks) w =
     (let taskConfigBytes = TaskConfigBytes (t_Config task);
          (createdAt, w) = time_Now E w;
          (updatedAt, w) = time_Now E w;
          (err, st) = CreateTask store (w_store w)
            \<lparr>st_ID = t_ID task, st_JobID = jobID, st_Name = t_Name task, st_Config = Some taskConfigBytes,
             st_Order = t_Order task, st_CreatedAt = createdAt, st_UpdatedAt = updatedAt\<rparr>;
          w = w\<lparr>w_store := st\<rparr>
      in (case err of
            Some e \<Rightarrow> (Some e, w)
          | None \<Rightarrow> registerTasks E store jobID tasks w))"

definition RegisterJob ::
  "Env \<Rightarrow> nat Job \<Rightarrow> ('s, 'm) Scheduler \<Rightarrow> ('s, 'm) World
   \<Rightarrow> error option \<times> ('s, 'm) Scheduler \<times> ('s, 'm) World"
where
  "RegisterJob E job s w =
     (case s_jobs s (j_ID job) of
        Some _ \<Rightarrow> (Some (ErrJobRegistered (j_ID job)), s, w)
      | None \<Rightarrow>
          (let configBytes = ConfigBytes (j_Config job);
               (createdAt, w) = time_Now E w;
               (updatedAt, w) = time_Now E w;
               (err, st) = CreateJob (s_store s) (w_store w)
                 \<lparr>sj_ID = j_ID job, sj_Name = j_Name job, sj_ScheduleType = ''cron'', sj_ScheduleConfig = None,
                  sj_Config = Some configBytes, sj_Version = j_Version job, sj_Active = j_Active job,
                  sj_Paused = j_Paused job, sj_LastRunTime = None, sj_CreatedAt = createdAt,
                  sj_UpdatedAt = updatedAt\<rparr>;
               w = w\<lparr>w_store := st\<rparr>
           in (case err of
                 Some e \<Rightarrow> (Some e, s, w)
               | None \<Rightarrow>
                   (case registerTasks E (s_store s) (j_ID job) (j_Tasks job) w of
                      (Some e, w) \<Rightarrow> (Some e, s, w)
                    | (None, w) \<Rightarrow> (None, s\<lparr>s_jobs := (s_jobs s)(j_ID job \<mapsto> job)\<rparr>, w)))))"

subsection \<open>Handling a trigger\<close>

text \<open>The conversion of the listed occurrences; their configuration is left at its zero value.\<close>

definition zeroConfig :: JobConfig where
  "zeroConfig =
     \<lparr>jc_TaskExecutionMode = '''', jc_FailureStrategy = '''', jc_ExecutionTimeout = 0, jc_OverlapPolicy = '''',
      jc_RecoveryStrategy = '''', jc_BoundedWindow = None,
      jc_TaskConfig = \<lparr>tc_FailureStrategy = None, tc_RetryPolicy = None, tc_TaskTimeout = None\<rparr>\<rparr>"

definition fromStorage :: "StoredOccurrence \<Rightarrow> JobOccurrence" where
  "fromStorage storageOcc =
     \<lparr>jo_ID = so_ID storageOcc, jo_JobID = so_JobID storageOcc, jo_JobVersion = so_JobVersion storageOcc,
      jo_ScheduledTime = so_ScheduledTime storageOcc, jo_Status = so_Status storageOcc,
      jo_OwningNodeID = so_OwningNodeID storageOcc, jo_StartTime = so_StartTime storageOcc,
      jo_EndTime = so_EndTime storageOcc, jo_Config = zeroConfig,
      jo_IsRecoveryRun = so_IsRecoveryRun storageOcc, jo_CreatedAt = so_CreatedAt storageOcc,
      jo_UpdatedAt = so_UpdatedAt storageOcc\<rparr>"

definition listRunning :: "('s, 'm) Scheduler \<Rightarrow> ('s, 'm) World \<Rightarrow> JobOccurrence list result" where
  "listRunning s w =
     (case ListRunningOccurrences (s_store s) (w_store w) of
        Inl err \<Rightarrow> Inl err
      | Inr storageOccs \<Rightarrow> Inr (map fromStorage storageOccs))"

text \<open>The first part of \<^verbatim>\<open>handleJobTrigger\<close>: whether it goes on to create the occurrence.\<close>

definition overlapAllows :: "('s, 'm) Scheduler \<Rightarrow> nat Job \<Rightarrow> ('s, 'm) World \<Rightarrow> bool" where
  "overlapAllows s job w =
     (case IsRunning job (listRunning s w) of
        Inl err \<Rightarrow> False
      | Inr isRunning \<Rightarrow>
          if isRunning
          then (let policy = jc_OverlapPolicy (j_Config job)
                in if policy = OverlapPolicySkip then False
                   else if policy = OverlapPolicyQueue then True
                   else if policy = OverlapPolicyAllow then True
                   else True)
          else True)"

definition trigger_occurrence :: "Env \<Rightarrow> nat Job \<Rightarrow> TickContext \<Rightarrow> instant \<Rightarrow> instant \<Rightarrow> JobOccurrence" where
  "trigger_occurrence E job execCtx createdAt updatedAt =
     \<lparr>jo_ID = GenerateJobOccurrenceID (NewSHA1 E) (j_ID job) (instant (x_ScheduledTime execCtx)),
      jo_JobID = j_ID job, jo_JobVersion = j_Version job,
      jo_ScheduledTime = instant (x_ScheduledTime execCtx), jo_Status = JobStatusPending,
      jo_OwningNodeID = '''', jo_StartTime = None, jo_EndTime = None, jo_Config = j_Config job,
      jo_IsRecoveryRun = False, jo_CreatedAt = createdAt, jo_UpdatedAt = updatedAt\<rparr>"

definition trigger_record :: "string \<Rightarrow> blob \<Rightarrow> JobOccurrence \<Rightarrow> StoredOccurrence" where
  "trigger_record nodeID configBytes occurrence =
     \<lparr>so_ID = jo_ID occurrence, so_JobID = jo_JobID occurrence, so_JobVersion = jo_JobVersion occurrence,
      so_ScheduledTime = jo_ScheduledTime occurrence, so_Status = jo_Status occurrence,
      so_OwningNodeID = nodeID, so_StartTime = None, so_EndTime = None, so_Config = Some configBytes,
      so_IsRecoveryRun = jo_IsRecoveryRun occurrence, so_CreatedAt = jo_CreatedAt occurrence,
      so_UpdatedAt = jo_UpdatedAt occurrence\<rparr>"

text \<open>
  The second part: the atomic creation of the occurrence and, for the winner, the function literal
  submitted to the pool, which captures the job and the occurrence.
\<close>

definition claimOccurrence ::
  "Env \<Rightarrow> ('s, 'm) Scheduler \<Rightarrow> nat Job \<Rightarrow> TickContext \<Rightarrow> ('s, 'm) World \<Rightarrow> nat run option \<times> ('s, 'm) World"
where
  "claimOccurrence E s job execCtx w =
     (let (createdAt, w) = time_Now E w;
          (updatedAt, w) = time_Now E w;
          occurrence = trigger_occurrence E job execCtx createdAt updatedAt;
          (err, st) = CreateJobOccurrence (s_store s) (w_store w)
            (trigger_record (NodeID (s_config s)) (ConfigBytes (j_Config job)) occurrence);
          w = w\<lparr>w_store := st\<rparr>
      in (case err of Some e \<Rightarrow> (None, w) | None \<Rightarrow> (Some (job, occurrence), w)))"

text \<open>The call of \<^verbatim>\<open>Submit\<close>, the last action of the function, makes the goroutine a caller of the pool.\<close>

definition submit :: "nat run \<Rightarrow> ('s, 'm) Scheduler \<Rightarrow> ('s, 'm) Scheduler" where
  "submit f s = s\<lparr>s_pool := Pool_Submit f (s_pool s)\<rparr>"

definition handleJobTrigger ::
  "Env \<Rightarrow> nat Job \<Rightarrow> TickContext \<Rightarrow> ('s, 'm) Scheduler \<Rightarrow> ('s, 'm) World
   \<Rightarrow> ('s, 'm) Scheduler \<times> ('s, 'm) World"
where
  "handleJobTrigger E job execCtx s w =
     (if overlapAllows s job w
      then (case claimOccurrence E s job execCtx w of
              (None, w) \<Rightarrow> (s, w)
            | (Some f, w) \<Rightarrow> (submit f s, w))
      else (s, w))"

subsection \<open>Recovery at the start\<close>

text \<open>
  The bounds of the missed times are instants here: the tickers convert them to their own location.
\<close>

definition atUTC :: "instant \<Rightarrow> gotime" where
  "atUTC i = \<lparr>instant = i, loc = UTC\<rparr>"

definition lastRun :: "Env \<Rightarrow> StoredJob \<Rightarrow> ('s, 'm) World \<Rightarrow> gotime \<times> ('s, 'm) World" where
  "lastRun E storageJob w =
     (case sj_LastRunTime storageJob of
        Some t \<Rightarrow> (atUTC t, w)
      | None \<Rightarrow> (let (now, w) = time_Now E w in (atUTC (add_dur now (- 24 * word_of_int Hour)), w)))"

definition recoverJob ::
  "Env \<Rightarrow> (JobOccurrence \<Rightarrow> nat list) \<Rightarrow> ('s, 'm) Scheduler \<Rightarrow> ('s, 'm) RecoveryHandler \<Rightarrow> nat Job
   \<Rightarrow> ('s, 'm) World \<times> nat run WorkerPool
   \<Rightarrow> (error option \<times> ('s, 'm) World \<times> nat run WorkerPool) option"
where
  "recoverJob E sched s recoveryHandler job = (\<lambda>(w, p).
     if \<not> j_Active job then Some (None, w, p)
     else
       (case GetJob (s_store s) (w_store w) (j_ID job) of
          Inl err \<Rightarrow> Some (Some err, w, p)
        | Inr storageJob \<Rightarrow>
            (let (lastRunTime, w) = lastRun E storageJob w;
                 (now, w) = time_Now E w
             in (case s_tickers s (j_Ticker job) of
                   None \<Rightarrow> None
                 | Some tick \<Rightarrow>
                     (case Ticker_GetOccurrencesBetween tick lastRunTime (atUTC now) of
                        Inl err \<Rightarrow> Some (Some err, w, p)
                      | Inr missedTimes \<Rightarrow> ApplyStrategy E sched recoveryHandler job missedTimes (w, p))))))"

fun recoverJobs ::
  "Env \<Rightarrow> (JobOccurrence \<Rightarrow> nat list) \<Rightarrow> ('s, 'm) Scheduler \<Rightarrow> ('s, 'm) RecoveryHandler \<Rightarrow> string list
   \<Rightarrow> ('s, 'm) World \<times> nat run WorkerPool
   \<Rightarrow> (error option \<times> ('s, 'm) World \<times> nat run WorkerPool) option"
where
  "recoverJobs E sched s r [] wp = Some (None, wp)"
| "recoverJobs E sched s r (jobID # order) wp =
     (case s_jobs s jobID of
        None \<Rightarrow> recoverJobs E sched s r order wp
      | Some job \<Rightarrow>
          (case recoverJob E sched s r job wp of
             None \<Rightarrow> None
           | Some (Some err, wp) \<Rightarrow> Some (Some err, wp)
           | Some (None, wp) \<Rightarrow> recoverJobs E sched s r order wp))"

definition performRecovery ::
  "Env \<Rightarrow> (JobOccurrence \<Rightarrow> nat list) \<Rightarrow> string list \<Rightarrow> ('s, 'm) Scheduler \<Rightarrow> ('s, 'm) World
   \<Rightarrow> (error option \<times> ('s, 'm) Scheduler \<times> ('s, 'm) World) option"
where
  "performRecovery E sched order s w =
     (let recoveryHandler = Recovery_SetMetrics (NewRecoveryHandler (s_store s) (s_exec s)) (s_metrics s)
      in map_option (\<lambda>(err, w, p). (err, s\<lparr>s_pool := p\<rparr>, w))
           (recoverJobs E sched s recoveryHandler order (w, s_pool s)))"

subsection \<open>Starting\<close>

text \<open>The tickers of the active jobs that are not paused are started and watched; the error of a ticker
  that does not start is dropped.\<close>

fun startJobs :: "string list \<Rightarrow> ('s, 'm) Scheduler \<Rightarrow> ('s, 'm) Scheduler option" where
  "startJobs [] s = Some s"
| "startJobs (jobID # order) s =
     (case s_jobs s jobID of
        None \<Rightarrow> startJobs order s
      | Some job \<Rightarrow>
          if j_Active job \<and> \<not> j_Paused job
          then (case s_tickers s (j_Ticker job) of
                  None \<Rightarrow> None
                | Some tick \<Rightarrow>
                    (let (err, tick) = Ticker_Start tick
                     in startJobs order (s\<lparr>s_tickers := (s_tickers s)(j_Ticker job \<mapsto> tick),
                                           s_watchers := s_watchers s @ [WatchTop jobID]\<rparr>)))
          else startJobs order s)"

definition Start ::
  "Env \<Rightarrow> (JobOccurrence \<Rightarrow> nat list) \<Rightarrow> string list \<Rightarrow> string list \<Rightarrow> ('s, 'm) Scheduler \<Rightarrow> ('s, 'm) World
   \<Rightarrow> (error option \<times> ('s, 'm) Scheduler \<times> ('s, 'm) World) option"
where
  "Start E sched recoveryOrder startOrder s w =
     (if s_running s then Some (Some ErrSchedulerRunning, s, w)
      else (case performRecovery E sched recoveryOrder s w of
              None \<Rightarrow> None
            | Some (Some err, s, w) \<Rightarrow> Some (Some (ErrWrap ''recovery failed'' err), s, w)
            | Some (None, s, w) \<Rightarrow>
                (let s = s\<lparr>s_reaper := Reaper_Start (s_reaper s)\<rparr>;
                     s = s\<lparr>s_pool := Pool_Start (s_pool s)\<rparr>
                 in map_option (\<lambda>s. (None, s\<lparr>s_running := True\<rparr>, w)) (startJobs startOrder s))))"

subsection \<open>Watching\<close>

fun Ticker_receive :: "Ticker \<Rightarrow> (TickContext \<times> Ticker) option" where
  "Ticker_receive (TCron t) = map_option (\<lambda>(c, t). (c, TCron t)) (receive t)"
| "Ticker_receive (TOnce t) = map_option (\<lambda>(c, t). (c, TOnce t)) (receive t)"
| "Ticker_receive (TISO8601 t) = map_option (\<lambda>(c, t). (c, TISO8601 t)) (receive t)"

text \<open>
  The branches of the select of \<^verbatim>\<open>watchJob\<close>, and going on. The channel is the one the ticker of the job
  had when the select was entered.
\<close>

datatype watch_branch = CtxCanceled | Triggered | GoOn

definition set_watcher :: "nat \<Rightarrow> watcher \<Rightarrow> ('s, 'm) Scheduler \<Rightarrow> ('s, 'm) Scheduler" where
  "set_watcher i v s = s\<lparr>s_watchers := (s_watchers s)[i := v]\<rparr>"

definition watchJob ::
  "Env \<Rightarrow> nat \<Rightarrow> watch_branch \<Rightarrow> ('s, 'm) Scheduler \<Rightarrow> ('s, 'm) World
   \<Rightarrow> (('s, 'm) Scheduler \<times> ('s, 'm) World) option"
where
  "watchJob E i b s w =
     (if i < length (s_watchers s) then
       (case (s_watchers s ! i, b) of
          (WatchTop jobID, GoOn) \<Rightarrow>
            (case s_jobs s jobID of
               None \<Rightarrow> None
             | Some job \<Rightarrow> Some (set_watcher i (Watching jobID (j_Ticker job)) s, w))
        | (Watching jobID a, CtxCanceled) \<Rightarrow>
            (if s_canceled s then Some (set_watcher i Unwatched s, w) else None)
        | (Watching jobID a, Triggered) \<Rightarrow>
            (case (s_jobs s jobID, Option.bind (s_tickers s a) Ticker_receive) of
               (Some job, Some (execCtx, tick)) \<Rightarrow>
                 Some (set_watcher i (if overlapAllows s job w then Claiming jobID execCtx else WatchTop jobID)
                        (s\<lparr>s_tickers := (s_tickers s)(a \<mapsto> tick)\<rparr>), w)
             | _ \<Rightarrow> None)
        | (Claiming jobID execCtx, GoOn) \<Rightarrow>
            (case s_jobs s jobID of
               None \<Rightarrow> None
             | Some job \<Rightarrow>
                 (case claimOccurrence E s job execCtx w of
                    (None, w) \<Rightarrow> Some (set_watcher i (WatchTop jobID) s, w)
                  | (Some f, w) \<Rightarrow>
                      Some (set_watcher i (Submitting jobID (length (p_callers (s_pool s)))) (submit f s), w)))
        | (Submitting jobID c, GoOn) \<Rightarrow>
            (if c < length (p_callers (s_pool s)) \<and> p_callers (s_pool s) ! c = CallReturned
             then Some (set_watcher i (WatchTop jobID) s, w) else None)
        | _ \<Rightarrow> None)
      else None)"

text \<open>
  The function literal a worker, or the caller of \<^verbatim>\<open>Submit\<close>, runs. The job is captured by reference: an
  update between the submission and the run is seen by the run.
\<close>

definition runSubmitted ::
  "Env \<Rightarrow> (JobOccurrence \<Rightarrow> nat list) \<Rightarrow> nat run \<Rightarrow> ('s, 'm) Scheduler \<Rightarrow> ('s, 'm) World \<Rightarrow> ('s, 'm) World option"
where
  "runSubmitted E sched f s w =
     (case f of (job, occurrence) \<Rightarrow>
        run_closure E (s_exec s) sched
          (case s_jobs s (j_ID job) of Some current \<Rightarrow> current | None \<Rightarrow> job, occurrence) w)"

subsection \<open>Shutting down\<close>

fun stopTickers :: "string list \<Rightarrow> ('s, 'm) Scheduler \<Rightarrow> ('s, 'm) Scheduler option" where
  "stopTickers [] s = Some s"
| "stopTickers (jobID # order) s =
     (case s_jobs s jobID of
        None \<Rightarrow> stopTickers order s
      | Some job \<Rightarrow>
          (case Option.bind (s_tickers s (j_Ticker job)) Ticker_Stop of
             None \<Rightarrow> None
           | Some tick \<Rightarrow> stopTickers order (s\<lparr>s_tickers := (s_tickers s)(j_Ticker job \<mapsto> tick)\<rparr>)))"

text \<open>\<^verbatim>\<open>Shutdown\<close> up to the wait for the watchers; a scheduler that does not run returns at once.\<close>

definition Shutdown :: "string list \<Rightarrow> ('s, 'm) Scheduler \<Rightarrow> ('s, 'm) Scheduler option" where
  "Shutdown order s =
     (if \<not> s_running s then Some s
      else map_option (\<lambda>s. s\<lparr>s_canceled := True, s_shutdown := AwaitingWatchers\<rparr>) (stopTickers order s))"

text \<open>The end of the wait: every watcher has returned, or the timeout has passed.\<close>

definition Shutdown_waited :: "bool \<Rightarrow> ('s, 'm) Scheduler \<Rightarrow> ('s, 'm) Scheduler option" where
  "Shutdown_waited timeout s =
     (if s_shutdown s = AwaitingWatchers \<and> (timeout \<or> (\<forall>v \<in> set (s_watchers s). v = Unwatched))
      then Some (s\<lparr>s_pool := Pool_Stop (s_pool s), s_shutdown := AwaitingPool\<rparr>) else None)"

text \<open>The return of the \<^verbatim>\<open>Stop\<close> of the pool, and the rest.\<close>

definition Shutdown_returns :: "('s, 'm) Scheduler \<Rightarrow> ('s, 'm) Scheduler option" where
  "Shutdown_returns s =
     (if s_shutdown s = AwaitingPool
      then (case (if p_stopping (s_pool s) then Pool_StopReturns (s_pool s) else Some (s_pool s)) of
              None \<Rightarrow> None
            | Some p \<Rightarrow> Some (s\<lparr>s_pool := p, s_reaper := Reaper_Stop (s_reaper s), s_running := False,
                                s_shutdown := NoShutdown\<rparr>))
      else None)"

subsection \<open>Queries and gauges\<close>

definition Scheduler_GetJob :: "('s, 'm) Scheduler \<Rightarrow> string \<Rightarrow> nat Job option" where
  "Scheduler_GetJob s jobID = s_jobs s jobID"

definition Scheduler_ListJobs :: "string list \<Rightarrow> ('s, 'm) Scheduler \<Rightarrow> nat Job list" where
  "Scheduler_ListJobs order s = List.map_filter (s_jobs s) order"

definition updateMetrics :: "string list \<Rightarrow> ('s, 'm) Scheduler \<Rightarrow> ('s, 'm) World \<Rightarrow> ('s, 'm) World" where
  "updateMetrics order s w =
     (let m = w_metrics w;
          m = (case ListRunningOccurrences (s_store s) (w_store w) of
                 Inl err \<Rightarrow> m
               | Inr runningOccs \<Rightarrow> SetJobsRunning (s_metrics s) m (int (length runningOccs)));
          queueLen = Pool_QueueLength (s_pool s);
          m = SetJobsInQueue (s_metrics s) m queueLen;
          pausedCount = int (length (filter j_Paused (Scheduler_ListJobs order s)));
          m = SetJobsPaused (s_metrics s) m pausedCount
      in w\<lparr>w_metrics := m\<rparr>)"

subsection \<open>Updating a job\<close>

text \<open>The map from identifiers to tasks, after the additions, removals and updates.\<close>

definition taskMap :: "Task list \<Rightarrow> string \<rightharpoonup> Task" where
  "taskMap tasks = fold (\<lambda>task m. m(t_ID task \<mapsto> task)) tasks Map.empty"

definition updateTask :: "Task \<Rightarrow> (string \<rightharpoonup> Task) \<Rightarrow> (string \<rightharpoonup> Task)" where
  "updateTask updatedTask m =
     (case m (t_ID updatedTask) of
        None \<Rightarrow> m
      | Some existingTask \<Rightarrow>
          m(t_ID updatedTask \<mapsto> existingTask\<lparr>t_Name := t_Name updatedTask, t_Config := t_Config updatedTask,
                                             t_Order := t_Order updatedTask\<rparr>))"

definition updatedTasks :: "'tk JobUpdate \<Rightarrow> Task list \<Rightarrow> string \<rightharpoonup> Task" where
  "updatedTasks jobUpdate tasks =
     (let m = taskMap tasks;
          m = fold (\<lambda>task m. m(t_ID task \<mapsto> task)) (u_AddedTasks jobUpdate) m;
          m = fold (\<lambda>taskID m. m(taskID := None)) (u_RemovedTaskIDs jobUpdate) m
      in fold updateTask (u_UpdatedTasks jobUpdate) m)"

text \<open>The replacement of the ticker: the old one is stopped, the new one started if the job is to run.\<close>

definition replaceTicker ::
  "bool \<Rightarrow> nat option \<Rightarrow> nat Job \<Rightarrow> (nat \<rightharpoonup> Ticker) \<Rightarrow> (nat Job \<times> (nat \<rightharpoonup> Ticker)) option"
where
  "replaceTicker isRunning newTicker job tickers =
     (case newTicker of
        None \<Rightarrow> Some (job, tickers)
      | Some new \<Rightarrow>
          (case (case tickers (j_Ticker job) of
                   None \<Rightarrow> Some tickers
                 | Some old \<Rightarrow> map_option (\<lambda>old. tickers(j_Ticker job \<mapsto> old)) (Ticker_Stop old)) of
             None \<Rightarrow> None
           | Some tickers \<Rightarrow>
               (let job = job\<lparr>j_Ticker := new\<rparr>
                in if j_Active job \<and> \<not> j_Paused job \<and> isRunning
                   then map_option (\<lambda>tick. (job, tickers(new \<mapsto> snd (Ticker_Start tick)))) (tickers new)
                   else Some (job, tickers))))"

text \<open>
  \<open>order\<close> is the order in which the map of the tasks is iterated: a list of its keys. The new version
  is the 64-bit successor.
\<close>

definition Scheduler_UpdateJob ::
  "Env \<Rightarrow> string list \<Rightarrow> nat JobUpdate \<Rightarrow> ('s, 'm) Scheduler \<Rightarrow> ('s, 'm) World
   \<Rightarrow> (error option \<times> ('s, 'm) Scheduler \<times> ('s, 'm) World) option"
where
  "Scheduler_UpdateJob E order jobUpdate s w =
     (case s_jobs s (u_JobID jobUpdate) of
        None \<Rightarrow> Some (Some (ErrJobNotRegistered (u_JobID jobUpdate)), s, w)
      | Some job \<Rightarrow>
          if j_Version job \<noteq> u_ExpectedVersion jobUpdate
          then Some (Some (ErrVersionMismatch (u_ExpectedVersion jobUpdate) (j_Version job)), s, w)
          else
            (case ApplyUpdate E (NewUpdateManager (s_store s)) jobUpdate w of
               (Some err, w) \<Rightarrow> Some (Some (ErrWrap ''failed to apply update'' err), s, w)
             | (None, w) \<Rightarrow>
                 (let job = (case u_NewConfig jobUpdate of None \<Rightarrow> job | Some cfg \<Rightarrow> job\<lparr>j_Config := cfg\<rparr>)
                  in (case replaceTicker (s_running s) (u_NewTicker jobUpdate) job (s_tickers s) of
                        None \<Rightarrow> None
                      | Some (job, tickers) \<Rightarrow>
                          (let newTasks = List.map_filter (updatedTasks jobUpdate (j_Tasks job)) order;
                               job = job\<lparr>j_Tasks := newTasks, j_Version := next_version (j_Version job)\<rparr>
                           in Some (None, s\<lparr>s_jobs := (s_jobs s)(u_JobID jobUpdate \<mapsto> job),
                                           s_tickers := tickers\<rparr>, w))))))"

end
