(* ===== verification/SchedulerTriggers.thy ===== *)
theory SchedulerTriggers
  imports Scheduler
begin

text \<open>
  What a trigger does: the overlap check, the creation of the occurrence that decides which node runs
  it, and the submission. The lemmas about one trigger are proved against the storage contract; the
  properties are about the BadgerDB storage.
\<close>

subsection \<open>The overlap check\<close>

text \<open>Whether an occurrence of the job is recorded as running.\<close>

definition job_running :: "AStore \<Rightarrow> string \<Rightarrow> bool" where
  "job_running a j \<longleftrightarrow> (\<exists>oc \<in> ran (a_occs a). so_JobID oc = j \<and> so_Status oc = JobStatusRunning)"

context reliable_storage
begin

lemma overlapAllows_iff:
  assumes "s_store s = S" "invar (w_store w)"
  shows "overlapAllows s job w \<longleftrightarrow>
    \<not> (job_running (abs (w_store w)) (j_ID job) \<and> jc_OverlapPolicy (j_Config job) = OverlapPolicySkip)"
proof -
  obtain occs where l: "ListRunningOccurrences S (w_store w) = Inr occs"
    using ListRunningOccurrences_ok [OF assms(2)] by blast
  have "set occs = {oc \<in> ran (a_occs (abs (w_store w))). so_Status oc = JobStatusRunning}"
    using ListRunningOccurrences_law [OF assms(2)] l by (simp add: list_spec_def)
  then have "IsRunning job (listRunning s w) = Inr (job_running (abs (w_store w)) (j_ID job))"
    using l assms(1) by (auto simp: IsRunning_def listRunning_def fromStorage_def job_running_def)
  then show ?thesis by (simp add: overlapAllows_def Let_def)
qed

end

subsection \<open>The claim\<close>

definition trigger_key :: "Env \<Rightarrow> nat Job \<Rightarrow> TickContext \<Rightarrow> string \<times> string" where
  "trigger_key E job execCtx = occ_of E job (x_ScheduledTime execCtx)"

abbreviation claimed :: "Env \<Rightarrow> nat Job \<Rightarrow> TickContext \<Rightarrow> nat \<Rightarrow> JobOccurrence" where
  "claimed E job execCtx n \<equiv> trigger_occurrence E job execCtx (Now E n) (Now E (Suc n))"

abbreviation claim_record :: "('s, 'm) Scheduler \<Rightarrow> nat Job \<Rightarrow> JobOccurrence \<Rightarrow> StoredOccurrence" where
  "claim_record s job oc \<equiv> trigger_record (NodeID (s_config s)) (ConfigBytes (j_Config job)) oc"

lemma claim_keys:
  assumes "uuid_text (NewSHA1 E)" "job_id_ok (j_ID job)"
  shows "job_id_ok (so_JobID (claim_record s job (claimed E job x n)))"
    "occ_id_ok (so_ID (claim_record s job (claimed E job x n)))"
    "occ_key (claim_record s job (claimed E job x n)) = trigger_key E job x"
  using assms generated_ids_ok [OF assms(1)]
  by (simp_all add: trigger_record_def trigger_occurrence_def trigger_key_def occ_of_def)

lemma claim_times:
  assumes "clock_ok E" "year_ok (instant (x_ScheduledTime x))"
  shows "occ_times_ok (claim_record s job (claimed E job x n))"
  using assms by (simp add: trigger_record_def trigger_occurrence_def occ_times_ok_def opt_year_ok_def clock_ok_def)

lemma claimOccurrence_alt:
  "claimOccurrence E s job x w =
     (case CreateJobOccurrence (s_store s) (w_store w) (claim_record s job (claimed E job x (w_clock w))) of
        (err, st) \<Rightarrow> (if err = None then Some (job, claimed E job x (w_clock w)) else None,
                     w\<lparr>w_clock := Suc (Suc (w_clock w)), w_store := st\<rparr>))"
  by (simp add: claimOccurrence_def time_Now_def Let_def split: prod.splits option.splits)

context storage
begin

text \<open>Also on a store that fails: the winner found no record and left its own; a loser left the store as it was.\<close>

lemma claimOccurrence_spec:
  assumes st: "s_store s = S" and ids: "uuid_text (NewSHA1 E)" "job_id_ok (j_ID job)" and inv: "invar (w_store w)"
    and run: "claimOccurrence E s job x w = (r, w')"
  shows "invar (w_store w')"
    "abs (w_store w') = (case r of
       None \<Rightarrow> abs (w_store w)
     | Some f \<Rightarrow> (abs (w_store w))\<lparr>a_occs := (a_occs (abs (w_store w)))(trigger_key E job x \<mapsto>
         claim_record s job (claimed E job x (w_clock w)))\<rparr>)"
    "r \<noteq> None \<Longrightarrow> a_occs (abs (w_store w)) (trigger_key E job x) = None
       \<and> r = Some (job, claimed E job x (w_clock w))"
proof -
  let ?rec = "claim_record s job (claimed E job x (w_clock w))"
  note keys = claim_keys [OF ids, where s = s and x = x and n = "w_clock w"]
  obtain err st' where c: "CreateJobOccurrence S (w_store w) ?rec = (err, st')"
    by (cases "CreateJobOccurrence S (w_store w) ?rec")
  have r: "r = (if err = None then Some (job, claimed E job x (w_clock w)) else None)" "w_store w' = st'"
    using run c st by (auto simp: claimOccurrence_alt)
  note law = CreateJobOccurrence_law [OF inv keys(1,2) c, unfolded keys(3)]
  show "invar (w_store w')" using law r(2) by simp
  have eq: "abs st' = (abs (w_store w))\<lparr>a_occs := a_occs (abs st')\<rparr>" using law by blast
  have spec: "create_spec (a_occs (abs (w_store w))) (trigger_key E job x) ?rec (ErrOccurrenceExists (so_ID ?rec)) err
      (a_occs (abs st'))" using law by blast
  show "abs (w_store w') = (case r of None \<Rightarrow> abs (w_store w)
     | Some f \<Rightarrow> (abs (w_store w))\<lparr>a_occs := (a_occs (abs (w_store w)))(trigger_key E job x \<mapsto> ?rec)\<rparr>)"
  proof (cases err)
    case None
    then have "a_occs (abs st') = (a_occs (abs (w_store w)))(trigger_key E job x \<mapsto> ?rec)"
      using spec by (simp add: create_spec_def)
    then show ?thesis using eq None r by simp
  next
    case (Some e)
    then have "a_occs (abs st') = a_occs (abs (w_store w))" using spec by (simp add: create_spec_def)
    then show ?thesis using eq Some r by simp
  qed
  show "r \<noteq> None \<Longrightarrow> a_occs (abs (w_store w)) (trigger_key E job x) = None
       \<and> r = Some (job, claimed E job x (w_clock w))"
    using spec r(1) by (auto simp: create_spec_def split: if_splits)
qed

end

context reliable_storage
begin

lemma claimOccurrence_wins:
  assumes st: "s_store s = S" and ids: "uuid_text (NewSHA1 E)" "job_id_ok (j_ID job)" and inv: "invar (w_store w)"
    and t: "clock_ok E" "year_ok (instant (x_ScheduledTime x))" and run: "claimOccurrence E s job x w = (r, w')"
  shows "r \<noteq> None \<longleftrightarrow> a_occs (abs (w_store w)) (trigger_key E job x) = None"
proof -
  let ?rec = "claim_record s job (claimed E job x (w_clock w))"
  note keys = claim_keys [OF ids, where s = s and x = x and n = "w_clock w"]
  have "fst (CreateJobOccurrence S (w_store w) ?rec) = None \<longleftrightarrow> a_occs (abs (w_store w)) (trigger_key E job x) = None"
    using CreateJobOccurrence_ok [OF inv keys(1,2) claim_times [OF t]] unfolding keys(3) by simp
  then show ?thesis using run st by (auto simp: claimOccurrence_alt split: prod.splits if_splits)
qed

end

subsection \<open>One trigger\<close>

text \<open>What a trigger leaves: the record of the winner, and the call of \<^verbatim>\<open>Submit\<close> with its execution.\<close>

definition triggered :: "Env \<Rightarrow> nat Job \<Rightarrow> TickContext \<Rightarrow> ('s, 'm) Scheduler \<Rightarrow> AStore \<Rightarrow> ('s, 'm) Scheduler \<Rightarrow> AStore \<Rightarrow> bool"
where
  "triggered E job x s a s' a' \<longleftrightarrow>
     (\<exists>oc rec. s' = s\<lparr>s_pool := (s_pool s)\<lparr>p_callers := p_callers (s_pool s) @ [AtLock (job, oc)]\<rparr>\<rparr>
        \<and> a' = a\<lparr>a_occs := (a_occs a)(trigger_key E job x \<mapsto> rec)\<rparr>
        \<and> joc_key oc = trigger_key E job x \<and> jo_Config oc = j_Config job
        \<and> so_Status rec = JobStatusPending \<and> so_OwningNodeID rec = NodeID (s_config s)
        \<and> so_ScheduledTime rec = instant (x_ScheduledTime x) \<and> so_JobVersion rec = j_Version job
        \<and> so_Config rec = Some (ConfigBytes (j_Config job)) \<and> \<not> so_IsRecoveryRun rec)"

context reliable_storage
begin

lemma handleJobTrigger_decides:
  assumes st: "s_store s = S" and ids: "uuid_text (NewSHA1 E)" "job_id_ok (j_ID job)" and inv: "invar (w_store w)"
    and t: "clock_ok E" "year_ok (instant (x_ScheduledTime x))" and run: "handleJobTrigger E job x s w = (s', w')"
  shows "invar (w_store w')
    \<and> (if job_running (abs (w_store w)) (j_ID job) \<and> jc_OverlapPolicy (j_Config job) = OverlapPolicySkip
          \<or> a_occs (abs (w_store w)) (trigger_key E job x) \<noteq> None
       then s' = s \<and> abs (w_store w') = abs (w_store w)
       else triggered E job x s (abs (w_store w)) s' (abs (w_store w')))"
proof (cases "overlapAllows s job w")
  case False
  then show ?thesis using run inv overlapAllows_iff [OF st inv] by (simp add: handleJobTrigger_def)
next
  case True
  obtain r w1 where c: "claimOccurrence E s job x w = (r, w1)" by (cases "claimOccurrence E s job x w")
  have sw: "s' = (case r of None \<Rightarrow> s | Some f \<Rightarrow> submit f s)" "w' = w1"
    using run True c by (auto simp: handleJobTrigger_def split: option.splits)
  note spec = claimOccurrence_spec [OF st ids inv c] and wins = claimOccurrence_wins [OF st ids inv t c]
  show ?thesis
  proof (cases r)
    case None
    then show ?thesis using spec(1,2) wins sw by (simp del: not_None_eq)
  next
    case (Some f)
    have "triggered E job x s (abs (w_store w)) s' (abs (w_store w'))"
      unfolding triggered_def using sw spec(2,3) Some
      by (intro exI [of _ "claimed E job x (w_clock w)"] exI [of _ "claim_record s job (claimed E job x (w_clock w))"])
        (simp add: submit_def Pool_Submit_def trigger_occurrence_def trigger_record_def trigger_key_def occ_of_def)
    moreover have "\<not> (job_running (abs (w_store w)) (j_ID job) \<and> jc_OverlapPolicy (j_Config job) = OverlapPolicySkip)"
      using True unfolding overlapAllows_iff [OF st inv] .
    ultimately show ?thesis using spec(1) wins sw Some by auto
  qed
qed

end

subsection \<open>Properties\<close>

text \<open>Two nodes on the in-memory database, and their job.\<close>

definition sample_node :: "string \<Rightarrow> (mem, unit) Scheduler" where
  "sample_node n = NewScheduler \<lparr>MaxConcurrentJobs = 1, ReaperInterval = 0, NodeID = n\<rparr> NilMetrics mem_storage Map.empty"

definition sample_watched :: "nat Job" where
  "sample_watched =
     \<lparr>j_ID = ''job_1'', j_Name = ''nightly'', j_Config = j_Config (sample_job TaskExecutionModeSequential), j_Ticker = 0,
      j_Tasks = [sample_task ''a'', sample_task ''b''], j_Version = 1, j_Active = True, j_Paused = False,
      j_OnStart = False, j_OnComplete = False\<rparr>"

definition sample_tick :: TickContext where
  "sample_tick = \<lparr>x_ScheduledTime = atUTC 0, x_ActualTime = atUTC 0, x_LastRunTime = None\<rparr>"

definition empty_world :: "(mem, unit) World" where
  "empty_world = sample_world\<lparr>w_store := []\<rparr>"

lemma sample_node_ok:
  "s_store (sample_node n) = mem_storage" "job_id_ok (j_ID sample_watched)" "keys_ok (map_of (w_store empty_world))"
  using sample_job_id_ok empty_store(1)
  by (simp_all add: sample_node_def NewScheduler_def sample_watched_def empty_world_def)

text \<open>
  C6. A trigger on a BadgerDB that does not fail: if an occurrence of the job is running and its overlap
  policy is Skip, or if the occurrence is already recorded, nothing changes. Otherwise the store gets
  exactly one new record, a pending occurrence that names this node and carries the version and
  configuration of the job, and the pool gets one call of \<^verbatim>\<open>Submit\<close> with this occurrence. The policies
  Allow and Queue (and any other) are treated alike.
\<close>

theorem trigger_decides:
  assumes "badger_db_reliable B contents" "s_store s = BadgerStorage B" "uuid_text (NewSHA1 E)" "job_id_ok (j_ID job)"
    and "keys_ok (contents (w_store w))" "clock_ok E" "year_ok (instant (x_ScheduledTime x))"
    and "handleJobTrigger E job x s w = (s', w')"
  shows "keys_ok (contents (w_store w'))
    \<and> (if job_running (abs_of (contents (w_store w))) (j_ID job) \<and> jc_OverlapPolicy (j_Config job) = OverlapPolicySkip
          \<or> a_occs (abs_of (contents (w_store w))) (trigger_key E job x) \<noteq> None
       then s' = s \<and> abs_of (contents (w_store w')) = abs_of (contents (w_store w))
       else triggered E job x s (abs_of (contents (w_store w))) s' (abs_of (contents (w_store w'))))"
  by (rule reliable_storage.handleJobTrigger_decides
      [OF badger_db_reliable.implements_reliable_storage [OF assms(1)] assms(2-)])

theorem trigger_decides_witness:
  "\<exists>s' w'. handleJobTrigger sample_env sample_watched sample_tick (sample_node ''n1'') empty_world = (s', w')
     \<and> (\<exists>oc. p_callers (s_pool s') = [AtLock (sample_watched, oc)])
     \<and> (\<exists>rec. a_occs (abs_of (map_of (w_store w'))) (trigger_key sample_env sample_watched sample_tick) = Some rec
          \<and> so_OwningNodeID rec = ''n1'')"
proof -
  obtain s' w' where run: "handleJobTrigger sample_env sample_watched sample_tick (sample_node ''n1'') empty_world = (s', w')"
    by fastforce
  have y: "year_ok (instant (x_ScheduledTime sample_tick))" unfolding sample_tick_def atUTC_def by code_simp
  have none: "a_occs (abs_of (map_of (w_store empty_world))) k = None" for k
    using empty_store(2) by (simp add: empty_world_def)
  have "\<not> job_running (abs_of (map_of (w_store empty_world))) (j_ID sample_watched)"
    using none by (auto simp: job_running_def ran_def)
  with trigger_decides [OF mem.badger_db_reliable_axioms sample_node_ok(1) sample_env_ok(1) sample_node_ok(2,3)
      sample_env_ok(2) y run] none
  have "triggered sample_env sample_watched sample_tick (sample_node ''n1'') (abs_of (map_of (w_store empty_world)))
      s' (abs_of (map_of (w_store w')))" by simp
  then show ?thesis using run
    by (auto simp: triggered_def sample_node_def NewScheduler_def NewWorkerPool_def)
qed

end
