(* ===== verification/SchedulerJobs.thy ===== *)
theory SchedulerJobs
  imports SchedulerTriggers
begin

text \<open>
  Registering and updating a job: what the store and the memory of the scheduler hold afterwards, on
  success and on every error, and how the versions of the two stay together or part.
\<close>

subsection \<open>Registering\<close>

definition stored_as_job :: "nat Job \<Rightarrow> StoredJob \<Rightarrow> bool" where
  "stored_as_job job rec \<longleftrightarrow>
     sj_ID rec = j_ID job \<and> sj_Name rec = j_Name job \<and> sj_Config rec = Some (ConfigBytes (j_Config job))
     \<and> sj_Version rec = j_Version job \<and> sj_Active rec = j_Active job \<and> sj_Paused rec = j_Paused job
     \<and> sj_LastRunTime rec = None"

definition stored_as_task :: "string \<Rightarrow> Task \<Rightarrow> StoredTask \<Rightarrow> bool" where
  "stored_as_task jobID task rec \<longleftrightarrow>
     task_key rec = (jobID, t_ID task) \<and> st_Name rec = t_Name task
     \<and> st_Config rec = Some (TaskConfigBytes (t_Config task)) \<and> st_Order rec = t_Order task"

text \<open>The store after the tasks of a job have been added to it.\<close>

definition tasks_added :: "string \<Rightarrow> Task list \<Rightarrow> AStore \<Rightarrow> AStore \<Rightarrow> bool" where
  "tasks_added jobID tasks a a' \<longleftrightarrow>
     a' = a\<lparr>a_tasks := a_tasks a'\<rparr>
     \<and> (\<forall>k. k \<notin> (\<lambda>t. (jobID, t_ID t)) ` set tasks \<longrightarrow> a_tasks a' k = a_tasks a k)
     \<and> (\<forall>t \<in> set tasks. \<exists>rec. a_tasks a' (jobID, t_ID t) = Some rec \<and> stored_as_task jobID t rec)"

definition tasks_fresh :: "string \<Rightarrow> Task list \<Rightarrow> AStore \<Rightarrow> bool" where
  "tasks_fresh jobID tasks a \<longleftrightarrow>
     distinct (map t_ID tasks) \<and> (\<forall>t \<in> set tasks. a_tasks a (jobID, t_ID t) = None)"

lemma tasks_added_other:
  "tasks_added j ts a a' \<Longrightarrow> k \<notin> (\<lambda>t. (j, t_ID t)) ` set ts \<Longrightarrow> a_tasks a' k = a_tasks a k"
  unfolding tasks_added_def by blast

lemma tasks_added_Cons:
  assumes b: "b = a\<lparr>a_tasks := (a_tasks a)((j, t_ID t) \<mapsto> rec)\<rparr>" and rec: "stored_as_task j t rec"
    and rest: "tasks_added j ts b c" and new: "t_ID t \<notin> t_ID ` set ts"
  shows "tasks_added j (t # ts) a c"
proof -
  have eq: "c = a\<lparr>a_tasks := a_tasks c\<rparr>"
    using rest unfolding tasks_added_def b by (metis AStore.surjective AStore.update_convs(2))
  have at_t: "a_tasks c (j, t_ID t) = Some rec"
    using tasks_added_other [OF rest, of "(j, t_ID t)"] new unfolding b by auto
  have "a_tasks c k = a_tasks a k" if "k \<notin> (\<lambda>t. (j, t_ID t)) ` set (t # ts)" for k
  proof -
    have "k \<notin> (\<lambda>t. (j, t_ID t)) ` set ts" "k \<noteq> (j, t_ID t)" using that by simp_all
    then show ?thesis using tasks_added_other [OF rest, of k] unfolding b by simp
  qed
  moreover have "\<exists>rec. a_tasks c (j, t_ID t') = Some rec \<and> stored_as_task j t' rec" if "t' \<in> set (t # ts)" for t'
    using that at_t rec rest unfolding tasks_added_def by auto
  ultimately show ?thesis using eq unfolding tasks_added_def by blast
qed

context reliable_storage
begin

lemma registerTasks_spec:
  assumes "job_id_ok j" "clock_ok E" "\<forall>t \<in> set tasks. task_id_ok (t_ID t)" "invar (w_store w)"
    "registerTasks E S j tasks w = (r, w')"
  shows "invar (w_store w') \<and> a_jobs (abs (w_store w')) = a_jobs (abs (w_store w))
    \<and> (if tasks_fresh j tasks (abs (w_store w))
       then r = None \<and> tasks_added j tasks (abs (w_store w)) (abs (w_store w')) else r \<noteq> None)"
  using assms(3-)
proof (induction tasks arbitrary: w)
  case Nil
  then show ?case by (simp add: tasks_fresh_def tasks_added_def)
next
  case (Cons t ts)
  let ?a = "abs (w_store w)"
  let ?t = "\<lparr>st_ID = t_ID t, st_JobID = j, st_Name = t_Name t, st_Config = Some (TaskConfigBytes (t_Config t)),
             st_Order = t_Order t, st_CreatedAt = Now E (w_clock w), st_UpdatedAt = Now E (Suc (w_clock w))\<rparr>"
  obtain err s' where c: "CreateTask S (w_store w) ?t = (err, s')" by (cases "CreateTask S (w_store w) ?t")
  have ids: "job_id_ok (st_JobID ?t)" "task_id_ok (st_ID ?t)" using assms(1) Cons.prems(1) by simp_all
  have "task_times_ok ?t" using assms(2) by (simp add: task_times_ok_def clock_ok_def)
  from CreateTask_ok [OF Cons.prems(2) ids this] c
  have err: "err = None \<longleftrightarrow> a_tasks ?a (j, t_ID t) = None" by (simp split: if_splits)
  note law = CreateTask_law [OF Cons.prems(2) ids c]
  have eq: "abs s' = ?a\<lparr>a_tasks := a_tasks (abs s')\<rparr>" using law by blast
  show ?case
  proof (cases err)
    case (Some e)
    then have "w_store w' = s'" "r = Some e" using Cons.prems(3) c by (auto simp: time_Now_def)
    moreover have "a_jobs (abs s') = a_jobs ?a" using eq by (metis AStore.select_convs(1) AStore.surjective AStore.update_convs(2))
    moreover have "\<not> tasks_fresh j (t # ts) ?a" using err Some by (simp add: tasks_fresh_def)
    ultimately show ?thesis using law by simp
  next
    case None
    let ?w = "w\<lparr>w_clock := Suc (Suc (w_clock w)), w_store := s'\<rparr>"
    have run: "registerTasks E S j ts ?w = (r, w')" using Cons.prems(3) c None by (simp add: time_Now_def)
    have "a_tasks (abs s') = (a_tasks ?a)((j, t_ID t) \<mapsto> ?t)" using law None by (simp add: create_spec_def)
    then have b: "abs (w_store ?w) = ?a\<lparr>a_tasks := (a_tasks ?a)((j, t_ID t) \<mapsto> ?t)\<rparr>" using eq by simp
    have inv: "invar (w_store ?w)" and ids': "\<forall>t \<in> set ts. task_id_ok (t_ID t)" using law Cons.prems(1) by simp_all
    note IH = Cons.IH [OF ids' inv run]
    have free: "a_tasks ?a (j, t_ID t) = None" using err None by simp
    have fresh: "tasks_fresh j (t # ts) ?a \<longleftrightarrow> tasks_fresh j ts (abs (w_store ?w))"
      unfolding b tasks_fresh_def using free by (auto simp: image_iff)
    have "t_ID t \<notin> t_ID ` set ts" if "tasks_fresh j (t # ts) ?a" using that by (auto simp: tasks_fresh_def)
    then show ?thesis unfolding fresh
      using IH tasks_added_Cons [OF b, of ts "abs (w_store w')"] b by (auto simp: stored_as_task_def fresh)
  qed
qed

end

definition registered :: "nat Job \<Rightarrow> AStore \<Rightarrow> AStore \<Rightarrow> bool" where
  "registered job a a' \<longleftrightarrow>
     (\<exists>rec. stored_as_job job rec \<and> tasks_added (j_ID job) (j_Tasks job) (a\<lparr>a_jobs := (a_jobs a)(j_ID job \<mapsto> rec)\<rparr>) a')"

definition job_ids_ok :: "'tk Job \<Rightarrow> bool" where
  "job_ids_ok job \<longleftrightarrow> job_id_ok (j_ID job) \<and> (\<forall>t \<in> set (j_Tasks job). task_id_ok (t_ID t))"

text \<open>The outcome \<open>r\<close> of registering a job: the state of the scheduler and the store before and after.\<close>

definition registration ::
  "nat Job \<Rightarrow> error option \<Rightarrow> ('s, 'm) Scheduler \<Rightarrow> AStore \<Rightarrow> ('s, 'm) Scheduler \<Rightarrow> AStore \<Rightarrow> bool"
where
  "registration job r s a s' a' \<longleftrightarrow>
     (if s_jobs s (j_ID job) \<noteq> None then r = Some (ErrJobRegistered (j_ID job)) \<and> s' = s \<and> a' = a
      else if a_jobs a (j_ID job) \<noteq> None then r = Some (ErrJobExists (j_ID job)) \<and> s' = s \<and> a' = a
      else if tasks_fresh (j_ID job) (j_Tasks job) a
      then r = None \<and> s' = s\<lparr>s_jobs := (s_jobs s)(j_ID job \<mapsto> job)\<rparr> \<and> registered job a a'
      else r \<noteq> None \<and> s' = s \<and> a_jobs a' (j_ID job) \<noteq> None)"

context reliable_storage
begin

lemma RegisterJob_spec:
  assumes st: "s_store s = S" and ids: "job_ids_ok job" and clk: "clock_ok E" and inv: "invar (w_store w)"
    and run: "RegisterJob E job s w = (r, s', w')"
  shows "invar (w_store w') \<and> registration job r s (abs (w_store w)) s' (abs (w_store w'))"
proof (cases "s_jobs s (j_ID job)")
  case (Some old)
  then show ?thesis using run inv by (auto simp: RegisterJob_def registration_def)
next
  case new: None
  let ?a = "abs (w_store w)" and ?i = "j_ID job"
  let ?rec = "\<lparr>sj_ID = ?i, sj_Name = j_Name job, sj_ScheduleType = ''cron'', sj_ScheduleConfig = None,
    sj_Config = Some (ConfigBytes (j_Config job)), sj_Version = j_Version job, sj_Active = j_Active job,
    sj_Paused = j_Paused job, sj_LastRunTime = None, sj_CreatedAt = Now E (w_clock w),
    sj_UpdatedAt = Now E (Suc (w_clock w))\<rparr>"
  obtain err s1 where c: "CreateJob S (w_store w) ?rec = (err, s1)" by (cases "CreateJob S (w_store w) ?rec")
  have j: "job_id_ok (sj_ID ?rec)" and t: "\<forall>t \<in> set (j_Tasks job). task_id_ok (t_ID t)"
    using ids by (simp_all add: job_ids_ok_def)
  have "job_times_ok ?rec" using clk by (simp add: job_times_ok_def opt_year_ok_def clock_ok_def)
  from CreateJob_ok [OF inv j this] c
  have err: "err = (if a_jobs ?a ?i = None then None else Some (ErrJobExists ?i))" by simp
  note law = CreateJob_law [OF inv j c]
  have eq: "abs s1 = ?a\<lparr>a_jobs := a_jobs (abs s1)\<rparr>" using law by blast
  let ?w = "w\<lparr>w_clock := Suc (Suc (w_clock w)), w_store := s1\<rparr>"
  show ?thesis
  proof (cases "a_jobs ?a ?i")
    case (Some old)
    then have "a_jobs (abs s1) = a_jobs ?a" using law err by (simp add: create_spec_def)
    then have "abs s1 = ?a" using eq by simp
    moreover have "r = Some (ErrJobExists ?i) \<and> s' = s \<and> w_store w' = s1"
      using run new c st err Some by (auto simp: RegisterJob_def time_Now_def)
    ultimately show ?thesis using law new Some by (simp add: registration_def)
  next
    case None
    then have "a_jobs (abs s1) = (a_jobs ?a)(?i \<mapsto> ?rec)" using law err by (simp add: create_spec_def)
    then have b: "abs s1 = ?a\<lparr>a_jobs := (a_jobs ?a)(?i \<mapsto> ?rec)\<rparr>" using eq by simp
    obtain rt wt where tasks: "registerTasks E S ?i (j_Tasks job) ?w = (rt, wt)"
      by (cases "registerTasks E S ?i (j_Tasks job) ?w")
    have inv1: "invar (w_store ?w)" using law by simp
    have out: "(r, s', w') = (case rt of Some e \<Rightarrow> (Some e, s, wt) | None \<Rightarrow> (None, s\<lparr>s_jobs := (s_jobs s)(?i \<mapsto> job)\<rparr>, wt))"
      using run new c st err None tasks by (auto simp: RegisterJob_def time_Now_def split: option.splits)
    note spec = registerTasks_spec [OF j [simplified] clk t inv1 tasks]
    have fresh: "tasks_fresh ?i (j_Tasks job) (abs (w_store ?w)) \<longleftrightarrow> tasks_fresh ?i (j_Tasks job) ?a"
      unfolding World.select_convs World.update_convs b by (simp add: tasks_fresh_def b)
    have "a_jobs (abs (w_store wt)) ?i \<noteq> None" using spec b by simp
    moreover have "stored_as_job job ?rec" by (simp add: stored_as_job_def)
    ultimately show ?thesis using spec out new None b fresh unfolding registration_def registered_def
      by (cases rt) (auto split: if_splits)
  qed
qed

end

subsection \<open>The tasks of an updated job\<close>

definition keyed :: "(string \<rightharpoonup> Task) \<Rightarrow> bool" where
  "keyed m \<longleftrightarrow> (\<forall>i t. m i = Some t \<longrightarrow> t_ID t = i)"

lemma fold_add_tasks:
  "dom (fold (\<lambda>t m. m(t_ID t \<mapsto> t)) ts m) = dom m \<union> t_ID ` set ts
   \<and> (keyed m \<longrightarrow> keyed (fold (\<lambda>t m. m(t_ID t \<mapsto> t)) ts m))"
proof (induction ts arbitrary: m)
  case (Cons t ts)
  have "keyed m \<Longrightarrow> keyed (m(t_ID t \<mapsto> t))" by (simp add: keyed_def)
  then show ?case using Cons [of "m(t_ID t \<mapsto> t)"] by (simp del: fun_upd_apply)
qed simp

lemma fold_remove_tasks:
  "dom (fold (\<lambda>i m. m(i := None)) ids m) = dom m - set ids
   \<and> (keyed m \<longrightarrow> keyed (fold (\<lambda>i m. m(i := None)) ids m))"
proof (induction ids arbitrary: m)
  case (Cons i ids)
  have "keyed m \<Longrightarrow> keyed (m(i := None))" by (simp add: keyed_def)
  then show ?case using Cons [of "m(i := None)"] by (auto simp del: fun_upd_apply)
qed simp

lemma fold_update_tasks: "dom (fold updateTask us m) = dom m \<and> (keyed m \<longrightarrow> keyed (fold updateTask us m))"
proof (induction us arbitrary: m)
  case (Cons u us)
  have "keyed m \<Longrightarrow> keyed (updateTask u m)" "dom (updateTask u m) = dom m"
    by (auto simp: keyed_def updateTask_def split: option.splits)
  then show ?case using Cons [of "updateTask u m"] by auto
qed simp

lemma updatedTasks_keys:
  "dom (updatedTasks u ts) = (t_ID ` set ts \<union> t_ID ` set (u_AddedTasks u)) - set (u_RemovedTaskIDs u)"
  "keyed (updatedTasks u ts)"
proof -
  have "keyed Map.empty" by (simp add: keyed_def)
  then show "dom (updatedTasks u ts) = (t_ID ` set ts \<union> t_ID ` set (u_AddedTasks u)) - set (u_RemovedTaskIDs u)"
    "keyed (updatedTasks u ts)"
    by (simp_all add: updatedTasks_def taskMap_def Let_def fold_add_tasks fold_remove_tasks fold_update_tasks)
qed

text \<open>The last update of a task decides its name, configuration and order; its function is kept.\<close>

lemma fold_update_last:
  assumes "m i = Some t" "i \<in> t_ID ` set us"
  shows "\<exists>t' u. fold updateTask us m i = Some t' \<and> u \<in> set us \<and> t_ID u = i \<and> t_Name t' = t_Name u
    \<and> t_Config t' = t_Config u \<and> t_Order t' = t_Order u \<and> t_Fn t' = t_Fn t"
  using assms
proof (induction us arbitrary: m t)
  case (Cons u us)
  have step: "fold updateTask (u # us) m i = fold updateTask us (updateTask u m) i" by simp
  have "\<exists>t1. updateTask u m i = Some t1 \<and> t_Fn t1 = t_Fn t
      \<and> (t_ID u = i \<longrightarrow> t_Name t1 = t_Name u \<and> t_Config t1 = t_Config u \<and> t_Order t1 = t_Order u)"
    using Cons.prems(1) by (cases "t_ID u = i") (auto simp: updateTask_def split: option.splits)
  then obtain t1 where t1: "updateTask u m i = Some t1" "t_Fn t1 = t_Fn t"
    "t_ID u = i \<Longrightarrow> t_Name t1 = t_Name u \<and> t_Config t1 = t_Config u \<and> t_Order t1 = t_Order u" by blast
  show ?case
  proof (cases "i \<in> t_ID ` set us")
    case True
    then show ?thesis using Cons.IH [of "updateTask u m" t1, OF t1(1) True] t1(2) unfolding step by auto
  next
    case False
    have "fold updateTask us m' i = m' i" if "i \<notin> t_ID ` set us" for m' us
      using that by (induction us arbitrary: m') (auto simp: updateTask_def split: option.splits)
    then have "fold updateTask us (updateTask u m) i = Some t1" using False t1(1) by simp
    moreover have "t_ID u = i" using False Cons.prems(2) by auto
    ultimately show ?thesis using t1(2,3) unfolding step by auto
  qed
qed simp

lemma map_filter_keyed:
  assumes "keyed m" "distinct order" "set order = dom m"
  shows "map t_ID (List.map_filter m order) = order" "set (List.map_filter m order) = ran m"
proof -
  have ids: "map t_ID (List.map_filter m os) = os" if "set os \<subseteq> dom m" for os
    using that assms(1) by (induction os) (auto simp: List.map_filter_simps keyed_def)
  show "map t_ID (List.map_filter m order) = order" using ids assms(3) by simp
  have "set (List.map_filter m os) = {t. \<exists>i \<in> set os. m i = Some t}" for os
    by (induction os) (auto simp: List.map_filter_simps split: option.splits)
  then show "set (List.map_filter m order) = ran m" using assms(3) by (auto simp: ran_def dom_def)
qed

subsection \<open>The versions in memory and in the store\<close>

definition in_sync :: "('s, 'm) Scheduler \<Rightarrow> AStore \<Rightarrow> bool" where
  "in_sync s a \<longleftrightarrow>
     (\<forall>i job. s_jobs s i = Some job \<longrightarrow> (\<exists>rec. a_jobs a i = Some rec \<and> sj_Version rec = j_Version job))"

text \<open>A job in memory before and after an update.\<close>

definition updated_job :: "nat JobUpdate \<Rightarrow> nat Job \<Rightarrow> nat Job \<Rightarrow> bool" where
  "updated_job u job job' \<longleftrightarrow>
     j_Version job = u_ExpectedVersion u \<and> j_Version job' = next_version (j_Version job)
     \<and> j_ID job' = j_ID job
     \<and> j_Config job' = (case u_NewConfig u of None \<Rightarrow> j_Config job | Some cfg \<Rightarrow> cfg)
     \<and> j_Ticker job' = (case u_NewTicker u of None \<Rightarrow> j_Ticker job | Some new \<Rightarrow> new)
     \<and> distinct (map t_ID (j_Tasks job'))
     \<and> t_ID ` set (j_Tasks job') =
         t_ID ` set (j_Tasks job) \<union> t_ID ` set (u_AddedTasks u) - set (u_RemovedTaskIDs u)
     \<and> (\<forall>t \<in> set (j_Tasks job'). t_ID t \<in> t_ID ` set (u_UpdatedTasks u) \<longrightarrow>
          (\<exists>v \<in> set (u_UpdatedTasks u). t_ID v = t_ID t \<and> t_Name t = t_Name v \<and> t_Config t = t_Config v
             \<and> t_Order t = t_Order v))"

lemma replaceTicker_job:
  "replaceTicker b new job tks = Some (job', tks') \<Longrightarrow>
   job' = job\<lparr>j_Ticker := (case new of None \<Rightarrow> j_Ticker job | Some n \<Rightarrow> n)\<rparr>"
  by (auto simp: replaceTicker_def Let_def split: option.splits if_splits)

lemma UpdateJob_cases:
  assumes "Scheduler_UpdateJob E order u s w = Some (r, s', w')"
  obtains (unregistered) "s_jobs s (u_JobID u) = None" "r = Some (ErrJobNotRegistered (u_JobID u))" "s' = s" "w' = w"
  | (mismatch) job where "s_jobs s (u_JobID u) = Some job" "j_Version job \<noteq> u_ExpectedVersion u"
      "r = Some (ErrVersionMismatch (u_ExpectedVersion u) (j_Version job))" "s' = s" "w' = w"
  | (refused) job e where "s_jobs s (u_JobID u) = Some job" "j_Version job = u_ExpectedVersion u"
      "ApplyUpdate E (NewUpdateManager (s_store s)) u w = (Some e, w')"
      "r = Some (ErrWrap ''failed to apply update'' e)" "s' = s"
  | (applied) job where "s_jobs s (u_JobID u) = Some job" "j_Version job = u_ExpectedVersion u"
      "ApplyUpdate E (NewUpdateManager (s_store s)) u w = (None, w')" "r = None"
      "s' = s\<lparr>s_jobs := s_jobs s', s_tickers := s_tickers s'\<rparr>"
      "s_jobs s' = (s_jobs s)(u_JobID u \<mapsto> job\<lparr>j_Config := (case u_NewConfig u of None \<Rightarrow> j_Config job | Some cfg \<Rightarrow> cfg),
         j_Ticker := (case u_NewTicker u of None \<Rightarrow> j_Ticker job | Some n \<Rightarrow> n),
         j_Tasks := List.map_filter (updatedTasks u (j_Tasks job)) order,
         j_Version := next_version (j_Version job)\<rparr>)"
proof (cases "s_jobs s (u_JobID u)")
  case None
  then have "r = Some (ErrJobNotRegistered (u_JobID u)) \<and> s' = s \<and> w' = w"
    using assms by (simp add: Scheduler_UpdateJob_def)
  then show thesis by (intro that(1) [OF None]) blast+
next
  case (Some job)
  note job = Some
  show thesis
  proof (cases "j_Version job = u_ExpectedVersion u")
    case False
    then have "r = Some (ErrVersionMismatch (u_ExpectedVersion u) (j_Version job)) \<and> s' = s \<and> w' = w"
      using assms Some by (simp add: Scheduler_UpdateJob_def)
    then show thesis by (intro that(2) [OF Some False]) blast+
  next
    case True
    obtain ra wa where a: "ApplyUpdate E (NewUpdateManager (s_store s)) u w = (ra, wa)"
      by (cases "ApplyUpdate E (NewUpdateManager (s_store s)) u w")
    show thesis
    proof (cases ra)
      case (Some e)
      then have "r = Some (ErrWrap ''failed to apply update'' e) \<and> s' = s \<and> w' = wa"
        using assms job True a unfolding Scheduler_UpdateJob_def by simp
      then show thesis using a Some by (intro that(3) [OF job True]) simp_all
    next
      case None
      let ?job = "case u_NewConfig u of None \<Rightarrow> job | Some cfg \<Rightarrow> job\<lparr>j_Config := cfg\<rparr>"
      obtain job' tks where t: "replaceTicker (s_running s) (u_NewTicker u) ?job (s_tickers s) = Some (job', tks)"
        and out: "r = None" "w' = wa" "s' = s\<lparr>s_jobs := s_jobs s', s_tickers := s_tickers s'\<rparr>" "s_jobs s' = (s_jobs s)(u_JobID u \<mapsto> job'\<lparr>j_Tasks :=
            List.map_filter (updatedTasks u (j_Tasks job')) order, j_Version := next_version (j_Version job')\<rparr>)"
        using assms job True a None unfolding Scheduler_UpdateJob_def by (auto simp: Let_def split: option.splits)
      have "s_jobs s' = (s_jobs s)(u_JobID u \<mapsto> job\<lparr>j_Config := (case u_NewConfig u of None \<Rightarrow> j_Config job | Some cfg \<Rightarrow> cfg),
         j_Ticker := (case u_NewTicker u of None \<Rightarrow> j_Ticker job | Some n \<Rightarrow> n),
         j_Tasks := List.map_filter (updatedTasks u (j_Tasks job)) order,
         j_Version := next_version (j_Version job)\<rparr>)"
        using out(4) replaceTicker_job [OF t] by (cases "u_NewConfig u"; cases "u_NewTicker u") simp_all
      then show thesis using a None out(1,2) by (intro that(4) [OF job True _ _ out(3)]) simp_all
    qed
  qed
qed

lemma updatedTasks_job:
  assumes "distinct order" "set order = dom (updatedTasks u (j_Tasks job))" "j_Version job = u_ExpectedVersion u"
  shows "updated_job u job (job\<lparr>j_Config := (case u_NewConfig u of None \<Rightarrow> j_Config job | Some cfg \<Rightarrow> cfg),
         j_Ticker := (case u_NewTicker u of None \<Rightarrow> j_Ticker job | Some n \<Rightarrow> n),
         j_Tasks := List.map_filter (updatedTasks u (j_Tasks job)) order,
         j_Version := next_version (j_Version job)\<rparr>)"
proof -
  let ?m = "updatedTasks u (j_Tasks job)"
  note keys = updatedTasks_keys [of u "j_Tasks job"]
  note new = map_filter_keyed [OF keys(2) assms(1,2)]
  have ids: "t_ID ` set (List.map_filter ?m order) = dom ?m" using arg_cong [OF new(1), of set] assms(2) by simp
  have "\<exists>v \<in> set (u_UpdatedTasks u). t_ID v = t_ID t \<and> t_Name t = t_Name v \<and> t_Config t = t_Config v \<and> t_Order t = t_Order v"
    if t: "t \<in> set (List.map_filter ?m order)" "t_ID t \<in> t_ID ` set (u_UpdatedTasks u)" for t
  proof -
    have mt: "?m (t_ID t) = Some t" using t(1) keys(2) unfolding new(2) by (auto simp: ran_def keyed_def)
    obtain m where m: "?m = fold updateTask (u_UpdatedTasks u) m" by (simp add: updatedTasks_def Let_def)
    obtain t0 where "m (t_ID t) = Some t0" using mt fold_update_tasks [of "u_UpdatedTasks u" m] unfolding m by blast
    from fold_update_last [of m "t_ID t" t0, OF this t(2)] mt show ?thesis unfolding m by auto
  qed
  then show ?thesis using new(1) assms(1,3) ids keys(1) by (simp add: updated_job_def)
qed

context storage
begin

lemma UpdateJob_keeps_sync:
  assumes st: "s_store s = S" and u: "update_ids_ok u" and inv: "invar (w_store w)" and sync: "in_sync s (abs (w_store w))"
    and run: "Scheduler_UpdateJob E order u s w = Some (None, s', w')"
  shows "invar (w_store w') \<and> in_sync s' (abs (w_store w'))"
  using run
proof (cases rule: UpdateJob_cases)
  case (applied job)
  have m: "um_store (NewUpdateManager (s_store s)) = S" using st by (simp add: NewUpdateManager_def)
  from m u inv applied(3) show ?thesis
  proof (cases rule: ApplyUpdate_effect)
    case (written rec rec' b)
    have jobs: "a_jobs (abs (w_store w')) = (a_jobs (abs (w_store w)))(u_JobID u \<mapsto> rec')"
      using written(6,7) by (simp add: below_job_def)
    have "in_sync s' (abs (w_store w'))"
      unfolding in_sync_def applied(6) jobs using sync written(4) applied(2) by (simp add: in_sync_def)
    then show ?thesis using written(3) by blast
  qed simp
qed simp_all

lemma failed_update_parts:
  assumes st: "s_store s = S" and u: "update_ids_ok u" and inv: "invar (w_store w)"
    and run: "Scheduler_UpdateJob E order u s w = Some (Some e, s', w')" and changed: "abs (w_store w') \<noteq> abs (w_store w)"
  shows "s' = s \<and> invar (w_store w') \<and> (\<exists>job rec. s_jobs s (u_JobID u) = Some job \<and>
    a_jobs (abs (w_store w')) (u_JobID u) = Some rec \<and> sj_Version rec \<noteq> j_Version job)"
  using run
proof (cases rule: UpdateJob_cases)
  case (refused job e')
  have m: "um_store (NewUpdateManager (s_store s)) = S" using st by (simp add: NewUpdateManager_def)
  from m u inv refused(3) show ?thesis
  proof (cases rule: ApplyUpdate_effect)
    case (written rec rec' b)
    have "a_jobs (abs (w_store w')) (u_JobID u) = Some rec'" using written(6,7) by (simp add: below_job_def)
    moreover have "sj_Version rec' \<noteq> j_Version job" using written(4) refused(2) next_version_changes by simp
    ultimately show ?thesis using refused(1,5) written(3) by blast
  qed (use changed in simp)
qed (use changed in simp_all)

lemma parted_refuses:
  assumes st: "s_store s = S" and u: "update_ids_ok u" and inv: "invar (w_store w)"
    and parted: "s_jobs s (u_JobID u) = Some job" "a_jobs (abs (w_store w)) (u_JobID u) = Some rec"
      "sj_Version rec \<noteq> j_Version job"
  shows "\<exists>e. Scheduler_UpdateJob E order u s w = Some (Some e, s, w)"
proof (cases "j_Version job = u_ExpectedVersion u")
  case False
  then show ?thesis using parted(1) by (simp add: Scheduler_UpdateJob_def)
next
  case True
  have j: "job_id_ok (u_JobID u)" using u by (simp add: update_ids_ok_def)
  have "\<exists>e. ApplyUpdate E (NewUpdateManager S) u w = (Some e, w)"
  proof (cases "GetJob S (w_store w) (u_JobID u)")
    case (Inl e)
    then show ?thesis by (simp add: ApplyUpdate_def NewUpdateManager_def)
  next
    case (Inr found)
    then have "found = rec" using GetJob_law [OF inv j] parted(2) by (simp add: get_spec_def)
    then show ?thesis using Inr True parted(3) by (simp add: ApplyUpdate_def NewUpdateManager_def)
  qed
  then show ?thesis using True parted(1) st unfolding Scheduler_UpdateJob_def by auto
qed

end

subsection \<open>Properties\<close>

text \<open>
  C21. Registering a job on a BadgerDB that does not fail. A job known to the scheduler or stored before
  is refused and nothing changes. Otherwise, if its tasks are new, the job is registered, and the
  store gains exactly its record and one record for each task, with the fields of the job and the
  tasks. If a task is not new, registering fails with the job stored all the same.
\<close>

theorem register_job:
  assumes "badger_db_reliable B contents" "s_store s = BadgerStorage B" "job_ids_ok job" "clock_ok E"
    and "keys_ok (contents (w_store w))" "RegisterJob E job s w = (r, s', w')"
  shows "keys_ok (contents (w_store w'))
    \<and> registration job r s (abs_of (contents (w_store w))) s' (abs_of (contents (w_store w')))"
  by (rule reliable_storage.RegisterJob_spec
      [OF badger_db_reliable.implements_reliable_storage [OF assms(1)] assms(2-)])

lemma tasks_added_jobs: "tasks_added j ts a a' \<Longrightarrow> a_jobs a' = a_jobs a"
  unfolding tasks_added_def by (metis AStore.select_convs(1) AStore.surjective AStore.update_convs(2))

lemma registered_job: "registered job a a' \<Longrightarrow> \<exists>rec. a_jobs a' (j_ID job) = Some rec \<and> stored_as_job job rec"
  by (auto simp: registered_def dest: tasks_added_jobs)

text \<open>A job with one task of a generated identifier.\<close>

definition sample_registered :: "nat Job" where
  "sample_registered = sample_watched\<lparr>j_Tasks := [(sample_task ''a'')\<lparr>t_ID := GenerateTaskID sample_uuid ''job_1'' ''a''\<rparr>]\<rparr>"

lemma sample_registered_ok: "job_ids_ok sample_registered"
  using sample_job_id_ok generated_ids_ok [OF sample_uuid_text]
  by (simp add: job_ids_ok_def sample_registered_def sample_watched_def)

theorem register_job_witness:
  "\<exists>s' w'. RegisterJob sample_env sample_registered (sample_node ''n1'') empty_world = (None, s', w')
     \<and> s_jobs s' ''job_1'' = Some sample_registered
     \<and> (\<exists>rec. a_jobs (abs_of (map_of (w_store w'))) ''job_1'' = Some rec \<and> stored_as_job sample_registered rec)"
proof -
  let ?a = "abs_of (map_of (w_store empty_world))"
  obtain r s' w' where run: "RegisterJob sample_env sample_registered (sample_node ''n1'') empty_world = (r, s', w')"
    by (metis prod_cases3)
  have empty: "a_jobs ?a i = None" "a_tasks ?a k = None" for i k
    by (simp add: empty_world_def abs_of_def decode_def, cases k, simp add: empty_world_def abs_of_def decode_def)
  have new: "s_jobs (sample_node ''n1'') (j_ID sample_registered) = None" by (simp add: sample_node_def NewScheduler_def)
  have "tasks_fresh (j_ID sample_registered) (j_Tasks sample_registered) ?a"
    using empty(2) by (simp add: tasks_fresh_def sample_registered_def)
  with register_job [OF mem.badger_db_reliable_axioms sample_node_ok(1) sample_registered_ok sample_env_ok(2)
      sample_node_ok(3) run] empty new
  have "r = None" "s' = (sample_node ''n1'')\<lparr>s_jobs := (s_jobs (sample_node ''n1''))(j_ID sample_registered \<mapsto> sample_registered)\<rparr>"
    "registered sample_registered ?a (abs_of (map_of (w_store w')))" by (simp_all add: registration_def)
  moreover have "j_ID sample_registered = ''job_1''" by (simp add: sample_registered_def sample_watched_def)
  ultimately show ?thesis using run registered_job by fastforce
qed

text \<open>
  C9. A successful update through the scheduler, on any database: the versions in memory and in the
  store of all registered jobs agree afterwards if they did before, and the job in memory has the
  next version, the new configuration and ticker if given, and exactly the tasks it had and the
  added ones less the removed ones, each once, with the names, configurations and orders given for
  the updated ones.
\<close>

theorem update_in_sync:
  assumes "badger_db B contents" "s_store s = BadgerStorage B" "update_ids_ok u" "keys_ok (contents (w_store w))"
    and "in_sync s (abs_of (contents (w_store w)))" "s_jobs s (u_JobID u) = Some job"
    and "distinct order" "set order = dom (updatedTasks u (j_Tasks job))"
    and "Scheduler_UpdateJob E order u s w = Some (None, s', w')"
  shows "keys_ok (contents (w_store w')) \<and> in_sync s' (abs_of (contents (w_store w')))
    \<and> (\<exists>job'. s_jobs s' = (s_jobs s)(u_JobID u \<mapsto> job') \<and> updated_job u job job')"
proof -
  have "\<exists>job'. s_jobs s' = (s_jobs s)(u_JobID u \<mapsto> job') \<and> updated_job u job job'"
    using assms(9)
  proof (cases rule: UpdateJob_cases)
    case (applied job1)
    then show ?thesis using updatedTasks_job [OF assms(7,8)] assms(6) by auto
  qed simp_all
  then show ?thesis
    using storage.UpdateJob_keeps_sync [OF badger_db.implements_storage [OF assms(1)] assms(2-5,9)] by blast
qed

text \<open>A scheduler that knows the job of \<open>sample_job_world\<close>.\<close>

definition sample_taskless :: "nat Job" where
  "sample_taskless = sample_watched\<lparr>j_Tasks := []\<rparr>"

definition sample_knowing :: "(mem, unit) Scheduler" where
  "sample_knowing = (sample_node ''n1'')\<lparr>s_jobs := [''job_1'' \<mapsto> sample_taskless]\<rparr>"

lemma sample_knowing_ok:
  "s_store sample_knowing = mem_storage" "s_jobs sample_knowing ''job_1'' = Some sample_taskless"
  "in_sync sample_knowing (abs_of (map_of (w_store sample_job_world)))" "j_Version sample_taskless = 1"
  using sample_node_ok(1) [of "''n1''"] sample_job_store(2)
  by (auto simp: sample_knowing_def in_sync_def sample_taskless_def sample_watched_def sample_stored_job_def)

theorem update_in_sync_witness:
  "\<exists>s' w'. Scheduler_UpdateJob sample_env [] (sample_update 1) sample_knowing sample_job_world = Some (None, s', w')
     \<and> in_sync s' (abs_of (map_of (w_store w')))"
proof -
  let ?u = "sample_update 1"
  have u: "u_JobID ?u = ''job_1''" "u_ExpectedVersion ?u = 1" "u_NewConfig ?u = None" "u_NewTicker ?u = None"
    "u_AddedTasks ?u = []" "u_RemovedTaskIDs ?u = []" "u_UpdatedTasks ?u = []" by (simp_all add: sample_update_def)
  have st: "s_store sample_knowing = mem_storage" by (rule sample_knowing_ok(1))
  obtain w1 where a: "ApplyUpdate sample_env sample_manager ?u sample_job_world = (None, w1)"
    using sample_update_succeeds by (metis prod.collapse)
  have "\<exists>s'. Scheduler_UpdateJob sample_env [] ?u sample_knowing sample_job_world = Some (None, s', w1)"
    unfolding Scheduler_UpdateJob_def u(1) sample_knowing_ok(2) st a
    by (simp add: u sample_knowing_ok(4) replaceTicker_def a)
  then obtain s' where run: "Scheduler_UpdateJob sample_env [] ?u sample_knowing sample_job_world = Some (None, s', w1)"
    by blast
  have "set [] = dom (updatedTasks ?u (j_Tasks sample_taskless))"
    using updatedTasks_keys(1) [of ?u "j_Tasks sample_taskless"] u by (simp add: sample_taskless_def)
  from update_in_sync [OF mem.badger_db_axioms st sample_update_ids sample_job_store(1) sample_knowing_ok(3) _ _ this run]
    sample_knowing_ok(2) u(1)
  show ?thesis using run by auto
qed

text \<open>
  C20. An update that fails after it has changed the store leaves the job beyond further updates: the
  version in the store is ahead of the version in memory, and from then on every update of the job
  by this scheduler, whatever version it expects, is refused, as long as nothing else changes the
  record of the job.
\<close>

theorem failed_update_blocks:
  assumes "badger_db B contents" "s_store s = BadgerStorage B" "update_ids_ok u" "keys_ok (contents (w_store w))"
    and "Scheduler_UpdateJob E order u s w = Some (Some e, s', w')"
    and "abs_of (contents (w_store w')) \<noteq> abs_of (contents (w_store w))"
    and "update_ids_ok v" "u_JobID v = u_JobID u" "keys_ok (contents (w_store w2))"
    and "a_jobs (abs_of (contents (w_store w2))) (u_JobID u) = a_jobs (abs_of (contents (w_store w'))) (u_JobID u)"
  shows "\<exists>e'. Scheduler_UpdateJob E order' v s' w2 = Some (Some e', s', w2)"
proof -
  note impl = badger_db.implements_storage [OF assms(1)]
  obtain job rec where parted: "s' = s" "s_jobs s (u_JobID u) = Some job"
      "a_jobs (abs_of (contents (w_store w'))) (u_JobID u) = Some rec" "sj_Version rec \<noteq> j_Version job"
    using storage.failed_update_parts [OF impl assms(2-6)] by blast
  show ?thesis unfolding parted(1)
    by (rule storage.parted_refuses [OF impl assms(2,7,9), of job rec])
      (simp_all add: parted assms(8,10))
qed

text \<open>An update that removes a task the job does not have.\<close>

definition sample_removal :: "nat JobUpdate" where
  "sample_removal = (sample_update 1)\<lparr>u_RemovedTaskIDs := [GenerateTaskID sample_uuid ''job_1'' ''a'']\<rparr>"

lemma sample_removal_ids: "update_ids_ok sample_removal"
  using sample_job_id_ok generated_ids_ok [OF sample_uuid_text]
  by (simp add: update_ids_ok_def sample_removal_def sample_update_def)

lemma sample_removal_fails:
  "\<exists>e w'. ApplyUpdate sample_env sample_manager sample_removal sample_job_world = (Some e, w')
     \<and> keys_ok (map_of (w_store w')) \<and> abs_of (map_of (w_store w')) \<noteq> abs_of (map_of (w_store sample_job_world))"
proof -
  let ?i = "GenerateTaskID sample_uuid ''job_1'' ''a''" and ?a = "abs_of (map_of (w_store sample_job_world))"
  obtain w1 where up: "updateJobRecord sample_env mem_storage sample_next_job sample_next_world = (None, w1)"
    using sample_record_written by blast
  have inv: "keys_ok (map_of (w_store sample_next_world))" using sample_job_store(1) by simp
  have id: "sj_ID sample_next_job = ''job_1''" by (simp add: sample_stored_job_def)
  note law = mem.updateJobRecord_law [OF inv _ up, unfolded id, OF sample_job_id_ok]
  obtain err s' where d: "DeleteTask mem_storage (w_store w1) ?i = (err, s')"
    by (cases "DeleteTask mem_storage (w_store w1) ?i")
  have ti: "task_id_ok ?i" using generated_ids_ok [OF sample_uuid_text] by simp
  note del = mem.DeleteTask_law [OF law(1) ti d]
  obtain r0 s0 where c: "CreateJob mem_storage [] sample_stored_job = (r0, s0)"
    by (cases "CreateJob mem_storage [] sample_stored_job")
  have "job_id_ok (sj_ID sample_stored_job)" using sample_job_id_ok by (simp add: sample_stored_job_def)
  from mem.CreateJob_law [OF empty_store(1) this c]
  have "abs_of (map_of s0) = (abs_of (map_of []))\<lparr>a_jobs := a_jobs (abs_of (map_of s0))\<rparr>" by blast
  from arg_cong [OF this, of a_tasks] have "a_tasks (abs_of (map_of s0)) = a_tasks (abs_of (map_of []))" by simp
  then have "a_tasks ?a k = None" for k
    using c by (cases k) (simp add: sample_job_world_def abs_of_def decode_def)
  moreover have tasks: "a_tasks (abs_of (map_of (w_store w1))) = a_tasks ?a"
    using arg_cong [OF law(2), of a_tasks] by simp
  ultimately have "err \<noteq> None" using del by (auto simp: find_delete_spec_def split: option.splits)
  then obtain e where e: "err = Some e" by blast
  have run: "ApplyUpdate sample_env sample_manager sample_removal sample_job_world
      = (Some (ErrWrap (''failed to remove task '' @ ?i) e), w1\<lparr>w_store := s'\<rparr>)"
    using up d e sample_transaction [of sample_removal]
    by (simp add: sample_removal_def sample_update_def applyUpdateTransaction_def NewUpdateManager_def andThen_def wrapError_def)
  have "a_jobs (abs_of (map_of s')) ''job_1'' = Some (sample_next_job\<lparr>sj_UpdatedAt := Now sample_env (Suc (w_clock sample_job_world))\<rparr>)"
    using arg_cong [OF del [THEN conjunct2, THEN conjunct1], of a_jobs] law(3) by simp
  then have "abs_of (map_of s') \<noteq> ?a"
    using sample_job_store(2) next_version_changes [of 1] by (auto simp: sample_stored_job_def)
  then show ?thesis using run del by auto
qed

theorem failed_update_blocks_witness:
  "\<exists>e s' w'. Scheduler_UpdateJob sample_env [] sample_removal sample_knowing sample_job_world = Some (Some e, s', w')
     \<and> (\<exists>e'. Scheduler_UpdateJob sample_env [] (sample_update 1) s' w' = Some (Some e', s', w'))
     \<and> (\<exists>e'. Scheduler_UpdateJob sample_env [] (sample_update 2) s' w' = Some (Some e', s', w'))"
proof -
  obtain e w' where a: "ApplyUpdate sample_env sample_manager sample_removal sample_job_world = (Some e, w')"
    and inv: "keys_ok (map_of (w_store w'))" and ch: "abs_of (map_of (w_store w')) \<noteq> abs_of (map_of (w_store sample_job_world))"
    using sample_removal_fails by blast
  have u: "u_JobID sample_removal = ''job_1''" "u_ExpectedVersion sample_removal = 1"
    by (simp_all add: sample_removal_def sample_update_def)
  have run: "Scheduler_UpdateJob sample_env [] sample_removal sample_knowing sample_job_world
      = Some (Some (ErrWrap ''failed to apply update'' e), sample_knowing, w')"
    unfolding Scheduler_UpdateJob_def u(1) sample_knowing_ok(1,2) a by (simp add: u(2) sample_knowing_ok(4) a)
  have v: "u_JobID (sample_update n) = u_JobID sample_removal" for n by (simp add: sample_removal_def sample_update_def)
  from failed_update_blocks [OF mem.badger_db_axioms sample_knowing_ok(1) sample_removal_ids sample_job_store(1) run ch
      sample_update_ids v inv refl]
  show ?thesis using run by blast
qed

end
