(* ===== verification/ClockOrder.thy ===== *)
theory ClockOrder
  imports Recovery
begin

text \<open>
  The number of clock readings never decreases: whatever runs between two points of the program, the
  readings made in between are those with the numbers in between. With this a statement about a long
  operation can say that it uses only readings it made itself.
\<close>

lemma look_at_ctx_clock: "look_at_ctx E d w = (r, w') \<Longrightarrow> w_clock w \<le> w_clock w'"
  by (auto simp: look_at_ctx_def)

lemma finishRun_clock [simp]: "w_clock (finishRun E e run w) = Suc (Suc (w_clock w))"
  by (simp add: finishRun_def time_Now_def split: prod.splits)

lemma startTask_clock: "startTask E e task oc w = (r, w') \<Longrightarrow> w_clock w \<le> w_clock w'"
  by (auto simp: startTask_def time_Now_def Let_def split: prod.splits)

lemma beginAttempt_clock: "beginAttempt E e run n w = (r, w') \<Longrightarrow> w_clock w \<le> w_clock w'"
  by (auto simp: beginAttempt_def time_Now_def Let_def split: prod.splits)

lemma endAttempt_clock: "endAttempt E e job task run tc att w = (r, w') \<Longrightarrow> w_clock w \<le> w_clock w'"
  by (auto simp: endAttempt_def time_Now_def look_at_ctx_def Let_def split: prod.splits option.splits)

lemma executeAttempt_clock:
  "executeAttempt E e job task run n tc w = (r, w') \<Longrightarrow> w_clock w \<le> w_clock w'"
  unfolding executeAttempt_def using beginAttempt_clock endAttempt_clock
  by (fastforce intro: order_trans split: prod.splits)

lemma afterAttempt_clock: "afterAttempt E e job run policy n report ar w = (r, w') \<Longrightarrow> w_clock w \<le> w_clock w'"
  by (auto simp: afterAttempt_def look_at_ctx_def Let_def split: if_splits option.splits)

lemma failTask_clock: "failTask E e run report msg w = Some (r, w') \<Longrightarrow> w_clock w \<le> w_clock w'"
  by (auto simp: failTask_def split: option.splits)

lemmas step_clocks = startTask_clock beginAttempt_clock endAttempt_clock afterAttempt_clock failTask_clock

lemma retryLoop_clock:
  "retryLoop E e job task run tc policy n report msg w = Some (r, w') \<Longrightarrow> w_clock w \<le> w_clock w'"
proof (induction E e job task run tc policy n report msg w rule: retryLoop.induct)
  case (1 E e job task run tc policy n report msg w)
  show ?case
  proof (cases "n \<le> MaxRetries policy")
    case True
    obtain ar w1 where a: "executeAttempt E e job task run n tc w = (ar, w1)" by fastforce
    obtain q w2 where b: "afterAttempt E e job run policy n report ar w1 = (q, w2)" by fastforce
    have "w_clock w2 \<le> w_clock w'"
    proof (cases q)
      case (Finished rep)
      then show ?thesis using 1(2) True a b by (simp add: retryLoop.simps [of E])
    next
      case (Retry rep m)
      then show ?thesis using 1 True a b by (simp add: retryLoop.simps [of E e job task run tc policy n])
    qed
    then show ?thesis using executeAttempt_clock [OF a] afterAttempt_clock [OF b] by simp
  next
    case False
    then show ?thesis using 1(2) failTask_clock by (simp add: retryLoop.simps [of E])
  qed
qed

lemma executeTask_clock: "executeTask E e job task oc w = Some (r, w') \<Longrightarrow> w_clock w \<le> w_clock w'"
  unfolding executeTask_def Let_def using startTask_clock retryLoop_clock
  by (fastforce intro: order_trans split: prod.splits)

lemma sequentialLoop_clock:
  "sequentialLoop E e job oc tasks report w = Some (r, err, w') \<Longrightarrow> w_clock w \<le> w_clock w'"
proof (induction tasks arbitrary: report w)
  case (Cons task tasks)
  obtain tr w1 where t: "executeTask E e job task oc w = Some (tr, w1)"
    using Cons.prems by (auto split: option.splits)
  obtain c w2 where l: "look_at_ctx E (jc_ExecutionTimeout (j_Config job)) w1 = (c, w2)" by fastforce
  have "w_clock w1 \<le> w_clock w'"
    using Cons look_at_ctx_clock [OF l] t l by (auto simp: Let_def intro: order_trans split: if_splits option.splits)
  then show ?case using executeTask_clock [OF t] by simp
qed simp

lemma taskStep_clock: "taskStep E e job oc g w = (g', w') \<Longrightarrow> w_clock w \<le> w_clock w'"
  by (cases g) (auto split: if_splits prod.splits option.splits round.splits dest: step_clocks)

lemma groupStep_clock: "w_clock (g_world g) \<le> w_clock (g_world (groupStep E e job oc i g))"
proof (cases "i < length (g_routines g)")
  case True
  have "w_clock (g_world g) \<le> w_clock (snd (taskStep E e job oc (g_routines g ! i) (g_world g)))"
    by (rule taskStep_clock [OF surjective_pairing])
  with True show ?thesis by (cases "g_routines g ! i") (auto simp: groupStep_def case_prod_beta)
qed (simp add: groupStep_def)

lemma runGroup_clock: "w_clock (g_world g) \<le> w_clock (g_world (runGroup E e job oc sched g))"
  unfolding runGroup_def
  by (induction sched arbitrary: g) (auto intro: order_trans [OF groupStep_clock])

lemma executeParallel_clock:
  assumes "executeParallel E e job sched oc w = Some (r, err, w')"
  shows "w_clock w \<le> w_clock w'"
proof -
  have "w_clock (g_world (runGroup E e job oc sched (startGroup job oc w))) \<le> w_clock w'"
    using assms by (auto simp: executeParallel_def finishGroup_def look_at_ctx_def Let_def split: if_splits)
  then show ?thesis using runGroup_clock [of "startGroup job oc w" E e job oc sched] by (simp add: startGroup_def)
qed

lemma runTasks_clock: "runTasks E e job sched oc w = Some (r, err, w') \<Longrightarrow> w_clock w \<le> w_clock w'"
  using sequentialLoop_clock executeParallel_clock by (auto simp: runTasks_def executeSequential_def split: if_splits)

lemma updateOccurrenceStatus_clock: "updateOccurrenceStatus E e oc w = (r, w') \<Longrightarrow> w_clock w \<le> w_clock w'"
  by (auto simp: updateOccurrenceStatus_def time_Now_def Let_def split: prod.splits)

lemma ExecuteJobOccurrence_clock:
  assumes "ExecuteJobOccurrence E e job sched oc w = Some (r, err, oc', w')"
  shows "w_clock w \<le> w_clock w'"
proof -
  let ?oc = "oc\<lparr>jo_Status := JobStatusRunning, jo_StartTime := Some (Now E (w_clock w))\<rparr>"
  obtain u1 w1 where one: "updateOccurrenceStatus E e ?oc (w\<lparr>w_clock := Suc (w_clock w)\<rparr>) = (u1, w1)" by fastforce
  note clk1 = updateOccurrenceStatus_clock [OF one]
  show ?thesis
  proof (cases u1)
    case (Some x)
    then show ?thesis using assms one clk1 by (simp add: ExecuteJobOccurrence_def time_Now_def)
  next
    case None
    let ?v = "if j_OnStart job then w1\<lparr>w_hooks := w_hooks w1 @ [OnStart ?oc]\<rparr> else w1"
    obtain rep er w2 where two: "runTasks E e job sched ?oc ?v = Some (rep, er, w2)"
      using assms one None by (auto simp: ExecuteJobOccurrence_def time_Now_def Let_def split: option.splits)
    let ?fin = "?oc\<lparr>jo_EndTime := Some (Now E (w_clock w2)),
        jo_Status := (if er \<noteq> None then JobStatusFailed else JobStatusCompleted)\<rparr>"
    obtain u3 w3 where three: "updateOccurrenceStatus E e ?fin (w2\<lparr>w_clock := Suc (w_clock w2)\<rparr>) = (u3, w3)" by fastforce
    have "w_clock w' = w_clock w3"
      using assms one None two three by (auto simp: ExecuteJobOccurrence_def time_Now_def Let_def split: if_splits)
    moreover have "w_clock ?v = w_clock w1" by simp
    ultimately show ?thesis
      using clk1 runTasks_clock [OF two] updateOccurrenceStatus_clock [OF three] by simp
  qed
qed

lemma scheduleRecoveryRun_clock:
  assumes "scheduleRecoveryRun E sched r job t label (w, p) = Some (err, w', p')"
  shows "w_clock w \<le> w_clock w'"
proof -
  have "w_clock v \<le> w_clock w'" if "run_closure E e sched f v = Some w'" for e f v
    using that ExecuteJobOccurrence_clock by (fastforce simp: run_closure_def split: prod.splits)
  then show ?thesis using assms
    by (fastforce simp: scheduleRecoveryRun_def time_Now_def Let_def split: prod.splits option.splits submission.splits)
qed

lemma recover_clock: "recover E sched r job label ts (w, p) = Some (w', p') \<Longrightarrow> w_clock w \<le> w_clock w'"
proof (induction ts arbitrary: w p)
  case (Cons t ts)
  obtain err w1 p1 where "scheduleRecoveryRun E sched r job t label (w, p) = Some (err, w1, p1)"
    "recover E sched r job label ts (w1, p1) = Some (w', p')"
    using Cons.prems by (auto split: option.splits prod.splits)
  then show ?case using Cons.IH scheduleRecoveryRun_clock by (blast intro: order_trans)
qed simp

lemma ApplyStrategy_clock:
  assumes "ApplyStrategy E sched r job ts (w, p) = Some (err, w', p')"
  shows "w_clock w \<le> w_clock w'" "ts \<noteq> [] \<Longrightarrow> reads_clock (j_Config job) \<Longrightarrow> w_clock w < w_clock w'"
proof -
  have "(w_clock w \<le> w_clock w') \<and> (ts \<noteq> [] \<longrightarrow> reads_clock (j_Config job) \<longrightarrow> w_clock w < w_clock w')"
  proof (cases "ts = []")
    case True
    then show ?thesis using assms by (simp add: ApplyStrategy_def)
  next
    case False
    let ?v = "if reads_clock (j_Config job) then w\<lparr>w_clock := Suc (w_clock w)\<rparr> else w"
    obtain label us where "recover E sched r job label us (?v, p) = Some (w', p')"
      using False assms by (auto simp: ApplyStrategy_recover)
    from recover_clock [OF this] show ?thesis by (auto split: if_splits)
  qed
  then show "w_clock w \<le> w_clock w'" "ts \<noteq> [] \<Longrightarrow> reads_clock (j_Config job) \<Longrightarrow> w_clock w < w_clock w'" by blast+
qed

end
