(* ===== verification/SchedulerStart.thy ===== *)
theory SchedulerStart
  imports SchedulerJobs ClockOrder
begin

text \<open>
  Starting a scheduler: the recovery of what was missed while it was down, job by job, and the jobs that
  are watched afterwards.
\<close>

subsection \<open>What a job missed\<close>

text \<open>
  The recovery of a job reads the clock once or twice: if the job has no last run, a first time to go
  back 24 hours, and then for the end of the interval. \<open>m\<close> is the number of readings made before.
\<close>

definition since :: "Env \<Rightarrow> StoredJob \<Rightarrow> nat \<Rightarrow> gotime" where
  "since E rec m = atUTC (case sj_LastRunTime rec of Some t \<Rightarrow> t | None \<Rightarrow> Now E m - 24 * Hour)"

definition now_reading :: "StoredJob \<Rightarrow> nat \<Rightarrow> nat" where
  "now_reading rec m = (if sj_LastRunTime rec = None then Suc m else m)"

definition missed :: "Env \<Rightarrow> Ticker \<Rightarrow> StoredJob \<Rightarrow> nat \<Rightarrow> gotime list result" where
  "missed E tick rec m = Ticker_GetOccurrencesBetween tick (since E rec m) (atUTC (Now E (now_reading rec m)))"

text \<open>
  A registered job as recovery needs it, when \<open>c\<close> readings of the clock have been made: it is stored and
  has a ticker, its tasks return, and the times its ticker lists, if it lists any, have years 0 to 9999.
\<close>

definition recoverable ::
  "Env \<Rightarrow> (JobOccurrence \<Rightarrow> nat list) \<Rightarrow> ('s, 'm) Scheduler \<Rightarrow> nat \<Rightarrow> AStore \<Rightarrow> nat Job \<Rightarrow> bool"
where
  "recoverable E sched s c a job \<longleftrightarrow>
     job_id_ok (j_ID job) \<and> executions_return E (s_exec s) sched job
     \<and> (\<exists>rec tick. a_jobs a (j_ID job) = Some rec \<and> s_tickers s (j_Ticker job) = Some tick
          \<and> (\<forall>m ts. c \<le> m \<and> missed E tick rec m = Inr ts \<longrightarrow> (\<forall>t \<in> set ts. year_ok (instant t))))"

lemma recoverable_later: "recoverable E sched s c a job \<Longrightarrow> c \<le> c' \<Longrightarrow> recoverable E sched s c' a job"
  unfolding recoverable_def by (meson order_trans)

text \<open>
  The occurrences of a job after recovery: those selected from the missed ones have been run, unless
  they were recorded before; those and all others are as they were. What was missed and selected is
  determined by the clock readings from number \<open>c\<close> to before \<open>c'\<close>, those of the recovery itself.
\<close>

definition job_recovered ::
  "Env \<Rightarrow> ('s, 'm) Scheduler \<Rightarrow> nat \<Rightarrow> nat \<Rightarrow> AStore \<Rightarrow> AStore \<Rightarrow> nat Job \<Rightarrow> bool"
where
  "job_recovered E s c c' a a' job \<longleftrightarrow>
     (\<exists>rec tick m ts sel. a_jobs a (j_ID job) = Some rec \<and> s_tickers s (j_Ticker job) = Some tick
        \<and> c \<le> m \<and> now_reading rec m < c' \<and> missed E tick rec m = Inr ts
        \<and> (ts \<noteq> [] \<and> reads_clock (j_Config job) \<longrightarrow> Suc (now_reading rec m) < c')
        \<and> sel = selected_times (j_Config job) (Now E (Suc (now_reading rec m))) ts
        \<and> (\<forall>t \<in> set sel.
             case a_occs a (occ_of E job t) of
               Some r \<Rightarrow> a_occs a' (occ_of E job t) = Some r
             | None \<Rightarrow> \<exists>r. a_occs a' (occ_of E job t) = Some r \<and> recovered_record job r)
        \<and> (\<forall>i. (j_ID job, i) \<notin> occ_of E job ` set sel \<longrightarrow> a_occs a' (j_ID job, i) = a_occs a (j_ID job, i)))"

text \<open>The ticker of the job could not list what was missed, because of the error \<open>e\<close>.\<close>

definition unlisted :: "Env \<Rightarrow> ('s, 'm) Scheduler \<Rightarrow> nat \<Rightarrow> nat \<Rightarrow> AStore \<Rightarrow> nat Job \<Rightarrow> error \<Rightarrow> bool" where
  "unlisted E s c c' a job e \<longleftrightarrow>
     (\<exists>rec tick m. a_jobs a (j_ID job) = Some rec \<and> s_tickers s (j_Ticker job) = Some tick
        \<and> c \<le> m \<and> now_reading rec m < c' \<and> missed E tick rec m = Inl e)"

lemma occ_of_fst: "fst (occ_of E job t) = j_ID job"
  by (simp add: occ_of_def)

lemma recovered_job_recovered:
  assumes "recovered E job (selected_times (j_Config job) (Now E (Suc (now_reading rec m))) ts) a a'"
    "a_jobs a (j_ID job) = Some rec" "s_tickers s (j_Ticker job) = Some tick" "missed E tick rec m = Inr ts"
    "c \<le> m" "now_reading rec m < c'" "ts \<noteq> [] \<and> reads_clock (j_Config job) \<longrightarrow> Suc (now_reading rec m) < c'"
  shows "job_recovered E s c c' a a' job"
proof -
  let ?sel = "selected_times (j_Config job) (Now E (Suc (now_reading rec m))) ts"
  have "a_occs a' (j_ID job, i) = a_occs a (j_ID job, i)" if "(j_ID job, i) \<notin> occ_of E job ` set ?sel" for i
    using recovered_other [OF assms(1) that] .
  then show ?thesis
    using assms(1) unfolding job_recovered_def recovered_def
    by (intro exI [of _ rec] exI [of _ tick] exI [of _ m] exI [of _ ts] exI [of _ ?sel]) (simp add: assms(2-))
qed

lemma recovered_keeps:
  assumes "recovered E job ts a a'" "a_occs a k = Some r"
  shows "a_occs a' k = Some r"
proof (cases "k \<in> occ_of E job ` set ts")
  case True
  then show ?thesis using assms unfolding recovered_def by fastforce
next
  case False
  then show ?thesis using recovered_other [OF assms(1)] assms(2) by simp
qed

text \<open>Recovery of a job depends only on its own records; the readings may be said to lie in a wider range.\<close>

lemma job_recovered_cong:
  assumes "job_recovered E s c c' a a' job" "a_jobs b (j_ID job) = a_jobs a (j_ID job)"
    "\<And>i. a_occs b (j_ID job, i) = a_occs a (j_ID job, i)" "\<And>i. a_occs b' (j_ID job, i) = a_occs a' (j_ID job, i)"
  shows "job_recovered E s c c' b b' job"
  using assms(1) unfolding job_recovered_def occ_of_def assms(2-4) .

lemma job_recovered_wider:
  assumes "job_recovered E s c c' a a' job" "d \<le> c" "c' \<le> d'"
  shows "job_recovered E s d d' a a' job"
  using assms(1) unfolding job_recovered_def
  by (elim ex_forward conj_forward imp_forward) (assumption | (use assms(2,3) in simp; fail))+

lemma unlisted_wider: "unlisted E s c c' a job e \<Longrightarrow> d \<le> c \<Longrightarrow> c' \<le> d' \<Longrightarrow> unlisted E s d d' a job e"
  unfolding unlisted_def by (meson order_trans order_less_le_trans)

context reliable_storage
begin

lemma recoverJob_here:
  assumes st: "s_store s = S" "rh_store r = S" "rh_executor r = s_exec s" "ex_store (s_exec s) = S"
    and env: "uuid_text (NewSHA1 E)" "clock_ok E" and inv: "invar (w_store w)"
    and p: "\<not> p_started p" "\<not> p_stopping p" and act: "j_Active job"
    and ok: "recoverable E sched s (w_clock w) (abs (w_store w)) job"
  shows "\<exists>err w'. recoverJob E sched s r job (w, p) = Some (err, w', p) \<and> invar (w_store w') \<and> w_clock w \<le> w_clock w'
    \<and> (case err of
         None \<Rightarrow> job_recovered E s (w_clock w) (w_clock w') (abs (w_store w)) (abs (w_store w')) job
           \<and> (\<exists>ts. recovered E job ts (abs (w_store w)) (abs (w_store w')))
       | Some e \<Rightarrow> w_store w' = w_store w \<and> unlisted E s (w_clock w) (w_clock w') (abs (w_store w)) job e)"
proof -
  let ?a = "abs (w_store w)"
  define m where "m = w_clock w"
  obtain rec tick where j: "job_id_ok (j_ID job)" "executions_return E (s_exec s) sched job"
    "a_jobs ?a (j_ID job) = Some rec" "s_tickers s (j_Ticker job) = Some tick"
    and y: "\<And>ts. missed E tick rec m = Inr ts \<Longrightarrow> \<forall>t \<in> set ts. year_ok (instant t)"
    using ok unfolding recoverable_def m_def by blast
  have g: "GetJob S (w_store w) (j_ID job) = Inr rec" using GetJob_ok [OF inv j(1)] j(3) by simp
  let ?n = "now_reading rec m"
  let ?w = "w\<lparr>w_clock := Suc ?n\<rparr>"
  have n: "m \<le> ?n" by (simp add: now_reading_def)
  have day: "add_dur i (- 86400000000000) = i - 86400000000000" for i
    by (simp add: add_dur_def)
  have run: "recoverJob E sched s r job (w, p) =
      (case missed E tick rec m of Inl e \<Rightarrow> Some (Some e, ?w, p) | Inr ts \<Rightarrow> ApplyStrategy E sched r job ts (?w, p))"
    using act g st(1) j(4)
    by (cases "sj_LastRunTime rec")
      (simp_all add: recoverJob_def lastRun_def time_Now_def m_def missed_def since_def now_reading_def day split: sum.split)
  show ?thesis
  proof (cases "missed E tick rec m")
    case (Inl e)
    then have "unlisted E s m (Suc ?n) ?a job e" using j(3,4) unfolding unlisted_def by blast
    then show ?thesis using run Inl inv n by (simp add: m_def)
  next
    case (Inr ts)
    have set_up: "recovery_setup E S r job ts" using st env j(1) y [OF Inr] by (simp add: recovery_setup_def)
    from ApplyStrategy_here [OF set_up, of ?w p sched] inv p j(2) st(3)
    obtain w' where w': "ApplyStrategy E sched r job ts (?w, p) = Some (None, w', p)" "invar (w_store w')"
      "recovered E job (selected_times (j_Config job) (Now E (Suc ?n)) ts) ?a (abs (w_store w'))" by auto
    have clk: "?n < w_clock w'" "ts \<noteq> [] \<and> reads_clock (j_Config job) \<longrightarrow> Suc ?n < w_clock w'"
      using ApplyStrategy_clock [OF w'(1)] by auto
    from recovered_job_recovered [OF w'(3) j(3,4) Inr order_refl clk]
    show ?thesis using run Inr w' clk(1) n by (auto simp: m_def)
  qed
qed

end

subsection \<open>All jobs\<close>

definition jobs_keyed :: "('s, 'm) Scheduler \<Rightarrow> bool" where
  "jobs_keyed s \<longleftrightarrow> (\<forall>i job. s_jobs s i = Some job \<longrightarrow> j_ID job = i)"

definition active_job :: "('s, 'm) Scheduler \<Rightarrow> string \<Rightarrow> nat Job \<Rightarrow> bool" where
  "active_job s i job \<longleftrightarrow> s_jobs s i = Some job \<and> j_Active job"

text \<open>The store after the recovery of the active jobs among the given ones.\<close>

definition booted :: "Env \<Rightarrow> ('s, 'm) Scheduler \<Rightarrow> nat \<Rightarrow> nat \<Rightarrow> string list \<Rightarrow> AStore \<Rightarrow> AStore \<Rightarrow> bool" where
  "booted E s c c' order a a' \<longleftrightarrow>
     a_jobs a' = a_jobs a \<and> a_tasks a' = a_tasks a
     \<and> (\<forall>k r. a_occs a k = Some r \<longrightarrow> a_occs a' k = Some r)
     \<and> (\<forall>j i. (\<nexists>job. j \<in> set order \<and> active_job s j job) \<longrightarrow> a_occs a' (j, i) = a_occs a (j, i))
     \<and> (\<forall>j \<in> set order. \<forall>job. active_job s j job \<longrightarrow> job_recovered E s c c' a a' job)"

lemma booted_other:
  "booted E s c c' order a a' \<Longrightarrow> j \<notin> set order \<or> (\<nexists>job. active_job s j job) \<Longrightarrow> a_occs a' (j, i) = a_occs a (j, i)"
  unfolding booted_def by blast

lemma booted_skip:
  assumes "\<nexists>job. active_job s j job" "booted E s c c' order a a'"
  shows "booted E s c c' (j # order) a a'"
  using assms unfolding booted_def by auto

lemma booted_Cons:
  assumes job: "active_job s (j_ID job) job" "j_ID job \<notin> set order" "jobs_keyed s" and clk: "c0 \<le> c1" "c1 \<le> c2"
    and one: "recovered E job ts a b" "job_recovered E s c0 c1 a b job" and rest: "booted E s c1 c2 order b d"
  shows "booted E s c0 c2 (j_ID job # order) a d"
proof -
  have frame: "a_occs b (j, i) = a_occs a (j, i)" if "j \<noteq> j_ID job" for j i
  proof -
    have "(j, i) \<notin> occ_of E job ` set ts" using that by (auto simp: occ_of_def)
    then show ?thesis by (rule recovered_other [OF one(1)])
  qed
  have same: "a_jobs b = a_jobs a" "a_tasks b = a_tasks a" using one(1) by (simp_all add: recovered_def)
  have "job_recovered E s c0 c1 a d job"
    using job_recovered_cong [OF one(2) refl refl, of d] booted_other [OF rest] job(2) by simp
  then have "job_recovered E s c0 c2 a d job" using job_recovered_wider clk(2) by blast
  moreover have "job_recovered E s c0 c2 a d job'" if "j' \<in> set order" "active_job s j' job'" for j' job'
  proof -
    have id: "j_ID job' = j'" using that(2) job(3) by (simp add: active_job_def jobs_keyed_def)
    have "job_recovered E s c1 c2 b d job'" using rest that unfolding booted_def by blast
    then have "job_recovered E s c0 c2 b d job'" using job_recovered_wider clk(1) by blast
    moreover have "a_occs b (j_ID job', i) = a_occs a (j_ID job', i)" for i
      by (rule frame) (use id that(1) job(2) in auto)
    ultimately show ?thesis using same(1) by (auto elim: job_recovered_cong)
  qed
  moreover have "job' = job" if "active_job s (j_ID job) job'" for job' using that job(1) by (simp add: active_job_def)
  ultimately have jobs: "\<forall>j \<in> set (j_ID job # order). \<forall>job. active_job s j job \<longrightarrow> job_recovered E s c0 c2 a d job" by auto
  have keep: "a_occs d k = Some r" if "a_occs a k = Some r" for k r
    using recovered_keeps [OF one(1) that] rest unfolding booted_def by blast
  have "a_occs d (j, i) = a_occs a (j, i)" if "\<nexists>job'. j \<in> set (j_ID job # order) \<and> active_job s j job'" for j i
  proof -
    have "j \<noteq> j_ID job" using that job(1) by auto
    moreover have "j \<notin> set order \<or> (\<nexists>job. active_job s j job)" using that by auto
    ultimately show ?thesis using frame booted_other [OF rest] by simp
  qed
  then show ?thesis using jobs keep rest same unfolding booted_def by simp
qed

lemma booted_refl: "booted E s c c' [] a a"
  by (simp add: booted_def)

text \<open>
  How the recovery of the jobs ends: with all of them recovered, or at the first job whose ticker cannot
  list what was missed, with the jobs before it recovered and no other occurrence changed.
\<close>

definition recovery_end ::
  "Env \<Rightarrow> ('s, 'm) Scheduler \<Rightarrow> nat \<Rightarrow> nat \<Rightarrow> string list \<Rightarrow> AStore \<Rightarrow> AStore \<Rightarrow> error option \<Rightarrow> bool"
where
  "recovery_end E s c c' order a a' err \<longleftrightarrow>
     (case err of
        None \<Rightarrow> booted E s c c' order a a'
      | Some e \<Rightarrow> \<exists>before j job later. order = before @ j # later \<and> active_job s j job
          \<and> booted E s c c' before a a' \<and> unlisted E s c c' a job e)"

lemma recovery_end_skip:
  assumes "\<nexists>job. active_job s j job" "recovery_end E s c c' order a a' err"
  shows "recovery_end E s c c' (j # order) a a' err"
proof (cases err)
  case None
  then show ?thesis using assms booted_skip by (simp add: recovery_end_def)
next
  case (Some e)
  then obtain before i job later where o: "order = before @ i # later" "active_job s i job" "booted E s c c' before a a'"
    "unlisted E s c c' a job e" using assms(2) by (auto simp: recovery_end_def)
  then have "j # order = (j # before) @ i # later" "booted E s c c' (j # before) a a'" using booted_skip assms(1) by auto
  then show ?thesis using o(2,4) unfolding recovery_end_def Some option.case by blast
qed

lemma recovery_end_Cons:
  assumes job: "active_job s (j_ID job) job" "j_ID job \<notin> set order" "jobs_keyed s" and clk: "c0 \<le> c1" "c1 \<le> c2"
    and one: "recovered E job ts a b" "job_recovered E s c0 c1 a b job" and rest: "recovery_end E s c1 c2 order b d err"
  shows "recovery_end E s c0 c2 (j_ID job # order) a d err"
proof (cases err)
  case None
  then show ?thesis using booted_Cons [OF job clk one] rest by (simp add: recovery_end_def)
next
  case (Some e)
  then obtain before i job' later where o: "order = before @ i # later" "active_job s i job'"
    "booted E s c1 c2 before b d" "unlisted E s c1 c2 b job' e" using rest by (auto simp: recovery_end_def)
  have "a_jobs b = a_jobs a" using one(1) by (simp add: recovered_def)
  then have "unlisted E s c1 c2 a job' e" using o(4) by (simp add: unlisted_def)
  then have "unlisted E s c0 c2 a job' e" using unlisted_wider clk(1) by blast
  moreover have "booted E s c0 c2 (j_ID job # before) a d"
    using booted_Cons [OF job(1) _ job(3) clk one o(3)] job(2) o(1) by simp
  moreover have "j_ID job # order = (j_ID job # before) @ i # later" using o(1) by simp
  ultimately show ?thesis using o(2) unfolding recovery_end_def Some option.case by blast
qed

context reliable_storage
begin

lemma recoverJobs_here:
  assumes st: "s_store s = S" "rh_store r = S" "rh_executor r = s_exec s" "ex_store (s_exec s) = S"
    and env: "uuid_text (NewSHA1 E)" "clock_ok E" and p: "\<not> p_started p" "\<not> p_stopping p" and keyed: "jobs_keyed s"
    and "invar (w_store w)" "distinct order"
    and "\<forall>i \<in> set order. \<forall>job. active_job s i job \<longrightarrow> recoverable E sched s (w_clock w) (abs (w_store w)) job"
  shows "\<exists>err w'. recoverJobs E sched s r order (w, p) = Some (err, w', p) \<and> invar (w_store w') \<and> w_clock w \<le> w_clock w'
    \<and> recovery_end E s (w_clock w) (w_clock w') order (abs (w_store w)) (abs (w_store w')) err"
  using assms(10-)
proof (induction order arbitrary: w)
  case Nil
  then show ?case using booted_refl by (simp add: recovery_end_def)
next
  case (Cons j order)
  show ?case
  proof (cases "\<exists>job. active_job s j job")
    case False
    have "recoverJobs E sched s r (j # order) (w, p) = recoverJobs E sched s r order (w, p)"
      using False by (auto simp: recoverJob_def active_job_def split: option.splits)
    then show ?thesis using Cons.IH [OF Cons.prems(1)] Cons.prems(2,3) recovery_end_skip [OF False] by auto
  next
    case True
    then obtain job where job: "active_job s j job" by blast
    have id: "j_ID job = j" using job keyed by (simp add: active_job_def jobs_keyed_def)
    have rec: "recoverable E sched s (w_clock w) (abs (w_store w)) job" using Cons.prems(3) job by simp
    obtain e w1 where one: "recoverJob E sched s r job (w, p) = Some (e, w1, p)" "invar (w_store w1)" "w_clock w \<le> w_clock w1"
      and out: "case e of
         None \<Rightarrow> job_recovered E s (w_clock w) (w_clock w1) (abs (w_store w)) (abs (w_store w1)) job
           \<and> (\<exists>ts. recovered E job ts (abs (w_store w)) (abs (w_store w1)))
       | Some e \<Rightarrow> w_store w1 = w_store w \<and> unlisted E s (w_clock w) (w_clock w1) (abs (w_store w)) job e"
      using recoverJob_here [OF st env Cons.prems(1) p _ rec] job by (auto simp: active_job_def)
    show ?thesis
    proof (cases e)
      case (Some x)
      have "recovery_end E s (w_clock w) (w_clock w1) (j # order) (abs (w_store w)) (abs (w_store w1)) (Some x)"
        unfolding recovery_end_def option.case using out Some job booted_refl
        by (intro exI [of _ "[]"] exI [of _ j] exI [of _ job] exI [of _ order]) simp
      then show ?thesis using job one Some by (simp add: active_job_def)
    next
      case None
      then obtain ts where rd: "job_recovered E s (w_clock w) (w_clock w1) (abs (w_store w)) (abs (w_store w1)) job"
        "recovered E job ts (abs (w_store w)) (abs (w_store w1))" using out by auto
      have "a_jobs (abs (w_store w1)) = a_jobs (abs (w_store w))" using rd(2) by (simp add: recovered_def)
      then have "recoverable E sched s (w_clock w1) (abs (w_store w1)) job'"
        if "i \<in> set order" "active_job s i job'" for i job'
        using recoverable_later [OF _ one(3), of E sched s "abs (w_store w)" job'] Cons.prems(3) that by (auto simp: recoverable_def)
      then obtain err w' where rest: "recoverJobs E sched s r order (w1, p) = Some (err, w', p)" "invar (w_store w')"
        "w_clock w1 \<le> w_clock w'" "recovery_end E s (w_clock w1) (w_clock w') order (abs (w_store w1)) (abs (w_store w')) err"
        using Cons.IH [OF one(2)] Cons.prems(2) by auto
      have "recoverJobs E sched s r (j # order) (w, p) = Some (err, w', p)"
        using job one(1) rest(1) None by (simp add: active_job_def)
      moreover have "recovery_end E s (w_clock w) (w_clock w') (j # order) (abs (w_store w)) (abs (w_store w')) err"
        using recovery_end_Cons [OF _ _ keyed one(3) rest(3) rd(2,1) rest(4)] job Cons.prems(2) unfolding id by simp
      ultimately show ?thesis using rest(2,3) one(3) by auto
    qed
  qed
qed

end

subsection \<open>The watched jobs\<close>

definition runnable :: "('s, 'm) Scheduler \<Rightarrow> string \<Rightarrow> bool" where
  "runnable s i \<longleftrightarrow> (\<exists>job. s_jobs s i = Some job \<and> j_Active job \<and> \<not> j_Paused job)"

text \<open>A started ticker; a one-time ticker that has fired stays as it is.\<close>

fun ticker_runs :: "Ticker \<Rightarrow> bool" where
  "ticker_runs (TCron t) = running t"
| "ticker_runs (TOnce t) = (running t \<or> o_executed t)"
| "ticker_runs (TISO8601 t) = running t"

lemma Ticker_Start_runs: "ticker_runs (snd (Ticker_Start tick))"
  by (cases tick) (auto simp: Cron_Start_def Once_Start_def ISO_Start_def startCore_def)

lemma Ticker_Start_idem: "ticker_runs tick \<Longrightarrow> snd (Ticker_Start tick) = tick"
  by (cases tick) (auto simp: Cron_Start_def Once_Start_def ISO_Start_def startCore_def)

definition has_ticker :: "('s, 'm) Scheduler \<Rightarrow> nat Job \<Rightarrow> bool" where
  "has_ticker s job \<longleftrightarrow> s_tickers s (j_Ticker job) \<noteq> None"

text \<open>The runnable jobs among the given ones have one new watcher each and a started ticker.\<close>

definition watched :: "string list \<Rightarrow> ('s, 'm) Scheduler \<Rightarrow> ('s, 'm) Scheduler \<Rightarrow> bool" where
  "watched order s s' \<longleftrightarrow>
     s' = s\<lparr>s_tickers := s_tickers s', s_watchers := s_watchers s @ map WatchTop (filter (runnable s) order)\<rparr>
     \<and> (\<forall>a tick. s_tickers s a = Some tick \<and> ticker_runs tick \<longrightarrow> s_tickers s' a = Some tick)
     \<and> (\<forall>i \<in> set order. \<forall>job. active_job s i job \<and> \<not> j_Paused job \<longrightarrow>
          (\<exists>tick. s_tickers s' (j_Ticker job) = Some tick \<and> ticker_runs tick))"

lemma watchedD:
  assumes "watched order s s'"
  shows "s' = s\<lparr>s_tickers := s_tickers s', s_watchers := s_watchers s @ map WatchTop (filter (runnable s) order)\<rparr>"
    "s_tickers s a = Some tick \<Longrightarrow> ticker_runs tick \<Longrightarrow> s_tickers s' a = Some tick"
    "i \<in> set order \<Longrightarrow> active_job s i job \<Longrightarrow> \<not> j_Paused job \<Longrightarrow>
      \<exists>tick. s_tickers s' (j_Ticker job) = Some tick \<and> ticker_runs tick"
  using assms unfolding watched_def by blast+

lemma startJobs_watches:
  assumes "\<And>i job. i \<in> set order \<Longrightarrow> active_job s i job \<Longrightarrow> has_ticker s job"
  shows "\<exists>s'. startJobs order s = Some s' \<and> watched order s s'"
  using assms
proof (induction order arbitrary: s)
  case Nil
  then show ?case by (simp add: watched_def)
next
  case (Cons i order)
  show ?case
  proof (cases "runnable s i")
    case False
    then have "startJobs (i # order) s = startJobs order s" by (auto simp: runnable_def split: option.splits)
    moreover have "\<not> (active_job s i job \<and> \<not> j_Paused job)" for job
      using False by (auto simp: runnable_def active_job_def)
    moreover have "\<exists>s'. startJobs order s = Some s' \<and> watched order s s'" by (rule Cons.IH) (erule (1) Cons.prems [OF list.set_intros(2)])
    ultimately show ?thesis using False by (auto simp: watched_def)
  next
    case True
    then obtain job where job: "s_jobs s i = Some job" "j_Active job" "\<not> j_Paused job" by (auto simp: runnable_def)
    then obtain tick where tick: "s_tickers s (j_Ticker job) = Some tick"
      using Cons.prems [of i job] by (auto simp: active_job_def has_ticker_def)
    let ?t = "snd (Ticker_Start tick)"
    let ?s = "s\<lparr>s_tickers := (s_tickers s)(j_Ticker job \<mapsto> ?t), s_watchers := s_watchers s @ [WatchTop i]\<rparr>"
    have step: "startJobs (i # order) s = startJobs order ?s"
      using job tick by (simp add: case_prod_unfold Let_def)
    have same: "active_job ?s = active_job s" "runnable ?s = runnable s"
      by (auto simp: active_job_def runnable_def fun_eq_iff)
    have "has_ticker ?s job'" if "i' \<in> set order" "active_job ?s i' job'" for i' job'
      using Cons.prems [of i' job'] that unfolding same by (auto simp: has_ticker_def)
    then obtain s' where run: "startJobs order ?s = Some s'" and w: "watched order ?s s'" using Cons.IH [of ?s] by blast
    note s' = watchedD [OF w, unfolded same]
    have runs: "s_tickers s' (j_Ticker job) = Some ?t" by (rule s'(2)) (simp_all add: Ticker_Start_runs)
    have keep: "s_tickers s' a = Some tk" if "s_tickers s a = Some tk" "ticker_runs tk" for a tk
    proof (cases "a = j_Ticker job")
      case True
      then show ?thesis using that tick runs Ticker_Start_idem by auto
    next
      case False
      then show ?thesis using that by (intro s'(2)) simp_all
    qed
    have "s' = s\<lparr>s_tickers := s_tickers s', s_watchers := s_watchers s @ map WatchTop (filter (runnable s) (i # order))\<rparr>"
      by (subst s'(1)) (simp add: True)

    moreover have "\<exists>tick. s_tickers s' (j_Ticker job') = Some tick \<and> ticker_runs tick"
      if "i' \<in> set (i # order)" "active_job s i' job'" "\<not> j_Paused job'" for i' job'
    proof (cases "i' = i")
      case True
      then show ?thesis using that(2) job(1) runs Ticker_Start_runs by (simp add: active_job_def)
    next
      case False
      then show ?thesis using that s'(3) by simp
    qed
    ultimately have "watched (i # order) s s'" using keep unfolding watched_def by blast
    then show ?thesis unfolding step using run by blast
  qed
qed

text \<open>What a successful start leaves, in the scheduler and in the store.\<close>

definition started ::
  "Env \<Rightarrow> nat \<Rightarrow> nat \<Rightarrow> string list \<Rightarrow> ('s, 'm) Scheduler \<Rightarrow> AStore \<Rightarrow> ('s, 'm) Scheduler \<Rightarrow> AStore \<Rightarrow> bool"
where
  "started E c c' startOrder s a s' a' \<longleftrightarrow>
     s_running s' \<and> p_started (s_pool s') \<and> s_jobs s' = s_jobs s
     \<and> s_watchers s' = s_watchers s @ map WatchTop (filter (runnable s) startOrder)
     \<and> (\<forall>i job. active_job s i job \<and> \<not> j_Paused job \<longrightarrow>
          (\<exists>tick. s_tickers s' (j_Ticker job) = Some tick \<and> ticker_runs tick))
     \<and> booted E s c c' startOrder a a'"

text \<open>What a failed start leaves: the scheduler as it was, and the jobs before the failing one recovered.\<close>

definition not_started ::
  "Env \<Rightarrow> nat \<Rightarrow> nat \<Rightarrow> string list \<Rightarrow> ('s, 'm) Scheduler \<Rightarrow> AStore \<Rightarrow> ('s, 'm) Scheduler \<Rightarrow> AStore \<Rightarrow> error \<Rightarrow> bool"
where
  "not_started E c c' recoveryOrder s a s' a' err \<longleftrightarrow>
     s' = s \<and> (\<exists>e before j job later. err = ErrWrap ''recovery failed'' e \<and> recoveryOrder = before @ j # later
       \<and> active_job s j job \<and> booted E s c c' before a a' \<and> unlisted E s c c' a job e)"

lemma booted_order: "set o1 = set o2 \<Longrightarrow> booted E s c c' o1 a a' = booted E s c c' o2 a a'"
  by (simp add: booted_def)

context reliable_storage
begin

lemma Start_here:
  assumes st: "s_store s = S" "ex_store (s_exec s) = S" and env: "uuid_text (NewSHA1 E)" "clock_ok E"
    and inv: "invar (w_store w)" and keyed: "jobs_keyed s" and idle: "\<not> s_running s" "\<not> p_started (s_pool s)" "\<not> p_stopping (s_pool s)"
    and o1: "distinct o1" "set o1 = dom (s_jobs s)" and o2: "set o2 = dom (s_jobs s)"
    and rec: "\<forall>i job. active_job s i job \<longrightarrow> recoverable E sched s (w_clock w) (abs (w_store w)) job"
  shows "\<exists>r s' w'. Start E sched o1 o2 s w = Some (r, s', w') \<and> invar (w_store w')
    \<and> (case r of
         None \<Rightarrow> started E (w_clock w) (w_clock w') o2 s (abs (w_store w)) s' (abs (w_store w'))
       | Some err \<Rightarrow> not_started E (w_clock w) (w_clock w') o1 s (abs (w_store w)) s' (abs (w_store w')) err)"
proof -
  let ?r = "Recovery_SetMetrics (NewRecoveryHandler (s_store s) (s_exec s)) (s_metrics s)"
  have r: "rh_store ?r = S" "rh_executor ?r = s_exec s"
    using st(1) by (simp_all add: Recovery_SetMetrics_def NewRecoveryHandler_def)
  obtain e w' where w': "recoverJobs E sched s ?r o1 (w, s_pool s) = Some (e, w', s_pool s)" "invar (w_store w')"
    "recovery_end E s (w_clock w) (w_clock w') o1 (abs (w_store w)) (abs (w_store w')) e"
    using recoverJobs_here [OF st(1) r st(2) env idle(2,3) keyed inv o1(1)] rec by blast
  show ?thesis
  proof (cases e)
    case (Some x)
    then have "Start E sched o1 o2 s w = Some (Some (ErrWrap ''recovery failed'' x), s, w')"
      using idle(1) w'(1) by (simp add: Start_def performRecovery_def)
    moreover have "not_started E (w_clock w) (w_clock w') o1 s (abs (w_store w)) s (abs (w_store w')) (ErrWrap ''recovery failed'' x)"
      using w'(3) Some by (simp add: not_started_def recovery_end_def)
    ultimately show ?thesis using w'(2) by auto
  next
    case None
    let ?s = "s\<lparr>s_reaper := Reaper_Start (s_reaper s), s_pool := Pool_Start (s_pool s)\<rparr>"
    have same: "active_job ?s = active_job s" "runnable ?s = runnable s" by (auto simp: active_job_def runnable_def fun_eq_iff)
    have "has_ticker ?s job" if "i \<in> set o2" "active_job ?s i job" for i job
    proof -
      have "recoverable E sched s (w_clock w) (abs (w_store w)) job" using that(2) rec unfolding same by blast
      then show ?thesis by (auto simp: has_ticker_def recoverable_def)
    qed
    then obtain s' where s': "startJobs o2 ?s = Some s'" and w: "watched o2 ?s s'" using startJobs_watches by blast
    have run: "Start E sched o1 o2 s w = Some (None, s'\<lparr>s_running := True\<rparr>, w')"
      using idle(1) w'(1) None s' by (simp add: Start_def performRecovery_def)
    have eq: "s' = ?s\<lparr>s_tickers := s_tickers s', s_watchers := s_watchers s @ map WatchTop (filter (runnable s) o2)\<rparr>"
      using watchedD(1) [OF w] unfolding same by simp
    have "s_jobs s' = s_jobs s" "p_started (s_pool s')" "s_watchers s' = s_watchers s @ map WatchTop (filter (runnable s) o2)"
      by (subst eq, simp add: Pool_Start_def)+
    moreover have "\<forall>i job. active_job s i job \<and> \<not> j_Paused job \<longrightarrow>
        (\<exists>tick. s_tickers s' (j_Ticker job) = Some tick \<and> ticker_runs tick)"
      using watchedD(3) [OF w] o2 unfolding same by (auto simp: active_job_def)
    moreover have "booted E s (w_clock w) (w_clock w') o2 (abs (w_store w)) (abs (w_store w'))"
      using w'(3) booted_order [of o1 o2 E s] unfolding o1(2) o2 recovery_end_def None option.case by simp
    ultimately have "started E (w_clock w) (w_clock w') o2 s (abs (w_store w)) (s'\<lparr>s_running := True\<rparr>) (abs (w_store w'))"
      unfolding started_def by simp
    then show ?thesis using run w'(2) by auto
  qed
qed

end

subsection \<open>Properties\<close>

text \<open>
  C4. Starting a scheduler on a BadgerDB that does not fail, with the jobs it has registered, whatever the
  order in which the map of jobs is iterated. If the tickers can list what was missed, the start
  succeeds: for every active job, a paused one included, exactly the occurrences that its recovery
  strategy selects among those its ticker lists since the last run (or for the last 24 hours) have been
  run to their end, before the pool is started, except those recorded before; all other records of
  occurrences are as they were; the pool is started, and exactly the active jobs that are not paused
  have a watcher and a started ticker. Otherwise the start fails with the error of the first ticker
  that cannot, the jobs recovered before it stay recovered, and the scheduler is as it was. The
  intervals end at clock readings made during the start.
\<close>

theorem start_recovers:
  assumes "badger_db_reliable B contents" "s_store s = BadgerStorage B" "ex_store (s_exec s) = BadgerStorage B"
    and "uuid_text (NewSHA1 E)" "clock_ok E" "keys_ok (contents (w_store w))" "jobs_keyed s"
    and "\<not> s_running s" "\<not> p_started (s_pool s)" "\<not> p_stopping (s_pool s)"
    and "distinct o1" "set o1 = dom (s_jobs s)" "set o2 = dom (s_jobs s)"
    and "\<forall>i job. active_job s i job \<longrightarrow> recoverable E sched s (w_clock w) (abs_of (contents (w_store w))) job"
  shows "\<exists>r s' w'. Start E sched o1 o2 s w = Some (r, s', w') \<and> keys_ok (contents (w_store w'))
    \<and> (case r of
         None \<Rightarrow> started E (w_clock w) (w_clock w') o2 s (abs_of (contents (w_store w))) s' (abs_of (contents (w_store w')))
       | Some err \<Rightarrow> not_started E (w_clock w) (w_clock w') o1 s (abs_of (contents (w_store w))) s'
           (abs_of (contents (w_store w'))) err)"
  by (rule reliable_storage.Start_here [OF badger_db_reliable.implements_reliable_storage [OF assms(1)] assms(2-)])

text \<open>A scheduler whose job has a one-time ticker for an hour ago.\<close>

definition sample_late :: "OnceTicker result" where
  "sample_late = NewOnceTicker (\<lambda>z. Inr UTC) 0 \<lparr>instant = - Hour, loc = 0\<rparr>
     \<lparr>tk_StartTime = None, tk_EndTime = None, tk_Timezone = ''''\<rparr>"

definition sample_booting :: "OnceTicker \<Rightarrow> (mem, unit) Scheduler" where
  "sample_booting t = sample_knowing\<lparr>s_tickers := [0 \<mapsto> TOnce t]\<rparr>"

lemma sample_late_missed:
  assumes "sample_late = Inr t"
  shows "missed sample_env (TOnce t) sample_stored_job m = Inr [\<lparr>instant = - Hour, loc = 0\<rparr>]"
  using assms
  by (auto simp: sample_late_def NewOnceTicker_def new_core_def TickerCore.extend_def OnceTicker.fields_def missed_def since_def
      sample_stored_job_def sample_env_def atUTC_def Once_GetOccurrencesBetween_def After_def Before_def In_def UTC_def
      Once_isWithinWindow_def withinWindow_def)

lemma sample_recoverable:
  assumes "sample_late = Inr t" "active_job (sample_booting t) i job"
  shows "recoverable sample_env sched (sample_booting t) c (abs_of (map_of (w_store sample_job_world))) job"
proof -
  have job: "job = sample_taskless"
    using assms(2) by (auto simp: active_job_def sample_booting_def sample_knowing_def split: if_splits)
  have f: "j_ID sample_taskless = ''job_1''" "j_Tasks sample_taskless = []" "j_Ticker sample_taskless = 0"
    by (simp_all add: sample_taskless_def sample_watched_def)
  have "executions_return sample_env e sched sample_taskless" for e :: "(mem, unit) Executor"
    unfolding executions_return_def
    by (intro allI ExecuteJobOccurrence_returns) (simp_all add: f sample_taskless_def sample_watched_def sample_mode)
  moreover have "year_ok (- Hour)" by code_simp
  ultimately show ?thesis
    using sample_late_missed [OF assms(1)] sample_job_id_ok sample_job_store(2)
    unfolding job recoverable_def f by (simp add: sample_booting_def)
qed

theorem start_recovers_witness:
  "\<exists>t s' w'. sample_late = Inr t
     \<and> Start sample_env (\<lambda>oc. []) [''job_1''] [''job_1''] (sample_booting t) sample_job_world = Some (None, s', w')
     \<and> s_running s' \<and> s_watchers s' = [WatchTop ''job_1'']
     \<and> a_occs (abs_of (map_of (w_store w'))) (occ_of sample_env sample_taskless \<lparr>instant = - Hour, loc = 0\<rparr>) \<noteq> None"
proof -
  obtain t where t: "sample_late = Inr t" by (simp add: sample_late_def NewOnceTicker_def)
  let ?s = "sample_booting t" and ?a = "abs_of (map_of (w_store sample_job_world))"
  have s: "s_store ?s = mem_storage" "ex_store (s_exec ?s) = mem_storage" "jobs_keyed ?s" "\<not> s_running ?s"
    "\<not> p_started (s_pool ?s)" "\<not> p_stopping (s_pool ?s)" "s_watchers ?s = []" "s_jobs ?s = [''job_1'' \<mapsto> sample_taskless]"
    by (auto simp: sample_booting_def sample_knowing_def sample_node_def NewScheduler_def SetMetrics_def NewExecutor_def
        NewWorkerPool_def jobs_keyed_def sample_taskless_def sample_watched_def)
  have orders: "distinct [''job_1'']" "set [''job_1''] = dom (s_jobs ?s)" by (simp_all add: s(8))
  have act: "active_job ?s ''job_1'' sample_taskless" "runnable ?s ''job_1''"
    by (simp_all add: active_job_def runnable_def s(8) sample_taskless_def sample_watched_def)
  from start_recovers [OF mem.badger_db_reliable_axioms s(1,2) sample_env_ok sample_job_store(1) s(3-6) orders orders(2),
      where sched = "\<lambda>oc. []"] sample_recoverable [OF t]
  obtain r s' w' where run: "Start sample_env (\<lambda>oc. []) [''job_1''] [''job_1''] ?s sample_job_world = Some (r, s', w')"
    and out: "case r of
         None \<Rightarrow> started sample_env (w_clock sample_job_world) (w_clock w') [''job_1''] ?s ?a s' (abs_of (map_of (w_store w')))
       | Some err \<Rightarrow> not_started sample_env (w_clock sample_job_world) (w_clock w') [''job_1''] ?s ?a s'
           (abs_of (map_of (w_store w'))) err" by blast
  have listed: "\<not> unlisted sample_env ?s c c' ?a sample_taskless e" for c c' e
    using sample_late_missed [OF t] sample_job_store(2)
    by (auto simp: unlisted_def sample_booting_def sample_taskless_def sample_watched_def)
  have "r = None"
  proof (cases r)
    case (Some err)
    then obtain j job e where "active_job ?s j job" "unlisted sample_env ?s (w_clock sample_job_world) (w_clock w') ?a job e"
      using out by (auto simp: not_started_def)
    then show ?thesis using listed s(8) by (auto simp: active_job_def split: if_splits)
  qed simp
  then have st: "started sample_env (w_clock sample_job_world) (w_clock w') [''job_1''] ?s ?a s' (abs_of (map_of (w_store w')))"
    using out by simp
  have r: "s_running s'" "s_watchers s' = [WatchTop ''job_1'']" using st act(2) s(7) by (simp_all add: started_def)
  have "job_recovered sample_env ?s (w_clock sample_job_world) (w_clock w') ?a (abs_of (map_of (w_store w'))) sample_taskless"
    using st act(1) unfolding started_def booted_def by simp
  then obtain m ts sel where ts: "missed sample_env (TOnce t) sample_stored_job m = Inr ts"
    and sel: "sel = selected_times (j_Config sample_taskless) (Now sample_env (Suc (now_reading sample_stored_job m))) ts"
    and occ: "\<forall>u \<in> set sel.
      case a_occs ?a (occ_of sample_env sample_taskless u) of
        Some r \<Rightarrow> a_occs (abs_of (map_of (w_store w'))) (occ_of sample_env sample_taskless u) = Some r
      | None \<Rightarrow> \<exists>r. a_occs (abs_of (map_of (w_store w'))) (occ_of sample_env sample_taskless u) = Some r
          \<and> recovered_record sample_taskless r"
    unfolding job_recovered_def using sample_job_store(2)
    by (auto simp: sample_booting_def sample_taskless_def sample_watched_def)
  have "selected_times (j_Config sample_taskless) now us = us" for now us
    by (simp add: selected_times_def sample_taskless_def sample_watched_def sample_job_def)
  then have "a_occs (abs_of (map_of (w_store w'))) (occ_of sample_env sample_taskless \<lparr>instant = - Hour, loc = 0\<rparr>) \<noteq> None"
    using occ ts sample_late_missed [OF t] unfolding sel by (auto split: option.splits)
  then show ?thesis using t run r \<open>r = None\<close> by blast
qed

end
