(* ===== verification/SchedulerLife.thy ===== *)
theory SchedulerLife
  imports SchedulerStart
begin

text \<open>
  A scheduler over its whole life as a state machine: the calls of its clients, its watchers, the steps
  of the pool, the reaper and the tickers, in any order and with any contents of the store. A step on
  a crashed process does not exist. The world a step runs in is arbitrary, so every interleaving of
  the effects on the store is covered.
\<close>

definition alive :: "('s, 'm) Scheduler \<Rightarrow> bool" where
  "alive s \<longleftrightarrow> \<not> p_crashed (s_pool s) \<and> \<not> rp_crashed (s_reaper s)"

inductive sched_step :: "('s, 'm) Scheduler \<Rightarrow> ('s, 'm) Scheduler \<Rightarrow> bool"
where
  register: "alive s \<Longrightarrow> RegisterJob E job s w = (r, s', w') \<Longrightarrow> sched_step s s'"
| update: "alive s \<Longrightarrow> Scheduler_UpdateJob E order u s w = Some (r, s', w') \<Longrightarrow> sched_step s s'"
| start: "alive s \<Longrightarrow> s_shutdown s = NoShutdown \<Longrightarrow> distinct o2 \<Longrightarrow> Start E sched o1 o2 s w = Some (r, s', w') \<Longrightarrow>
    sched_step s s'"
| watch: "alive s \<Longrightarrow> watchJob E i b s w = Some (s', w') \<Longrightarrow> sched_step s s'"
| tickers: "alive s \<Longrightarrow> sched_step s (s\<lparr>s_tickers := tks\<rparr>)"
| caller: "alive s \<Longrightarrow> Pool_caller i c (s_pool s) = Some p \<Longrightarrow> sched_step s (s\<lparr>s_pool := p\<rparr>)"
| worker: "alive s \<Longrightarrow> Pool_worker i c (s_pool s) = Some p \<Longrightarrow> sched_step s (s\<lparr>s_pool := p\<rparr>)"
| reaper: "alive s \<Longrightarrow> Reaper_run E (s_canceled s) rb (s_reaper s) (w :: ('s, 'm) World) = Some (rp, w') \<Longrightarrow> sched_step s (s\<lparr>s_reaper := rp\<rparr>)"
| shutdown: "alive s \<Longrightarrow> s_shutdown s = NoShutdown \<Longrightarrow> Shutdown order s = Some s' \<Longrightarrow> sched_step s s'"
| waited: "alive s \<Longrightarrow> Shutdown_waited timeout s = Some s' \<Longrightarrow> sched_step s s'"
| returns: "alive s \<Longrightarrow> Shutdown_returns s = Some s' \<Longrightarrow> sched_step s s'"

subsection \<open>Recovery on a pool that is not started leaves the pool alone\<close>

lemma recover_pool:
  assumes "\<not> p_started p" "\<not> p_stopping p" "recover E sched r job label ts (w, p) = Some (w', p')"
  shows "p' = p"
  using assms(3)
proof (induction ts arbitrary: w)
  case (Cons t ts)
  obtain err w1 p1 where one: "scheduleRecoveryRun E sched r job t label (w, p) = Some (err, w1, p1)"
    "recover E sched r job label ts (w1, p1) = Some (w', p')"
    using Cons.prems by (auto split: option.splits prod.splits)
  have "p1 = p"
    using one(1) assms(1,2)
    by (auto simp: scheduleRecoveryRun_def Submit_alone_def Let_def split: prod.splits option.splits)
  then show ?case using Cons.IH one(2) by simp
qed simp

lemma ApplyStrategy_pool:
  assumes "\<not> p_started p" "\<not> p_stopping p" "ApplyStrategy E sched r job ts (w, p) = Some (err, w', p')"
  shows "p' = p"
proof (cases "ts = []")
  case True
  then show ?thesis using assms(3) by (simp add: ApplyStrategy_def)
next
  case False
  then show ?thesis using assms(3) recover_pool [OF assms(1,2)] by (auto simp: ApplyStrategy_recover)
qed

lemma recoverJob_pool:
  assumes "\<not> p_started p" "\<not> p_stopping p" "recoverJob E sched s r job (w, p) = Some (err, w', p')"
  shows "p' = p"
  using assms(3) ApplyStrategy_pool [OF assms(1,2)]
  by (auto simp: recoverJob_def Let_def split: if_splits sum.splits option.splits prod.splits)

lemma recoverJobs_pool:
  assumes "\<not> p_started p" "\<not> p_stopping p" "recoverJobs E sched s r order (w, p) = Some (err, w', p')"
  shows "p' = p"
  using assms(3)
proof (induction order arbitrary: w)
  case (Cons j order)
  show ?case
  proof (cases "s_jobs s j")
    case None
    then show ?thesis using Cons by simp
  next
    case (Some job)
    then obtain e w1 p1 where one: "recoverJob E sched s r job (w, p) = Some (e, w1, p1)"
      and rest: "(case e of Some x \<Rightarrow> Some (Some x, w1, p1) | None \<Rightarrow> recoverJobs E sched s r order (w1, p1))
        = Some (err, w', p')"
      using Cons.prems by (auto split: option.splits prod.splits)
    have "p1 = p" using recoverJob_pool [OF assms(1,2) one] .
    then show ?thesis using rest Cons.IH by (cases e) auto
  qed
qed simp

lemma startJobs_effect:
  "startJobs order s = Some s' \<Longrightarrow>
   s' = s\<lparr>s_tickers := s_tickers s', s_watchers := s_watchers s @ map WatchTop (filter (runnable s) order)\<rparr>"
proof (induction order arbitrary: s)
  case (Cons i order)
  show ?case
  proof (cases "runnable s i")
    case False
    then have "startJobs order s = Some s'"
      using Cons.prems by (auto simp: runnable_def split: option.splits if_splits)
    then show ?thesis using Cons.IH False by simp
  next
    case True
    then obtain job where job: "s_jobs s i = Some job" "j_Active job" "\<not> j_Paused job" by (auto simp: runnable_def)
    obtain tick where run: "startJobs order (s\<lparr>s_tickers := (s_tickers s)(j_Ticker job \<mapsto> tick),
        s_watchers := s_watchers s @ [WatchTop i]\<rparr>) = Some s'" (is "startJobs order ?s = _")
      using Cons.prems job by (auto split: option.splits prod.splits)
    have same: "runnable ?s = runnable s" by (auto simp: runnable_def)
    show ?thesis by (subst Cons.IH [OF run]) (simp add: same True)
  qed
qed simp

lemma Start_cases:
  assumes "Start E sched o1 o2 s w = Some (r, s', w')" "\<not> p_started (s_pool s)" "\<not> p_stopping (s_pool s)"
  obtains (unchanged) "s' = s"
  | (started) tks where "\<not> s_running s" "r = None"
      "s' = s\<lparr>s_reaper := Reaper_Start (s_reaper s), s_pool := Pool_Start (s_pool s), s_tickers := tks,
              s_watchers := s_watchers s @ map WatchTop (filter (runnable s) o2), s_running := True\<rparr>"
proof -
  have "s' = s \<or> (\<not> s_running s \<and> r = None \<and> (\<exists>tks.
      s' = s\<lparr>s_reaper := Reaper_Start (s_reaper s), s_pool := Pool_Start (s_pool s), s_tickers := tks,
              s_watchers := s_watchers s @ map WatchTop (filter (runnable s) o2), s_running := True\<rparr>))"
  proof (cases "s_running s")
    case True
    then show ?thesis using assms(1) by (simp add: Start_def)
  next
    case False
    let ?r = "Recovery_SetMetrics (NewRecoveryHandler (s_store s) (s_exec s)) (s_metrics s)"
    let ?s = "s\<lparr>s_reaper := Reaper_Start (s_reaper s), s_pool := Pool_Start (s_pool s)\<rparr>"
    obtain e w1 p1 where rec: "recoverJobs E sched s ?r o1 (w, s_pool s) = Some (e, w1, p1)"
      using assms(1) False by (auto simp: Start_def performRecovery_def split: option.splits prod.splits)
    have p1: "p1 = s_pool s" using recoverJobs_pool [OF assms(2,3) rec] .
    show ?thesis
    proof (cases e)
      case (Some x)
      then show ?thesis using assms(1) False rec p1 by (simp add: Start_def performRecovery_def)
    next
      case None
      then obtain s1 where s1: "startJobs o2 ?s = Some s1" "s' = s1\<lparr>s_running := True\<rparr>" "r = None"
        using assms(1) False rec p1 by (auto simp: Start_def performRecovery_def Let_def)
      have same: "runnable ?s = runnable s" by (auto simp: runnable_def)
      have "s' = s\<lparr>s_reaper := Reaper_Start (s_reaper s), s_pool := Pool_Start (s_pool s), s_tickers := s_tickers s1,
              s_watchers := s_watchers s @ map WatchTop (filter (runnable s) o2), s_running := True\<rparr>"
        unfolding s1(2) by (subst startJobs_effect [OF s1(1)]) (simp add: same)
      then show ?thesis using False s1(3) by blast
    qed
  qed
  then show thesis using that by blast
qed

subsection \<open>The invariant\<close>

text \<open>The job of a watcher. A watcher returns only after the cancellation.\<close>

fun watcher_job :: "watcher \<Rightarrow> string option" where
  "watcher_job (WatchTop j) = Some j"
| "watcher_job (Watching j a) = Some j"
| "watcher_job (Claiming j x) = Some j"
| "watcher_job (Submitting j c) = Some j"
| "watcher_job Unwatched = None"

definition watchers_ok :: "('s, 'm) Scheduler \<Rightarrow> bool" where
  "watchers_ok s \<longleftrightarrow> distinct (map watcher_job (s_watchers s))
     \<and> set (map watcher_job (s_watchers s)) \<subseteq> Some ` dom (s_jobs s) \<and> (\<not> s_running s \<longrightarrow> s_watchers s = [])"

definition sched_inv :: "('s, 'm) Scheduler \<Rightarrow> bool" where
  "sched_inv s \<longleftrightarrow>
     pool_inv (s_pool s) \<and> jobs_keyed s
     \<and> (\<not> s_running s \<longrightarrow> s_shutdown s = NoShutdown \<and> \<not> p_started (s_pool s))
     \<and> (p_stopping (s_pool s) \<longrightarrow> s_shutdown s = AwaitingPool)
     \<and> (s_shutdown s = AwaitingPool \<longrightarrow> p_stopping (s_pool s) \<or> \<not> p_started (s_pool s) \<or> p_crashed (s_pool s))
     \<and> (s_shutdown s \<noteq> NoShutdown \<longrightarrow> s_canceled s) \<and> (s_canceled s \<or> watchers_ok s)"

text \<open>The fields a step of the pool by a worker or a caller leaves alone.\<close>

lemma pool_flags:
  "Pool_caller i c p = Some p' \<Longrightarrow> p_started p' = p_started p \<and> p_stopping p' = p_stopping p"
  "Pool_worker i c p = Some p' \<Longrightarrow> p_started p' = p_started p \<and> p_stopping p' = p_stopping p"
  by (auto simp: set_caller_def elim!: Pool_caller_cases Pool_worker_cases)

lemma pool_crash_kept: "Pool_worker i c p = Some p' \<Longrightarrow> p_crashed p' = p_crashed p"
  by (auto elim!: Pool_worker_cases)

lemma pool_crash_caller: "Pool_caller i c p = Some p' \<Longrightarrow> p_crashed p \<Longrightarrow> p_crashed p'"
  by (auto simp: set_caller_def elim!: Pool_caller_cases)

lemma watchJob_cases:
  assumes "watchJob E i b s w = Some (s', w')"
  obtains (moves) v tks where "i < length (s_watchers s)" "v = Unwatched \<longrightarrow> s_canceled s"
      "v \<noteq> Unwatched \<longrightarrow> watcher_job v = watcher_job (s_watchers s ! i)"
      "s' = set_watcher i v (s\<lparr>s_tickers := tks\<rparr>)"
  | (submits) v f where "i < length (s_watchers s)" "watcher_job v = watcher_job (s_watchers s ! i)" "v \<noteq> Unwatched"
      "s' = set_watcher i v (submit f s)"
proof -
  have i: "i < length (s_watchers s)" using assms by (simp add: watchJob_def split: if_splits)
  have "(\<exists>v tks. (v = Unwatched \<longrightarrow> s_canceled s) \<and> (v \<noteq> Unwatched \<longrightarrow> watcher_job v = watcher_job (s_watchers s ! i))
        \<and> s' = set_watcher i v (s\<lparr>s_tickers := tks\<rparr>))
    \<or> (\<exists>v f. watcher_job v = watcher_job (s_watchers s ! i) \<and> v \<noteq> Unwatched \<and> s' = set_watcher i v (submit f s))"
  proof (cases "s_watchers s ! i")
    case (WatchTop j)
    then obtain a where "s' = set_watcher i (Watching j a) s"
      using assms i by (auto simp: watchJob_def split: watch_branch.splits option.splits)
    then show ?thesis using WatchTop by (intro disjI1 exI [of _ "Watching j a"] exI [of _ "s_tickers s"]) simp
  next
    case (Watching j a)
    show ?thesis
    proof (cases b)
      case CtxCanceled
      then have "s_canceled s" "s' = set_watcher i Unwatched s"
        using assms i Watching by (auto simp: watchJob_def split: if_splits)
      then show ?thesis by (intro disjI1 exI [of _ Unwatched] exI [of _ "s_tickers s"]) simp
    next
      case Triggered
      then obtain job x tick where "s' = set_watcher i (if overlapAllows s job w then Claiming j x else WatchTop j)
          (s\<lparr>s_tickers := (s_tickers s)(a \<mapsto> tick)\<rparr>)" (is "s' = set_watcher i ?v (s\<lparr>s_tickers := ?tks\<rparr>)")
        using assms i Watching by (auto simp: watchJob_def split: option.splits)
      then show ?thesis using Watching by (intro disjI1 exI [of _ ?v] exI [of _ ?tks]) simp
    next
      case GoOn
      then show ?thesis using assms i Watching by (simp add: watchJob_def)
    qed
  next
    case (Claiming j x)
    then obtain job where job: "s_jobs s j = Some job" and b: "b = GoOn"
      using assms i by (auto simp: watchJob_def split: watch_branch.splits option.splits)
    obtain r w1 where c: "claimOccurrence E s job x w = (r, w1)" by (cases "claimOccurrence E s job x w")
    show ?thesis
    proof (cases r)
      case None
      then have "s' = set_watcher i (WatchTop j) s" using assms i Claiming job b c by (simp add: watchJob_def)
      then show ?thesis using Claiming by (intro disjI1 exI [of _ "WatchTop j"] exI [of _ "s_tickers s"]) simp
    next
      case (Some f)
      then have "s' = set_watcher i (Submitting j (length (p_callers (s_pool s)))) (submit f s)"
        using assms i Claiming job b c by (simp add: watchJob_def)
      then show ?thesis using Claiming by (intro disjI2 exI [of _ "Submitting j (length (p_callers (s_pool s)))"] exI [of _ f]) simp
    qed
  next
    case (Submitting j c)
    then have "s' = set_watcher i (WatchTop j) s"
      using assms i by (auto simp: watchJob_def split: watch_branch.splits if_splits)
    then show ?thesis using Submitting by (intro disjI1 exI [of _ "WatchTop j"] exI [of _ "s_tickers s"]) simp
  next
    case Unwatched
    then show ?thesis using assms i by (simp add: watchJob_def)
  qed
  then show thesis using that i by blast
qed

lemma stopTickers_effect: "stopTickers order s = Some s' \<Longrightarrow> \<exists>tks. s' = s\<lparr>s_tickers := tks\<rparr>"
proof (induction order arbitrary: s)
  case Nil
  then show ?case by (intro exI [of _ "s_tickers s"]) simp
next
  case (Cons j order)
  show ?case
  proof (cases "s_jobs s j")
    case None
    then show ?thesis using Cons by simp
  next
    case (Some job)
    then obtain tick where "stopTickers order (s\<lparr>s_tickers := (s_tickers s)(j_Ticker job \<mapsto> tick)\<rparr>) = Some s'"
      using Cons.prems by (auto split: option.splits)
    from Cons.IH [OF this] show ?thesis by auto
  qed
qed

text \<open>Updating one watcher within its job keeps the watchers in order.\<close>

lemma watchers_update:
  assumes "watchers_ok s" "i < length (s_watchers s)" "watcher_job v = watcher_job (s_watchers s ! i)"
    "s_watchers s' = (s_watchers s)[i := v]" "s_jobs s' = s_jobs s" "s_running s' = s_running s"
  shows "watchers_ok s'"
proof -
  have "map watcher_job ((s_watchers s)[i := v]) = map watcher_job (s_watchers s)"
    using assms(2,3) by (simp add: map_update list_update_same_conv)
  then show ?thesis using assms(1,4-6) assms(2) unfolding watchers_ok_def by auto
qed

lemma watchers_jobs:
  assumes "watchers_ok s" "s_watchers s' = s_watchers s" "dom (s_jobs s) \<subseteq> dom (s_jobs s')" "s_running s' = s_running s"
  shows "watchers_ok s'"
  using assms(1) image_mono [OF assms(3), of Some] unfolding watchers_ok_def assms(2,4) by blast

lemma RegisterJob_effect:
  "RegisterJob E job s w = (r, s', w') \<Longrightarrow> s' = s \<or> s_jobs s (j_ID job) = None \<and> s' = s\<lparr>s_jobs := (s_jobs s)(j_ID job \<mapsto> job)\<rparr>"
  by (auto simp: RegisterJob_def Let_def split: option.splits prod.splits)

lemma UpdateJob_effect:
  assumes "Scheduler_UpdateJob E order u s w = Some (r, s', w')"
  shows "s' = s \<or> (\<exists>job job' tks. s_jobs s (u_JobID u) = Some job \<and> j_ID job' = j_ID job
    \<and> s' = s\<lparr>s_jobs := (s_jobs s)(u_JobID u \<mapsto> job'), s_tickers := tks\<rparr>)"
  using assms
proof (cases rule: UpdateJob_cases)
  case (applied job)
  from applied(5) [unfolded applied(6)] applied(1) show ?thesis by fastforce
qed simp_all

lemma inv_same_control:
  assumes "sched_inv s" "s_running s' = s_running s" "s_shutdown s' = s_shutdown s" "s_canceled s' = s_canceled s"
    "pool_inv (s_pool s')" "p_started (s_pool s') = p_started (s_pool s)" "p_stopping (s_pool s') = p_stopping (s_pool s)"
    "p_crashed (s_pool s) \<Longrightarrow> p_crashed (s_pool s')" "jobs_keyed s'" "watchers_ok s \<Longrightarrow> s_canceled s \<or> watchers_ok s'"
  shows "sched_inv s'"
  using assms unfolding sched_inv_def by auto

lemma start_watchers:
  assumes "watchers_ok s" "\<not> s_running s" "distinct order"
    "s_watchers s' = s_watchers s @ map WatchTop (filter (runnable s) order)" "s_jobs s' = s_jobs s" "s_running s'"
  shows "watchers_ok s'"
proof -
  have "map watcher_job (s_watchers s') = map Some (filter (runnable s) order)"
    using assms(1,2,4) by (simp add: watchers_ok_def comp_def)
  moreover have "set (filter (runnable s) order) \<subseteq> dom (s_jobs s)" by (auto simp: runnable_def)
  ultimately show ?thesis using assms(3,5,6) unfolding watchers_ok_def
    by (auto simp: distinct_map)
qed

text \<open>One lemma for each kind of step: it keeps the invariant and moves the pool by steps of the pool.\<close>

abbreviation good_move :: "('s, 'm) Scheduler \<Rightarrow> ('s, 'm) Scheduler \<Rightarrow> bool" where
  "good_move s s' \<equiv> sched_inv s' \<and> pool_step\<^sup>*\<^sup>* (s_pool s) (s_pool s')"

lemma register_move:
  assumes inv: "sched_inv s" and run: "RegisterJob E job s w = (r, s', w')"
  shows "good_move s s'"
proof (cases "s' = s")
  case True
  then show ?thesis using inv by simp
next
  case False
  then have s': "s' = s\<lparr>s_jobs := (s_jobs s)(j_ID job \<mapsto> job)\<rparr>" using RegisterJob_effect [OF run] by blast
  have "sched_inv s'"
  proof (rule inv_same_control [OF inv])
    show "jobs_keyed s'" using inv unfolding s' by (auto simp: sched_inv_def jobs_keyed_def)
    show "watchers_ok s \<Longrightarrow> s_canceled s \<or> watchers_ok s'" using watchers_jobs [of s s'] unfolding s' by auto
  qed (insert inv, simp_all add: s' sched_inv_def)
  then show ?thesis unfolding s' by simp
qed

lemma update_move:
  assumes inv: "sched_inv s" and run: "Scheduler_UpdateJob E order u s w = Some (r, s', w')"
  shows "good_move s s'"
proof (cases "s' = s")
  case True
  then show ?thesis using inv by simp
next
  case False
  then obtain job job' tks where j: "s_jobs s (u_JobID u) = Some job" "j_ID job' = j_ID job"
      and s': "s' = s\<lparr>s_jobs := (s_jobs s)(u_JobID u \<mapsto> job'), s_tickers := tks\<rparr>"
    using UpdateJob_effect [OF run] by blast
  have "sched_inv s'"
  proof (rule inv_same_control [OF inv])
    show "jobs_keyed s'" using inv j unfolding s' by (auto simp: sched_inv_def jobs_keyed_def)
    show "watchers_ok s \<Longrightarrow> s_canceled s \<or> watchers_ok s'" using watchers_jobs [of s s'] unfolding s' by auto
  qed (insert inv, simp_all add: s' sched_inv_def)
  then show ?thesis unfolding s' by simp
qed

lemma start_move:
  assumes inv: "sched_inv s" and run: "Start E sched o1 o2 s w = Some (r, s', w')"
    and pre: "alive s" "s_shutdown s = NoShutdown" "distinct o2"
  shows "good_move s s'"
proof (cases "s_running s")
  case True
  then show ?thesis using run inv by (simp add: Start_def)
next
  case False
  then have p: "\<not> p_started (s_pool s)" "\<not> p_stopping (s_pool s)" using inv pre(2) by (auto simp: sched_inv_def)
  have i: "pool_inv (s_pool s)" "jobs_keyed s" "s_canceled s \<or> watchers_ok s" using inv by (simp_all add: sched_inv_def)
  from run p show ?thesis
  proof (cases rule: Start_cases)
    case unchanged
    then show ?thesis using inv by simp
  next
    case (started tks)
    let ?p = "Pool_Start (s_pool s)"
    have "pool_step (s_pool s) ?p" using pre(1) p(2) by (intro pool_step.start) (simp_all add: alive_def)
    moreover have "pool_inv ?p" by (rule pool_start_inv [OF i(1) p(2)])
    moreover have "\<not> p_stopping ?p" using p by (simp add: Pool_Start_def)
    moreover have "s_canceled s \<or> watchers_ok s'"
      using i(3) start_watchers [OF _ False pre(3), of s'] unfolding started(3) by auto
    moreover have "jobs_keyed s'" using i(2) unfolding started(3) by (simp add: jobs_keyed_def)
    ultimately show ?thesis using pre(2) unfolding started(3) by (auto simp: sched_inv_def)
  qed
qed

lemma watch_move:
  assumes inv: "sched_inv s" and run: "watchJob E i b s w = Some (s', w')" and live: "alive s"
  shows "good_move s s'"
  using run
proof (cases rule: watchJob_cases)
  case (moves v tks)
  have "sched_inv s'"
  proof (rule inv_same_control [OF inv])
    show "watchers_ok s \<Longrightarrow> s_canceled s \<or> watchers_ok s'"
      using watchers_update [of s i v s'] moves by (auto simp: set_watcher_def)
  qed (insert inv moves, simp_all add: set_watcher_def sched_inv_def jobs_keyed_def)
  then show ?thesis using moves by (simp add: set_watcher_def)
next
  case (submits v f)
  have pool: "s_pool s' = Pool_Submit f (s_pool s)" using submits by (simp add: set_watcher_def submit_def)
  have step: "pool_step (s_pool s) (s_pool s')" using live unfolding pool by (intro pool_step.submit) (simp add: alive_def)
  have "sched_inv s'"
  proof (rule inv_same_control [OF inv])
    show "watchers_ok s \<Longrightarrow> s_canceled s \<or> watchers_ok s'"
      using watchers_update [of s i v s'] submits by (auto simp: set_watcher_def submit_def)
    show "pool_inv (s_pool s')" using pool_step_inv [OF step] inv by (simp add: sched_inv_def)
    show "jobs_keyed s'" using inv submits by (simp add: set_watcher_def submit_def sched_inv_def jobs_keyed_def)
  qed (insert submits, simp_all add: set_watcher_def submit_def Pool_Submit_def)
  then show ?thesis using step by blast
qed

lemma tickers_move: "sched_inv s \<Longrightarrow> good_move s (s\<lparr>s_tickers := tks\<rparr>)"
  by (simp add: sched_inv_def jobs_keyed_def watchers_ok_def)

lemma reaper_move: "sched_inv s \<Longrightarrow> good_move s (s\<lparr>s_reaper := rp\<rparr>)"
  by (simp add: sched_inv_def jobs_keyed_def watchers_ok_def)

lemma pool_move:
  assumes "sched_inv s" "pool_step (s_pool s) p" "p_started p = p_started (s_pool s)"
    "p_stopping p = p_stopping (s_pool s)" "p_crashed (s_pool s) \<Longrightarrow> p_crashed p"
  shows "good_move s (s\<lparr>s_pool := p\<rparr>)"
  using assms pool_step_inv [OF assms(2)] by (auto simp: sched_inv_def jobs_keyed_def watchers_ok_def)

lemma shutdown_move:
  assumes inv: "sched_inv s" and run: "Shutdown order s = Some s'" and pre: "s_shutdown s = NoShutdown"
  shows "good_move s s'"
proof (cases "s_running s")
  case False
  then show ?thesis using run inv by (simp add: Shutdown_def)
next
  case True
  then obtain s1 where s1: "stopTickers order s = Some s1"
    "s' = s1\<lparr>s_canceled := True, s_shutdown := AwaitingWatchers\<rparr>"
    using run by (auto simp: Shutdown_def)
  obtain tks where "s1 = s\<lparr>s_tickers := tks\<rparr>" using stopTickers_effect [OF s1(1)] by blast
  then show ?thesis using inv pre True unfolding s1(2) by (auto simp: sched_inv_def jobs_keyed_def)
qed

lemma waited_move:
  assumes inv: "sched_inv s" and run: "Shutdown_waited timeout s = Some s'" and live: "alive s"
  shows "good_move s s'"
proof -
  have s: "s_shutdown s = AwaitingWatchers" "s' = s\<lparr>s_pool := Pool_Stop (s_pool s), s_shutdown := AwaitingPool\<rparr>"
    using run by (auto simp: Shutdown_waited_def split: if_splits)
  have p: "\<not> p_stopping (s_pool s)" "s_running s" using inv s(1) by (auto simp: sched_inv_def)
  have "pool_step (s_pool s) (Pool_Stop (s_pool s))"
    using p(1) live by (intro pool_step.stop) (simp_all add: alive_def)
  moreover have "pool_inv (s_pool s)" using inv by (simp add: sched_inv_def)
  then have "pool_inv (Pool_Stop (s_pool s))" by (rule pool_stop_inv)
  moreover have "p_stopping (Pool_Stop (s_pool s)) \<or> \<not> p_started (Pool_Stop (s_pool s)) \<or> p_crashed (Pool_Stop (s_pool s))"
    by (simp add: Pool_Stop_def)
  ultimately show ?thesis using inv p(2) s(1) unfolding s(2) by (auto simp: sched_inv_def jobs_keyed_def watchers_ok_def)
qed

lemma returns_move:
  assumes inv: "sched_inv s" and run: "Shutdown_returns s = Some s'" and live: "alive s"
  shows "good_move s s'"
proof -
  obtain p where p: "(if p_stopping (s_pool s) then Pool_StopReturns (s_pool s) else Some (s_pool s)) = Some p"
    and s: "s_shutdown s = AwaitingPool" "s' = s\<lparr>s_pool := p, s_reaper := Reaper_Stop (s_reaper s), s_running := False,
      s_shutdown := NoShutdown\<rparr>"
    using run by (auto simp: Shutdown_returns_def split: if_splits option.splits)
  have fin: "\<not> p_started p" "\<not> p_stopping p" "pool_step\<^sup>*\<^sup>* (s_pool s) p"
    using p inv s(1) live pool_step.stopped [of "s_pool s" p]
    by (auto simp: sched_inv_def alive_def Pool_StopReturns_def split: if_splits)
  then have "pool_inv p" using pool_reach_inv inv by (auto simp: sched_inv_def)
  then show ?thesis using inv fin s(1) unfolding s(2) by (auto simp: sched_inv_def jobs_keyed_def)
qed

lemma sched_step_move:
  assumes "sched_step s s'" "sched_inv s"
  shows "good_move s s'"
  using assms
proof (induction rule: sched_step.induct)
  case (caller s i c p)
  then show ?case using pool_flags(1) [OF caller(2)] pool_crash_caller [OF caller(2)]
    by (intro pool_move pool_step.caller [of _ i c]) (simp_all add: alive_def)
next
  case (worker s i c p)
  then show ?case using pool_flags(2) [OF worker(2)] pool_crash_kept [OF worker(2)]
    by (intro pool_move pool_step.worker [of _ i c]) (simp_all add: alive_def)
next
  case register
  then show ?case by (metis register_move)
next
  case update
  then show ?case by (metis update_move)
next
  case start
  then show ?case by (metis start_move)
next
  case watch
  then show ?case by (metis watch_move)
next
  case tickers
  then show ?case using tickers_move by blast
next
  case reaper
  then show ?case using reaper_move by blast
next
  case shutdown
  then show ?case by (metis shutdown_move)
next
  case waited
  then show ?case by (metis waited_move)
next
  case returns
  then show ?case by (metis returns_move)
qed

lemma new_scheduler_inv: "sched_inv (NewScheduler cfg m S tks)"
  using new_pool_inv [of "MaxConcurrentJobs cfg"]
  by (simp add: sched_inv_def NewScheduler_def Let_def jobs_keyed_def watchers_ok_def NewWorkerPool_def)

lemma sched_reach_move:
  assumes "sched_step\<^sup>*\<^sup>* s s'" "sched_inv s"
  shows "good_move s s'"
  using assms
proof (induction rule: rtranclp_induct)
  case (step s1 s2)
  then show ?case using sched_step_move [OF step(2)] by (meson rtranclp_trans)
qed simp

text \<open>A pool that is not started has no task on a worker.\<close>

lemma unstarted_idle:
  assumes "pool_inv p" "\<not> p_started p"
  shows "running_tasks p = []"
proof -
  have "live (p_workers p) = 0" using assms by (simp add: pool_inv_def)
  then show ?thesis using held_le_live [of "p_workers p"] by (simp add: running_tasks_def)
qed

text \<open>The jobs that have a watcher, one entry per watcher.\<close>

definition watched_jobs :: "('s, 'm) Scheduler \<Rightarrow> string option list" where
  "watched_jobs s = map watcher_job (s_watchers s)"

subsection \<open>Properties\<close>

text \<open>
  C8. Over the whole life of a scheduler, whatever its clients call and however its goroutines are
  scheduled: its workers never run more occurrences at once than its configuration allows (10 if it
  says none), a scheduler that does not run has no occurrence on a worker, and until it is shut down
  every job has at most one watcher, and only registered jobs have one.
\<close>

theorem scheduler_lifecycle:
  assumes "sched_step\<^sup>*\<^sup>* (NewScheduler cfg m S tks) s"
  shows "int (length (running_tasks (s_pool s))) \<le> (if MaxConcurrentJobs cfg \<le> 0 then 10 else MaxConcurrentJobs cfg)
    \<and> (\<not> s_running s \<longrightarrow> running_tasks (s_pool s) = [])
    \<and> (\<not> s_canceled s \<longrightarrow> distinct (watched_jobs s) \<and> set (watched_jobs s) \<subseteq> Some ` dom (s_jobs s))"
proof -
  let ?s0 = "NewScheduler cfg m S tks"
  have inv: "sched_inv s" and pool: "pool_step\<^sup>*\<^sup>* (NewWorkerPool (MaxConcurrentJobs cfg)) (s_pool s)"
    using sched_reach_move [OF assms new_scheduler_inv] by (simp_all add: NewScheduler_def Let_def)
  have i: "pool_inv (s_pool s)" "\<not> s_running s \<Longrightarrow> \<not> p_started (s_pool s)" "s_canceled s \<or> watchers_ok s"
    using inv by (simp_all add: sched_inv_def)
  have "p_maxWorkers (s_pool s) = (if MaxConcurrentJobs cfg \<le> 0 then 10 else MaxConcurrentJobs cfg)"
    using pool_reach_max [OF pool] by (simp add: NewWorkerPool_def)
  moreover have "int (length (running_tasks (s_pool s))) \<le> p_maxWorkers (s_pool s)"
    using held_le_live [of "p_workers (s_pool s)"] i(1) by (simp add: running_tasks_def pool_inv_def)
  moreover have "\<not> s_canceled s \<longrightarrow> distinct (watched_jobs s) \<and> set (watched_jobs s) \<subseteq> Some ` dom (s_jobs s)"
    using i(3) unfolding watchers_ok_def watched_jobs_def by blast
  ultimately show ?thesis using unstarted_idle [OF i(1)] i(2) by simp
qed

theorem scheduler_lifecycle_witness:
  "\<exists>s w. Start sample_env (\<lambda>oc. []) [] [] (sample_node ''n1'') empty_world = Some (None, s, w) \<and> s_running s
     \<and> length (running_tasks (s_pool s)) \<le> 1 \<and> distinct (watched_jobs s)"
proof -
  let ?s0 = "sample_node ''n1''"
  obtain s w where run: "Start sample_env (\<lambda>oc. []) [] [] ?s0 empty_world = Some (None, s, w)"
    and s: "s_running s" "\<not> s_canceled s"
    by (simp add: Start_def performRecovery_def sample_node_def NewScheduler_def)
  have "alive ?s0" "s_shutdown ?s0 = NoShutdown"
    by (simp_all add: alive_def sample_node_def NewScheduler_def NewWorkerPool_def NewReaper_def)
  then have "sched_step\<^sup>*\<^sup>* ?s0 s" using sched_step.start [OF _ _ _ run] by auto
  from scheduler_lifecycle [OF this [unfolded sample_node_def]] s run show ?thesis by auto
qed

end
