(* ===== verification/StoreCalls.thy ===== *)
theory StoreCalls
  imports SchedulerLife
begin

text \<open>
  The program as a client of its store, one storage call at a time. The storage runs every call in one
  transaction, so the calls are the points at which nodes that share a store can interleave. \<open>call\<close> is
  one call the program makes other than a successful creation of an occurrence; it deletes no
  occurrence. Every operation of the program is shown to write to the store only by such calls and
  by the claims of triggers and recoveries, also when calls fail; so what holds for all sequences of
  calls and claims holds for all interleavings of the operations.
\<close>

subsection \<open>The calls\<close>

inductive call :: "'s Storage \<Rightarrow> 's \<Rightarrow> 's \<Rightarrow> bool" for S :: "'s Storage" where
  create_job: "job_id_ok (sj_ID jb) \<Longrightarrow> call S s (snd (CreateJob S s jb))"
| update_job: "job_id_ok (sj_ID jb) \<Longrightarrow> call S s (snd (StorageInterface.UpdateJob S s now jb))"
| create_task: "job_id_ok (st_JobID tk) \<Longrightarrow> task_id_ok (st_ID tk) \<Longrightarrow> call S s (snd (CreateTask S s tk))"
| update_task: "job_id_ok (st_JobID tk) \<Longrightarrow> task_id_ok (st_ID tk) \<Longrightarrow> call S s (snd (UpdateTask S s now tk))"
| delete_task: "task_id_ok i \<Longrightarrow> call S s (snd (DeleteTask S s i))"
| create_occ: "job_id_ok (so_JobID oc) \<Longrightarrow> occ_id_ok (so_ID oc) \<Longrightarrow> fst (CreateJobOccurrence S s oc) \<noteq> None \<Longrightarrow>
    call S s (snd (CreateJobOccurrence S s oc))"
| update_occ: "job_id_ok (so_JobID oc) \<Longrightarrow> occ_id_ok (so_ID oc) \<Longrightarrow> call S s (snd (UpdateJobOccurrence S s now oc))"
| create_run: "slash_free (tr_ID rn) \<Longrightarrow> call S s (snd (CreateTaskRun S s rn))"
| update_run: "slash_free (tr_ID rn) \<Longrightarrow> call S s (snd (UpdateTaskRun S s now rn))"
| create_attempt: "slash_free (ea_ID att) \<Longrightarrow> call S s (snd (CreateExecutionAttempt S s att))"
| update_attempt: "slash_free (ea_ID att) \<Longrightarrow> call S s (snd (UpdateExecutionAttempt S s att))"

abbreviation calls :: "'s Storage \<Rightarrow> 's \<Rightarrow> 's \<Rightarrow> bool" where
  "calls S \<equiv> (call S)\<^sup>*\<^sup>*"

lemmas calls_trans [trans] = rtranclp_trans [of "call S" for S]

text \<open>The keys of the recorded occurrences.\<close>

abbreviation recorded :: "AStore \<Rightarrow> (string \<times> string) set" where
  "recorded a \<equiv> dom (a_occs a)"

lemma create_dom: "create_spec m k v e r m' \<Longrightarrow> r \<noteq> None \<Longrightarrow> dom m' = dom m"
  by (auto simp: create_spec_def split: option.splits)

lemma update_dom: "update_spec m k v e r m' \<Longrightarrow> dom m' = dom m"
  by (auto simp: update_spec_def split: option.splits)

lemma other_map_occs:
  "a' = a\<lparr>a_jobs := x\<rparr> \<Longrightarrow> a_occs a' = a_occs a" "a' = a\<lparr>a_tasks := y\<rparr> \<Longrightarrow> a_occs a' = a_occs a"
  "a' = a\<lparr>a_runs := z\<rparr> \<Longrightarrow> a_occs a' = a_occs a" "a' = a\<lparr>a_attempts := u\<rparr> \<Longrightarrow> a_occs a' = a_occs a"
  by simp_all

context storage
begin

lemma call_keeps:
  assumes "call S s s'" "invar s"
  shows "invar s' \<and> recorded (abs s') = recorded (abs s)"
  using assms
proof (induction rule: call.induct)
  case (create_job jb s)
  show ?case using CreateJob_law [OF create_job(2,1) surjective_pairing] other_map_occs(1) by metis
next
  case (update_job jb s now)
  show ?case using UpdateJob_law [OF update_job(2,1) surjective_pairing] other_map_occs(1) by metis
next
  case (create_task tk s)
  show ?case using CreateTask_law [OF create_task(3,1,2) surjective_pairing] other_map_occs(2) by metis
next
  case (update_task tk s now)
  show ?case using UpdateTask_law [OF update_task(3,1,2) surjective_pairing] other_map_occs(2) by metis
next
  case (delete_task i s)
  show ?case using DeleteTask_law [OF delete_task(2,1) surjective_pairing] other_map_occs(2) by metis
next
  case (create_occ oc s)
  note law = CreateJobOccurrence_law [OF create_occ(4,1,2) surjective_pairing]
  show ?case using law [THEN conjunct1] create_dom [OF law [THEN conjunct2, THEN conjunct2] create_occ(3)] by simp
next
  case (update_occ oc s now)
  note law = UpdateJobOccurrence_law [OF update_occ(3,1,2) surjective_pairing, of now]
  show ?case using law [THEN conjunct1] update_dom [OF law [THEN conjunct2, THEN conjunct2]] by simp
next
  case (create_run rn s)
  show ?case using CreateTaskRun_law [OF create_run(2,1) surjective_pairing] other_map_occs(3) by metis
next
  case (update_run rn s now)
  show ?case using UpdateTaskRun_law [OF update_run(2,1) surjective_pairing] other_map_occs(3) by metis
next
  case (create_attempt att s)
  show ?case using CreateExecutionAttempt_law [OF create_attempt(2,1) surjective_pairing] other_map_occs(4) by metis
next
  case (update_attempt att s)
  show ?case using UpdateExecutionAttempt_law [OF update_attempt(2,1) surjective_pairing] other_map_occs(4) by metis
qed

lemma calls_keep: "calls S s s' \<Longrightarrow> invar s \<Longrightarrow> invar s' \<and> recorded (abs s') = recorded (abs s)"
  by (induction rule: rtranclp_induct) (use call_keeps in auto)

end

subsection \<open>Registration and updates\<close>

lemma registerTasks_calls:
  fixes w :: "('s, 'm) World"
  assumes "job_id_ok j" "\<forall>t \<in> set ts. task_id_ok (t_ID t)"
  shows "calls S (w_store w) (w_store (snd (registerTasks E S j ts w)))"
  using assms(2)
proof (induction ts arbitrary: w)
  case (Cons t ts)
  let ?t = "\<lparr>st_ID = t_ID t, st_JobID = j, st_Name = t_Name t, st_Config = Some (TaskConfigBytes (t_Config t)),
             st_Order = t_Order t, st_CreatedAt = Now E (w_clock w), st_UpdatedAt = Now E (Suc (w_clock w))\<rparr>"
  let ?c = "CreateTask S (w_store w) ?t"
  have "call S (w_store w) (snd ?c)" using assms(1) Cons.prems by (intro call.create_task) simp_all
  moreover have "calls S (snd ?c) (w_store (snd (registerTasks E S j ts v)))" if "w_store v = snd ?c" for v :: "('s, 'm) World"
    using Cons.IH [of v] Cons.prems that by simp
  ultimately show ?case
    by (auto simp: time_Now_def Let_def split: prod.splits option.splits intro: converse_rtranclp_into_rtranclp)
qed simp

lemma addTasks_calls:
  fixes w :: "('s, 'm) World"
  assumes "job_id_ok j" "\<forall>t \<in> set ts. task_id_ok (t_ID t)"
  shows "calls S (w_store w) (w_store (snd (addTasks E S j ts w)))"
  using assms(2)
proof (induction ts arbitrary: w)
  case (Cons t ts)
  let ?t = "\<lparr>st_ID = t_ID t, st_JobID = j, st_Name = t_Name t, st_Config = serializeTaskConfig (t_Config t),
             st_Order = t_Order t, st_CreatedAt = Now E (w_clock w), st_UpdatedAt = Now E (Suc (w_clock w))\<rparr>"
  let ?c = "CreateTask S (w_store w) ?t"
  have "call S (w_store w) (snd ?c)" using assms(1) Cons.prems by (intro call.create_task) simp_all
  moreover have "calls S (snd ?c) (w_store (snd (addTasks E S j ts v)))" if "w_store v = snd ?c" for v :: "('s, 'm) World"
    using Cons.IH [of v] Cons.prems that by simp
  ultimately show ?case
    by (auto simp: time_Now_def Let_def split: prod.splits option.splits intro: converse_rtranclp_into_rtranclp)
qed simp

lemma removeTasks_calls:
  fixes w :: "('s, 'm) World"
  assumes "\<forall>i \<in> set ids. task_id_ok i"
  shows "calls S (w_store w) (w_store (snd (removeTasks S ids w)))"
  using assms
proof (induction ids arbitrary: w)
  case (Cons i ids)
  let ?c = "DeleteTask S (w_store w) i"
  have "call S (w_store w) (snd ?c)" using Cons.prems by (intro call.delete_task) simp
  moreover have "calls S (snd ?c) (w_store (snd (removeTasks S ids v)))" if "w_store v = snd ?c" for v :: "('s, 'm) World"
    using Cons.IH [of v] Cons.prems that by simp
  ultimately show ?case
    by (auto simp: Let_def split: prod.splits option.splits intro: converse_rtranclp_into_rtranclp)
qed simp

lemma RegisterJob_calls:
  fixes w :: "('s, 'm) World"
  assumes "s_store s = S" "job_ids_ok job" "RegisterJob E job s w = (r, s', w')"
  shows "calls S (w_store w) (w_store w')"
proof (cases "s_jobs s (j_ID job)")
  case (Some x)
  then show ?thesis using assms(3) by (simp add: RegisterJob_def)
next
  case None
  let ?j = "\<lparr>sj_ID = j_ID job, sj_Name = j_Name job, sj_ScheduleType = ''cron'', sj_ScheduleConfig = None,
      sj_Config = Some (ConfigBytes (j_Config job)), sj_Version = j_Version job, sj_Active = j_Active job,
      sj_Paused = j_Paused job, sj_LastRunTime = None, sj_CreatedAt = Now E (w_clock w),
      sj_UpdatedAt = Now E (Suc (w_clock w))\<rparr>"
  let ?c = "CreateJob S (w_store w) ?j"
  have ids: "job_id_ok (j_ID job)" "\<forall>t \<in> set (j_Tasks job). task_id_ok (t_ID t)"
    using assms(2) by (simp_all add: job_ids_ok_def)
  have one: "call S (w_store w) (snd ?c)" using ids by (intro call.create_job) simp
  obtain err st where c: "?c = (err, st)" by fastforce
  let ?v = "w\<lparr>w_clock := Suc (Suc (w_clock w)), w_store := st\<rparr>"
  have "w' = ?v \<or> w' = snd (registerTasks E S (j_ID job) (j_Tasks job) ?v)"
    using assms(1,3) None c by (auto simp: RegisterJob_def time_Now_def Let_def split: prod.splits option.splits)
  moreover have "calls S (w_store ?v) (w_store (snd (registerTasks E S (j_ID job) (j_Tasks job) ?v)))"
    by (rule registerTasks_calls [OF ids])
  ultimately show ?thesis using one c by (auto intro: converse_rtranclp_into_rtranclp)
qed

lemma write_back_calls:
  assumes "job_id_ok (so_JobID oc)" "occ_id_ok (so_ID oc)"
  shows "call S (w_store w) (w_store (snd (write_back E S oc w)))"
  using call.update_occ [OF assms, where S = S and s = "w_store w" and now = "Now E (w_clock w)"]
  by (auto simp: write_back_def time_Now_def split: prod.splits)

text \<open>Both loops over listed occurrences, of an update and of the reaper.\<close>

lemma cancelLoop_calls:
  fixes w :: "('s, 'm) World"
  assumes "\<forall>oc \<in> set occs. job_id_ok (so_JobID oc) \<and> occ_id_ok (so_ID oc)"
  shows "calls S (w_store w) (w_store (snd (cancelLoop E S cond occs w)))"
  using assms
proof (induction occs arbitrary: w)
  case (Cons oc occs)
  let ?w = "w\<lparr>w_clock := Suc (w_clock w)\<rparr>"
  let ?oc = "oc\<lparr>so_Status := JobStatusCanceled, so_UpdatedAt := Now E (w_clock w)\<rparr>"
  have one: "call S (w_store w) (w_store (snd (write_back E S ?oc ?w)))"
    using write_back_calls [of ?oc S ?w E] Cons.prems by simp
  moreover have "calls S (w_store v) (w_store (snd (cancelLoop E S cond occs v)))" for v :: "('s, 'm) World"
    using Cons by simp
  ultimately show ?case
    by (auto simp: time_Now_def Let_def split: prod.splits option.splits intro: converse_rtranclp_into_rtranclp)
qed simp

lemma reapLoop_calls:
  fixes w :: "('s, 'm) World"
  assumes "\<forall>oc \<in> set occs. job_id_ok (so_JobID oc) \<and> occ_id_ok (so_ID oc)"
  shows "calls S (w_store w) (w_store (reapLoop E S occs w))"
  using assms
proof (induction occs arbitrary: w)
  case (Cons oc occs)
  let ?w = "w\<lparr>w_clock := Suc (w_clock w)\<rparr>"
  let ?oc = "oc\<lparr>so_Status := JobStatusFailedStale, so_EndTime := Some (Now E (w_clock w)), so_UpdatedAt := Now E (w_clock w)\<rparr>"
  have one: "call S (w_store w) (w_store (snd (write_back E S ?oc ?w)))"
    using write_back_calls [of ?oc S ?w E] Cons.prems by simp
  moreover have "calls S (w_store v) (w_store (reapLoop E S occs v))" for v :: "('s, 'm) World"
    using Cons by simp
  ultimately show ?case
    by (auto simp: time_Now_def Let_def split: prod.splits intro: converse_rtranclp_into_rtranclp)
qed simp

context storage
begin

lemma updateTasks_calls:
  fixes w :: "('s, 'm) World"
  assumes "\<forall>t \<in> set tasks. task_id_ok (t_ID t)" "invar (w_store w)"
  shows "calls S (w_store w) (w_store (snd (updateTasks E S tasks w)))"
  using assms
proof (induction tasks arbitrary: w)
  case (Cons task tasks)
  show ?case
  proof (cases "GetTask S (w_store w) (t_ID task)")
    case (Inl e)
    then show ?thesis by simp
  next
    case (Inr tk)
    let ?t = "tk\<lparr>st_Name := t_Name task, st_Config := serializeTaskConfig (t_Config task),
                 st_Order := t_Order task, st_UpdatedAt := Now E (w_clock w)\<rparr>"
    have "task_id_ok (t_ID task)" using Cons.prems(1) by simp
    from GetTask_law [OF Cons.prems(2) this] Inr obtain j where
      "a_tasks (abs (w_store w)) (j, t_ID task) = Some tk" by (auto simp: find_spec_def)
    then have ids: "job_id_ok (st_JobID ?t)" "task_id_ok (st_ID ?t)"
      using well_keyed_task [OF invar_keyed [OF Cons.prems(2)]] by fastforce+
    let ?c = "UpdateTask S (w_store w) (Now E (Suc (w_clock w))) ?t"
    have one: "call S (w_store w) (snd ?c)" by (rule call.update_task [OF ids])
    have "calls S (snd ?c) (w_store (snd (updateTasks E S tasks v)))" if "w_store v = snd ?c" for v :: "('s, 'm) World"
      using Cons.IH [of v] Cons.prems call_keeps [OF one] that by simp
    with one Inr show ?thesis
      by (auto simp: time_Now_def Let_def split: prod.splits option.splits intro: converse_rtranclp_into_rtranclp)
  qed
qed simp

lemma listed_ids:
  assumes "invar s" "set occs \<subseteq> ran (a_occs (abs s))"
  shows "\<forall>oc \<in> set occs. job_id_ok (so_JobID oc) \<and> occ_id_ok (so_ID oc)"
  using listed_keys(3) [OF invar_keyed [OF assms(1)] assms(2)] by blast

lemma pending_ids:
  assumes "invar s" "job_id_ok j" "ListPendingOccurrences S s j = Inr occs"
  shows "\<forall>oc \<in> set occs. job_id_ok (so_JobID oc) \<and> occ_id_ok (so_ID oc)"
  using pending_listed(2) [OF assms] by (intro listed_ids [OF assms(1)]) blast

lemma applyScheduleUpdate_calls:
  assumes "um_store m = S" "job_id_ok (sj_ID job)" "invar (w_store w)"
  shows "calls S (w_store w) (w_store (snd (applyScheduleUpdate E m job u w)))"
proof -
  let ?w = "w\<lparr>w_clock := Suc (w_clock w)\<rparr>"
  have "\<forall>oc \<in> set occs. job_id_ok (so_JobID oc) \<and> occ_id_ok (so_ID oc)"
    if "ListPendingOccurrences S (w_store w) (sj_ID job) = Inr occs" for occs
    using pending_ids [OF assms(3,2) that] .
  then have loop: "calls S (w_store w) (w_store (snd (cancelLoop E S cond occs ?w)))"
    if "ListPendingOccurrences S (w_store w) (sj_ID job) = Inr occs" for occs cond
    using cancelLoop_calls [of occs S ?w E cond] that by simp
  show ?thesis
    using assms(1) loop
    by (auto simp: applyScheduleUpdate_def applyImmediateUpdate_def applyGracefulUpdate_def applyWindowedUpdate_def
        time_Now_def Let_def split: sum.splits option.splits)
qed

lemma applyUpdateTransaction_calls:
  assumes m: "um_store m = S" and u: "update_ids_ok u" "sj_ID job = u_JobID u" and inv: "invar (w_store w)"
    and run: "applyUpdateTransaction E m job u w = (r, w')"
  shows "calls S (w_store w) (w_store w')"
proof -
  have ids: "job_id_ok (u_JobID u)" "\<forall>t \<in> set (u_AddedTasks u). task_id_ok (t_ID t)"
    "\<forall>i \<in> set (u_RemovedTaskIDs u). task_id_ok i" "\<forall>t \<in> set (u_UpdatedTasks u). task_id_ok (t_ID t)"
    using u(1) by (simp_all add: update_ids_ok_def)
  let ?s = "w_store w"
  define w1 where "w1 = snd (updateJobRecord E S job w)"
  define w2 where "w2 = snd (addTasks E S (u_JobID u) (u_AddedTasks u) w1)"
  define w3 where "w3 = snd (removeTasks S (u_RemovedTaskIDs u) w2)"
  define w4 where "w4 = snd (updateTasks E S (u_UpdatedTasks u) w3)"
  define w5 where "w5 = snd (applyScheduleUpdate E m job u w4)"
  have "call S ?s (w_store w1)"
    using call.update_job [of job S ?s "Now E (w_clock w)"] ids(1) u(2)
    by (auto simp: w1_def updateJobRecord_def time_Now_def split: prod.splits)
  then have c1: "calls S ?s (w_store w1)" by blast
  have c2: "calls S ?s (w_store w2)" using calls_trans [OF c1 addTasks_calls [OF ids(1,2)]] unfolding w2_def .
  have c3: "calls S ?s (w_store w3)" using calls_trans [OF c2 removeTasks_calls [OF ids(3)]] unfolding w3_def .
  have i3: "invar (w_store w3)" using calls_keep [OF c3 inv] by blast
  have c4: "calls S ?s (w_store w4)" using calls_trans [OF c3 updateTasks_calls [OF ids(4) i3]] unfolding w4_def .
  have i4: "invar (w_store w4)" using calls_keep [OF c4 inv] by blast
  have c5: "calls S ?s (w_store w5)"
    using calls_trans [OF c4 applyScheduleUpdate_calls [OF m ids(1) [folded u(2)] i4]] unfolding w5_def .
  have "w' \<in> {w1, w2, w3, w4, w5}"
    using run unfolding applyUpdateTransaction_def m w1_def w2_def w3_def w4_def w5_def
    by (auto simp: wrapError_def andThen_def split: prod.splits option.splits)
  then show ?thesis using c1 c2 c3 c4 c5 by blast
qed

lemma ApplyUpdate_calls:
  assumes m: "um_store m = S" and u: "update_ids_ok u" and inv: "invar (w_store w)"
    and run: "ApplyUpdate E m u w = (r, w')"
  shows "calls S (w_store w) (w_store w')"
proof (cases "GetJob S (w_store w) (u_JobID u)")
  case (Inl e)
  then show ?thesis using run m by (simp add: ApplyUpdate_def)
next
  case (Inr job)
  have j: "job_id_ok (u_JobID u)" using u by (simp add: update_ids_ok_def)
  have "a_jobs (abs (w_store w)) (u_JobID u) = Some job"
    using GetJob_law [OF inv j] Inr by (simp add: get_spec_def)
  then have id: "sj_ID job = u_JobID u" using well_keyed_job [OF invar_keyed [OF inv]] by blast
  show ?thesis
  proof (cases "sj_Version job = u_ExpectedVersion u")
    case False
    then show ?thesis using run m Inr by (simp add: ApplyUpdate_def)
  next
    case True
    define new where "new = (case u_NewConfig u of None \<Rightarrow> job | Some cfg \<Rightarrow> job\<lparr>sj_Config := serializeConfig cfg\<rparr>)
      \<lparr>sj_Version := next_version (u_ExpectedVersion u), sj_UpdatedAt := Now E (w_clock w)\<rparr>"
    have new: "sj_ID new = u_JobID u" using id by (simp add: new_def split: option.splits)
    have tx: "applyUpdateTransaction E m new u (w\<lparr>w_clock := Suc (w_clock w)\<rparr>) = (r, w')"
      using run m Inr True unfolding new_def
      by (cases "u_NewConfig u") (simp_all add: ApplyUpdate_def time_Now_def)
    from applyUpdateTransaction_calls [OF m u new _ tx] inv show ?thesis by simp
  qed
qed

lemma UpdateJob_calls:
  assumes "s_store s = S" "update_ids_ok u" "invar (w_store w)" "Scheduler_UpdateJob E order u s w = Some (r, s', w')"
  shows "calls S (w_store w) (w_store w')"
proof -
  obtain r1 w1 where a: "ApplyUpdate E (NewUpdateManager S) u w = (r1, w1)" by fastforce
  have "um_store (NewUpdateManager S) = S" by (simp add: NewUpdateManager_def)
  from ApplyUpdate_calls [OF this assms(2,3) a] have "calls S (w_store w) (w_store w1)" .
  moreover have "w' = w \<or> w' = w1"
    using assms(1,4) a by (auto simp: Scheduler_UpdateJob_def Let_def split: option.splits if_splits prod.splits)
  ultimately show ?thesis by blast
qed

lemma reapStaleJobs_calls:
  assumes "invar (w_store w)"
  shows "calls S (w_store w) (w_store (reapStaleJobs E S w))"
proof -
  let ?now = "Now E (w_clock w)" and ?w = "w\<lparr>w_clock := Suc (w_clock w)\<rparr>"
  have "calls S (w_store w) (w_store (reapLoop E S occs ?w))"
    if "ListStaleOccurrences S (w_store w) ?now staleThreshold = Inr occs" for occs
  proof -
    have "set occs \<subseteq> ran (a_occs (abs (w_store w)))"
      using ListStaleOccurrences_law [OF assms, of ?now staleThreshold] that by (auto simp: list_spec_def)
    from reapLoop_calls [OF listed_ids [OF assms this], of S ?w E] show ?thesis by simp
  qed
  then show ?thesis by (simp add: reapStaleJobs_def time_Now_def split: sum.splits)
qed

end

subsection \<open>Executions\<close>

text \<open>Every step of a goroutine makes at most one call, so parallel tasks interleave call by call.\<close>

lemma finishRun_calls:
  assumes "ex_store e = S" "uuid_text (NewSHA1 E)" "tr_ID run = run_id E oc task"
  shows "calls S (w_store w) (w_store (finishRun E e run w))"
proof -
  let ?run = "run\<lparr>tr_EndTime := Some (Now E (w_clock w))\<rparr>"
  have "slash_free (tr_ID ?run)" using assms(2,3) by (simp add: run_id_slash_free)
  from call.update_run [OF this, of S "w_store w"] show ?thesis
    unfolding finishRun_store assms(1) by blast
qed

lemma taskStep_calls:
  assumes e: "ex_store e = S" and u: "uuid_text (NewSHA1 E)" and ok: "routine_ok E job oc r"
  shows "calls S (w_store w) (w_store (snd (taskStep E e job oc r w)))"
proof (cases r)
  case (G_Start task)
  let ?run = "created_run E oc task (Now E (w_clock w))"
  have "slash_free (tr_ID ?run)" using u by (simp add: created_run_def run_id_slash_free)
  from call.create_run [OF this, of S "w_store w"] show ?thesis using e by (simp add: G_Start startTask_eq r_into_rtranclp)
next
  case (G_Loop task run n rep lastErr)
  with ok have run: "run_of E oc task run" and n: "0 \<le> n" using failed_so_far_nonneg by auto
  show ?thesis
  proof (cases "n \<le> max_retries job task")
    case True
    obtain att w' where b: "beginAttempt E e run n w = (att, w')" by (cases "beginAttempt E e run n w")
    have "slash_free (ea_ID att)" using beginAttempt_ok [OF run n, of e w] b u by (simp add: attempt_id_slash_free)
    moreover have "w_store w' = snd (CreateExecutionAttempt S (w_store w) att)"
      using beginAttempt_store [of E e run n w] b e by simp
    ultimately show ?thesis using True call.create_attempt [of att S "w_store w"] by (simp add: G_Loop b r_into_rtranclp)
  next
    case False
    then show ?thesis
      using finishRun_calls [OF e u, where oc = oc and task = task] run
      by (auto simp: G_Loop failTask_def run_of_def split: option.splits)
  qed
next
  case (G_Running task run n rep att)
  with ok have "ea_ID att = attempt_id E oc task (nat n)" by auto
  then have sf: "slash_free (ea_ID (completed_attempt att ar))" for ar
    using u by (simp add: completed_attempt_def attempt_id_slash_free)
  obtain ar w' where f: "endAttempt E e job task run (GetEffectiveConfig job task) att w = (ar, w')"
    by (cases "endAttempt E e job task run (GetEffectiveConfig job task) att w")
  have "w_store w' = snd (UpdateExecutionAttempt S (w_store w) (completed_attempt att ar))"
    using endAttempt_store [of E e job task run "GetEffectiveConfig job task" att w] f e by simp
  then show ?thesis using call.update_attempt [OF sf, of S "w_store w" ar] by (simp add: G_Running f r_into_rtranclp)
next
  case (G_Attempted task run n rep ar)
  let ?pol = "effectivePolicy (GetEffectiveConfig job task)"
  obtain rd w' where a: "afterAttempt E e job run ?pol n rep ar w = (rd, w')"
    by (cases "afterAttempt E e job run ?pol n rep ar w")
  have run: "tr_ID (run\<lparr>tr_Status := st\<rparr>) = run_id E oc task" for st using ok G_Attempted by (simp add: run_of_def)
  from afterAttempt_store [OF a] show ?thesis
  proof (elim disjE exE conjE)
    fix rep' v
    assume fin: "rd = Finished rep'" "w' = finishRun E e (run\<lparr>tr_Status := rp_FinalStatus rep'\<rparr>) v"
      "w_store v = w_store w"
    from finishRun_calls [OF e u run [of "rp_FinalStatus rep'"], of v] show ?thesis using a fin by (simp add: G_Attempted)
  next
    fix rep' msg
    assume "rd = Retry rep' msg" "w_store w' = w_store w"
    then show ?thesis using a by (simp add: G_Attempted)
  qed
qed simp_all

lemma groupStep_calls:
  assumes "ex_store e = S" "uuid_text (NewSHA1 E)" "group_ok E job oc g"
  shows "calls S (w_store (g_world g)) (w_store (g_world (groupStep E e job oc i g)))"
proof (cases "i < length (g_routines g)")
  case True
  then have "routine_ok E job oc (g_routines g ! i)" using assms(3) by (auto simp: group_ok_def)
  from taskStep_calls [OF assms(1,2) this, of "g_world g"] True show ?thesis
    by (cases "g_routines g ! i") (auto simp: groupStep_def case_prod_beta)
qed (simp add: groupStep_def)

lemma runGroup_calls:
  assumes "ex_store e = S" "uuid_text (NewSHA1 E)" "group_ok E job oc g"
  shows "calls S (w_store (g_world g)) (w_store (g_world (runGroup E e job oc sched g)))"
  using assms(3)
proof (induction sched arbitrary: g)
  case (Cons i sched)
  from calls_trans [OF groupStep_calls [OF assms(1,2) Cons.prems] Cons.IH [OF groupStep_ok [OF Cons.prems]]]
  show ?case by (simp add: runGroup_def)
qed (simp add: runGroup_def)

lemma steps_calls:
  assumes "ex_store e = S" "uuid_text (NewSHA1 E)" "routine_ok E job oc r"
  shows "routine_ok E job oc (fst ((stepPair E e job oc ^^ k) (r, w)))
    \<and> calls S (w_store w) (w_store (snd ((stepPair E e job oc ^^ k) (r, w))))"
proof (induction k)
  case (Suc k)
  obtain r' w' where p: "(stepPair E e job oc ^^ k) (r, w) = (r', w')"
    by (cases "(stepPair E e job oc ^^ k) (r, w)")
  have step: "(stepPair E e job oc ^^ Suc k) (r, w) = taskStep E e job oc r' w'"
    by (simp add: p) (simp add: stepPair_def)
  have IH: "routine_ok E job oc r'" "calls S (w_store w) (w_store w')" using Suc p by simp_all
  show ?case
    unfolding step using taskStep_ok [OF IH(1)] calls_trans [OF IH(2) taskStep_calls [OF assms(1,2) IH(1)]] by blast
qed (simp add: assms)

lemma executeTask_calls:
  assumes "ex_store e = S" "uuid_text (NewSHA1 E)" "executeTask E e job task oc w = Some (rep, w')"
  shows "calls S (w_store w) (w_store w')"
proof -
  obtain k where "(stepPair E e job oc ^^ k) (G_Start task, w) = (G_Report task rep, w')"
    using executeTask_steps [where E = E and e = e and job = job and oc = oc and task = task and w = w]
      assms(3) by auto
  then show ?thesis using steps_calls [OF assms(1,2), of job oc "G_Start task" k w] by simp
qed

lemma sequentialLoop_calls:
  fixes w :: "('s, 'm) World"
  assumes "ex_store e = S" "uuid_text (NewSHA1 E)" "sequentialLoop E e job oc tasks report w = Some (rep, err, w')"
  shows "calls S (w_store w) (w_store w')"
  using assms(3)
proof (induction tasks arbitrary: report w)
  case (Cons task tasks)
  obtain tr w1 where t: "executeTask E e job task oc w = Some (tr, w1)"
    using Cons.prems by (auto split: option.splits)
  note one = executeTask_calls [OF assms(1,2) t]
  obtain c w2 where l: "look_at_ctx E (jc_ExecutionTimeout (j_Config job)) w1 = (c, w2)"
    by (cases "look_at_ctx E (jc_ExecutionTimeout (j_Config job)) w1")
  then have s2: "w_store w2 = w_store w1" by (auto simp: look_at_ctx_def)
  consider "w_store w' = w_store w1"
    | "sequentialLoop E e job oc tasks (AddTaskReport report tr) w2 = Some (rep, err, w')"
    using Cons.prems t l s2 by (auto simp: Let_def split: if_splits option.splits)
  then show ?case
  proof cases
    case 1
    then show ?thesis using one by simp
  next
    case 2
    from calls_trans [OF one] Cons.IH [OF 2] s2 show ?thesis by simp
  qed
qed simp

lemma runTasks_calls:
  assumes "ex_store e = S" "uuid_text (NewSHA1 E)" "runTasks E e job sched oc w = Some (rep, err, w')"
  shows "calls S (w_store w) (w_store w')"
proof -
  have par: ?thesis if "executeParallel E e job sched oc w = Some (rep, err, w')"
  proof -
    let ?g = "startGroup job oc w"
    have "w_store w' = w_store (g_world (runGroup E e job oc sched ?g))"
      using that by (auto simp: executeParallel_def finishGroup_def look_at_ctx_def Let_def split: if_splits)
    moreover have "w_store (g_world ?g) = w_store w" by (simp add: startGroup_def)
    ultimately show ?thesis
      using runGroup_calls [OF assms(1,2) startGroup_ok [of E job oc w], of sched] by simp
  qed
  have "?thesis" if "executeSequential E e job oc w = Some (rep, err, w')"
    using that sequentialLoop_calls [OF assms(1,2)] unfolding executeSequential_def by blast
  then show ?thesis using assms(3) par by (auto simp: runTasks_def split: if_splits)
qed

lemma updateOccurrenceStatus_calls:
  assumes "ex_store e = S" "job_id_ok (jo_JobID oc)" "occ_id_ok (jo_ID oc)" "updateOccurrenceStatus E e oc w = (r, w')"
  shows "calls S (w_store w) (w_store w')"
proof -
  let ?rec = "storage_occ oc (Now E (w_clock w))" and ?now = "Now E (Suc (w_clock w))"
  have id: "job_id_ok (so_JobID ?rec)" "occ_id_ok (so_ID ?rec)" using assms(2,3) by (simp_all add: storage_occ_def)
  have "w_store w' = snd (UpdateJobOccurrence S (w_store w) ?now ?rec)"
    using assms(1,4) by (auto simp: updateOccurrenceStatus_eq Let_def split: prod.splits)
  then show ?thesis using call.update_occ [OF id, of S "w_store w" ?now] by auto
qed

lemma ExecuteJobOccurrence_calls:
  assumes e: "ex_store e = S" "uuid_text (NewSHA1 E)" and ids: "job_id_ok (jo_JobID oc)" "occ_id_ok (jo_ID oc)"
    and run: "ExecuteJobOccurrence E e job sched oc w = Some (r, err, oc', w')"
  shows "calls S (w_store w) (w_store w')"
proof -
  note upd = updateOccurrenceStatus_calls [OF e(1)]
  from run show ?thesis
  proof (cases rule: ExecuteJobOccurrence_cases)
    case (refused e1)
    then show ?thesis using upd [OF _ _ refused(1)] ids by simp
  next
    case (ran w1 v rep w2 r3 w3)
    have "calls S (w_store w) (w_store w1)" using upd [OF _ _ ran(1)] ids by simp
    also have "calls S (w_store w1) (w_store w2)" using runTasks_calls [OF e ran(3)] ran(2) by simp
    also have "calls S (w_store w2) (w_store w3)" using upd [OF _ _ ran(4)] ids by simp
    finally show ?thesis using ran(7) by simp
  qed
qed

end
