(* ===== verification/Cluster.thy ===== *)
theory Cluster
  imports StoreCalls
begin

text \<open>
  Several nodes on one store. A node is a scheduler with its watchers, its pool, its reaper and its
  tickers; the nodes share nothing but the store. The steps of the cluster are the steps of the nodes,
  with the creation of an occurrence by a trigger or by a recovery, which decides who executes it, and
  single calls of the storage for everything else the nodes write. A node may stop at any point
  without warning and be replaced by a new one.
\<close>

subsection \<open>The claim of a recovery\<close>

text \<open>
  \<^verbatim>\<open>scheduleRecoveryRun\<close> up to the creation of the occurrence: the execution it goes on to submit, if
  the creation succeeds.
\<close>

definition claimRecovery ::
  "Env \<Rightarrow> ('s, 'm) RecoveryHandler \<Rightarrow> 'tk Job \<Rightarrow> gotime \<Rightarrow> ('s, 'm) World \<Rightarrow> 'tk run option \<times> ('s, 'm) World"
where
  "claimRecovery E r job scheduledTime w =
     (let (createdAt, w) = time_Now E w;
          (updatedAt, w) = time_Now E w;
          occurrence = recovery_occurrence E job scheduledTime createdAt updatedAt;
          (err, st) = CreateJobOccurrence (rh_store r) (w_store w) (recovery_record occurrence);
          w = w\<lparr>w_store := st\<rparr>
      in (case err of Some _ \<Rightarrow> (None, w) | None \<Rightarrow> (Some (job, occurrence), w)))"

lemma scheduleRecoveryRun_claims:
  "scheduleRecoveryRun E sched r job t label (w, p) =
     (case claimRecovery E r job t w of
        (None, w) \<Rightarrow> Some (None, w, p)
      | (Some f, w) \<Rightarrow>
          (let w = w\<lparr>w_metrics := IncRecoveryRuns (rh_metrics r) (w_metrics w) (j_Name job) label\<rparr>
           in (case Submit_alone p f of
                 None \<Rightarrow> None
               | Some RunHere \<Rightarrow> map_option (\<lambda>w. (None, w, p)) (run_closure E (rh_executor r) sched f w)
               | Some (Queued p) \<Rightarrow> Some (None, w, p))))"
  by (simp add: scheduleRecoveryRun_def claimRecovery_def time_Now_def Let_def
      split: prod.splits option.splits submission.splits)

text \<open>The key of the occurrence an execution is for.\<close>

definition run_key :: "'tk run \<Rightarrow> string \<times> string" where
  "run_key f = joc_key (snd f)"

text \<open>What a successful claim means: nobody had recorded the occurrence, and now it is recorded.\<close>

definition claims :: "('tk run) option \<Rightarrow> AStore \<Rightarrow> AStore \<Rightarrow> bool" where
  "claims r a a' \<longleftrightarrow>
     (case r of
        None \<Rightarrow> recorded a' = recorded a
      | Some f \<Rightarrow> run_key f \<notin> recorded a \<and> recorded a' = insert (run_key f) (recorded a))"

lemma claimRecovery_key:
  assumes "claimRecovery E r job t w = (Some f, w')"
  shows "run_key f = (j_ID job, GenerateJobOccurrenceID (NewSHA1 E) (j_ID job) (instant t))"
  using assms
  by (auto simp: claimRecovery_def time_Now_def Let_def run_key_def recovery_occurrence_def split: prod.splits option.splits)

definition run_ok :: "'tk run \<Rightarrow> bool" where
  "run_ok f \<longleftrightarrow> job_id_ok (jo_JobID (snd f)) \<and> occ_id_ok (jo_ID (snd f))"

lemma claimOccurrence_run:
  assumes "claimOccurrence E s job x w = (Some f, w')" "uuid_text (NewSHA1 E)" "job_id_ok (j_ID job)"
  shows "run_ok f"
  using assms generated_ids_ok [OF assms(2)]
  by (auto simp: claimOccurrence_alt run_ok_def trigger_occurrence_def split: prod.splits if_splits)

lemma claimRecovery_run:
  assumes "claimRecovery E r job t w = (Some f, w')" "uuid_text (NewSHA1 E)" "job_id_ok (j_ID job)"
  shows "run_ok f"
  using assms generated_ids_ok [OF assms(2)]
  by (auto simp: claimRecovery_def run_ok_def recovery_occurrence_def time_Now_def Let_def split: prod.splits option.splits)

context storage
begin

lemma creation_claims:
  assumes "invar s" "job_id_ok (so_JobID oc)" "occ_id_ok (so_ID oc)" "CreateJobOccurrence S s oc = (err, s')"
    "occ_key oc = run_key f"
  shows "invar s' \<and> claims (if err = None then Some f else None) (abs s) (abs s')"
  using CreateJobOccurrence_law [OF assms(1-4)] unfolding assms(5)
  by (cases err) (auto simp: claims_def create_spec_def)

lemma claimOccurrence_claims:
  assumes "s_store s = S" "uuid_text (NewSHA1 E)" "job_id_ok (j_ID job)" "invar (w_store w)"
    "claimOccurrence E s job x w = (r, w')"
  shows "invar (w_store w') \<and> claims r (abs (w_store w)) (abs (w_store w'))"
proof -
  let ?f = "(job, claimed E job x (w_clock w))"
  note keys = claim_keys [OF assms(2,3), where s = s and x = x and n = "w_clock w"]
  obtain err st where c: "CreateJobOccurrence S (w_store w) (claim_record s job (snd ?f)) = (err, st)" by fastforce
  have "occ_key (claim_record s job (snd ?f)) = run_key ?f"
    by (simp add: run_key_def trigger_record_def)
  from creation_claims [OF assms(4) _ _ c this] keys(1,2) assms(1,5) c show ?thesis
    by (auto simp: claimOccurrence_alt split: if_splits)
qed

lemma claimRecovery_claims:
  assumes "rh_store r = S" "uuid_text (NewSHA1 E)" "job_id_ok (j_ID job)" "invar (w_store w)"
    "claimRecovery E r job t w = (f, w')"
  shows "invar (w_store w') \<and> claims f (abs (w_store w)) (abs (w_store w'))"
proof -
  let ?oc = "recovery_occurrence E job t (Now E (w_clock w)) (Now E (Suc (w_clock w)))"
  obtain err st where c: "CreateJobOccurrence S (w_store w) (recovery_record ?oc) = (err, st)" by fastforce
  have ids: "job_id_ok (so_JobID (recovery_record ?oc))" "occ_id_ok (so_ID (recovery_record ?oc))"
    using assms(3) generated_ids_ok [OF assms(2)] by (simp_all add: recovery_record_def recovery_occurrence_def)
  have "occ_key (recovery_record ?oc) = run_key (job, ?oc)" by (simp add: run_key_def recovery_record_def)
  from creation_claims [OF assms(4) ids c this] assms(1,5) c show ?thesis
    by (auto simp: claimRecovery_def time_Now_def split: option.splits if_splits)
qed

end

subsection \<open>The steps\<close>

text \<open>
  Everything that was handed to a pool and not refused: the tasks its callers hold, those its queue
  accepted (the accepted ones include the running and the finished), and those callers ran themselves.
\<close>

fun caller_task :: "'a caller \<Rightarrow> 'a list" where
  "caller_task (AtLock task) = [task]"
| "caller_task (AtSelect task) = [task]"
| "caller_task (RunsTask task) = [task]"
| "caller_task CallReturned = []"

definition handed :: "'a WorkerPool \<Rightarrow> 'a multiset" where
  "handed p = mset (concat (map caller_task (p_callers p))) + mset (p_accepted p) + mset (p_inline p)"

text \<open>The tasks that goroutines of the pool run now or have run.\<close>

definition executed_tasks :: "'a WorkerPool \<Rightarrow> 'a multiset" where
  "executed_tasks p = mset (running_tasks p) + mset (p_finished p) + mset (p_inline p)"

text \<open>\<open>c_past\<close> is history: the executions of recoveries, and all that was handed to nodes now gone.\<close>

record ('s, 'm) Cluster =
  c_nodes :: "('s, 'm) Scheduler list"
  c_store :: 's
  c_past :: "nat run multiset"

definition jobs_admitted :: "('s, 'm) Scheduler \<Rightarrow> bool" where
  "jobs_admitted s \<longleftrightarrow> (\<forall>i \<in> dom (s_jobs s). job_id_ok i)"

inductive cluster_step :: "uuid5 \<Rightarrow> 's Storage \<Rightarrow> ('s, 'm) Cluster \<Rightarrow> ('s, 'm) Cluster \<Rightarrow> bool"
  for sha :: uuid5 and S :: "'s Storage"
where
  node: "i < length (c_nodes c) \<Longrightarrow> sched_step (c_nodes c ! i) s' \<Longrightarrow>
    handed (s_pool s') \<subseteq># handed (s_pool (c_nodes c ! i)) \<Longrightarrow> jobs_admitted s' \<Longrightarrow>
    cluster_step sha S c (c\<lparr>c_nodes := (c_nodes c)[i := s']\<rparr>)"
| watch: "i < length (c_nodes c) \<Longrightarrow> alive (c_nodes c ! i) \<Longrightarrow> NewSHA1 E = sha \<Longrightarrow> w_store w = c_store c \<Longrightarrow>
    watchJob E j b (c_nodes c ! i) w = Some (s', w') \<Longrightarrow>
    cluster_step sha S c (c\<lparr>c_nodes := (c_nodes c)[i := s'], c_store := w_store w'\<rparr>)"
| recovery: "NewSHA1 E = sha \<Longrightarrow> w_store w = c_store c \<Longrightarrow> rh_store r = S \<Longrightarrow> job_id_ok (j_ID job) \<Longrightarrow>
    claimRecovery E (r :: ('s, 'm) RecoveryHandler) job t w = (Some f, w') \<Longrightarrow>
    cluster_step sha S c (c\<lparr>c_store := w_store w', c_past := add_mset f (c_past c)\<rparr>)"
| call: "call S (c_store c) s' \<Longrightarrow> cluster_step sha S c (c\<lparr>c_store := s'\<rparr>)"
| replace: "i < length (c_nodes c) \<Longrightarrow>
    cluster_step sha S c (c\<lparr>c_nodes := (c_nodes c)[i := NewScheduler cfg m S tks],
      c_past := c_past c + handed (s_pool (c_nodes c ! i))\<rparr>)"

definition cluster_runs :: "('s, 'm) Cluster \<Rightarrow> nat run multiset" where
  "cluster_runs c = sum_list (map (\<lambda>s. handed (s_pool s)) (c_nodes c)) + c_past c"

text \<open>A cluster before its first step: new nodes on one store.\<close>

definition new_cluster :: "'s Storage \<Rightarrow> ('s, 'm) Cluster \<Rightarrow> bool" where
  "new_cluster S c \<longleftrightarrow>
     (\<forall>s \<in> set (c_nodes c). \<exists>cfg m tks. s = NewScheduler cfg m S tks) \<and> c_past c = {#}"

subsection \<open>What the steps do to the pools\<close>

lemma handed_submit: "handed (Pool_Submit f p) = add_mset f (handed p)"
  by (simp add: handed_def Pool_Submit_def)

lemma callers_update:
  assumes "i < length cs"
  shows "mset (concat (map caller_task (cs[i := v]))) + mset (caller_task (cs ! i))
    = mset (concat (map caller_task cs)) + mset (caller_task v)"
proof -
  have "mset (concat (map caller_task cs)) = mset (concat (map caller_task (take i cs @ cs ! i # drop (Suc i) cs)))"
    using id_take_nth_drop [OF assms] by simp
  then show ?thesis by (simp add: upd_conv_take_nth_drop [OF assms] add_ac)
qed

text \<open>No step of a pool but \<^verbatim>\<open>Submit\<close> hands it anything, so the node steps of a cluster leave out none of them.\<close>

lemma handed_caller:
  assumes "Pool_caller i c p = Some p'"
  shows "handed p' \<subseteq># handed p"
  using assms
proof (cases rule: Pool_caller_cases)
  case (lock task)
  then show ?thesis using callers_update [OF lock(1), of "if p_started p then AtSelect task else RunsTask task"]
    by (auto simp: handed_def set_caller_def split: if_splits)
next
  case (inline task)
  then show ?thesis using callers_update [OF inline(1), of CallReturned] by (auto simp: handed_def set_caller_def)
next
  case (refused task)
  then show ?thesis using callers_update [OF refused(1), of CallReturned]
    by (simp add: handed_def set_caller_def) (metis mset_subset_eq_add_left union_commute add_mset_add_single)
next
  case (panic task)
  then show ?thesis by (simp add: handed_def)
next
  case (send task)
  then show ?thesis using callers_update [OF send(1), of CallReturned] by (auto simp: handed_def set_caller_def)
qed

lemma handed_other:
  "Pool_worker i c p = Some p' \<Longrightarrow> handed p' = handed p" "handed (Pool_Start p) = handed p"
  "handed (Pool_Stop p) = handed p" "Pool_StopReturns p = Some p' \<Longrightarrow> handed p' = handed p"
  "handed (NewWorkerPool n) = {#}"
  by (auto simp: handed_def Pool_Start_def Pool_Stop_def Pool_StopReturns_def NewWorkerPool_def
      elim!: Pool_worker_cases split: if_splits)

lemma executed_handed:
  assumes "pool_inv p"
  shows "executed_tasks p \<subseteq># handed p"
proof -
  have "mset (p_accepted p) = mset (p_taskQueue p) + mset (running_tasks p) + mset (p_finished p)"
    using assms by (simp add: pool_inv_def)
  then show ?thesis by (simp add: executed_tasks_def handed_def add_ac)
qed

text \<open>What a step of a watcher does to the pool and the store.\<close>

lemma watchJob_claims:
  assumes "watchJob E i b s w = Some (s', w')"
  obtains (quiet) "s_pool s' = s_pool s" "w' = w"
  | (lost) jobID job x where "s_jobs s jobID = Some job" "claimOccurrence E s job x w = (None, w')" "s_pool s' = s_pool s"
  | (won) jobID job x f where "s_jobs s jobID = Some job" "claimOccurrence E s job x w = (Some f, w')"
      "s_pool s' = Pool_Submit f (s_pool s)"
proof (cases "s_watchers s ! i")
  case (Claiming jobID x)
  obtain job where job: "s_jobs s jobID = Some job"
    using assms Claiming by (auto simp: watchJob_def split: if_splits watch_branch.splits option.splits)
  obtain r w1 where c: "claimOccurrence E s job x w = (r, w1)" by fastforce
  show thesis
  proof (cases r)
    case None
    then show thesis using that(2) [OF job] assms Claiming job c
      by (auto simp: watchJob_def set_watcher_def split: if_splits watch_branch.splits)
  next
    case (Some f)
    then have "w' = w1" "s_pool s' = Pool_Submit f (s_pool s)"
      using assms Claiming job c
      by (auto simp: watchJob_def set_watcher_def submit_def split: if_splits watch_branch.splits)
    then show thesis using that(3) [OF job] c Some by blast
  qed
qed (insert assms that(1), auto simp: watchJob_def set_watcher_def split: if_splits watch_branch.splits option.splits)

lemma watchJob_static:
  assumes "watchJob E i b s w = Some (s', w')"
  shows "s_store s' = s_store s \<and> s_exec s' = s_exec s \<and> s_reaper s' = s_reaper s" "s_jobs s' = s_jobs s"
  using assms by (cases rule: watchJob_cases; simp add: set_watcher_def submit_def)+

text \<open>A node of the cluster: the parts that write work on the store of the cluster, and stay so.\<close>

definition node_on :: "'s Storage \<Rightarrow> ('s, 'm) Scheduler \<Rightarrow> bool" where
  "node_on S s \<longleftrightarrow> s_store s = S \<and> ex_store (s_exec s) = S \<and> rp_store (s_reaper s) = S"

lemma reaper_store:
  "rp_store (Reaper_Start r) = rp_store r" "rp_store (Reaper_Stop r) = rp_store r"
  "Reaper_run E c b r (w :: ('s, 'm) World) = Some (r', w') \<Longrightarrow> rp_store r' = rp_store r"
  by (auto simp: Reaper_Start_def Reaper_Stop_def Reaper_run_def split: if_splits reaper_branch.splits)

lemma sched_step_store:
  assumes "sched_step s s'" "sched_inv s" "node_on S s"
  shows "node_on S s'"
  using assms
proof (induction rule: sched_step.induct)
  case (register s E job w r s' w')
  then show ?case using RegisterJob_effect by (fastforce simp: node_on_def)
next
  case (update s E order u w r s' w')
  then show ?case using UpdateJob_effect by (fastforce simp: node_on_def)
next
  case (start s o2 E sched o1 w r s' w')
  show ?case
  proof (cases "s_running s")
    case True
    then show ?thesis using start(4,6) by (simp add: Start_def)
  next
    case False
    then have "\<not> p_started (s_pool s)" "\<not> p_stopping (s_pool s)"
      using start(2,5) by (auto simp: sched_inv_def)
    with start(4) show ?thesis using start(6) by (cases rule: Start_cases) (simp_all add: node_on_def reaper_store)
  qed
next
  case (watch s E i b w s' w')
  then show ?case using watchJob_static(1) [OF watch(2)] by (simp add: node_on_def)
next
  case (shutdown s order s')
  then show ?case by (auto simp: node_on_def reaper_store Shutdown_def dest!: stopTickers_effect split: if_splits)
next
  case (waited s timeout s')
  then show ?case by (auto simp: node_on_def reaper_store Shutdown_waited_def split: if_splits)
next
  case (returns s s')
  then show ?case by (auto simp: node_on_def reaper_store Shutdown_returns_def split: if_splits option.splits)
qed (simp_all add: node_on_def reaper_store)

subsection \<open>The invariant\<close>

text \<open>
  Every execution ever started has its own occurrence, which is recorded now and was not when the
  cluster was new.
\<close>

definition runs_once :: "(string \<times> string) set \<Rightarrow> nat run multiset \<Rightarrow> (string \<times> string) set \<Rightarrow> bool" where
  "runs_once K0 R K \<longleftrightarrow> (\<forall>k. count (image_mset run_key R) k \<le> 1) \<and> run_key ` set_mset R \<subseteq> K - K0 \<and> K0 \<subseteq> K"

lemma runs_once_fewer:
  assumes "runs_once K0 R K" "R' \<subseteq># R"
  shows "runs_once K0 R' K"
proof -
  have "count (image_mset run_key R') k \<le> count (image_mset run_key R) k" for k
    using image_mset_subseteq_mono [OF assms(2)] by (rule mset_subset_eq_count)
  moreover have "count (image_mset run_key R) k \<le> 1" for k using assms(1) unfolding runs_once_def by blast
  ultimately have "count (image_mset run_key R') k \<le> 1" for k using le_trans by blast
  moreover have "run_key ` set_mset R' \<subseteq> run_key ` set_mset R" using assms(2) by (intro image_mono set_mset_mono)
  ultimately show ?thesis using assms(1) unfolding runs_once_def by blast
qed

lemma runs_once_claim:
  assumes "runs_once K0 R (recorded a)" "claims (Some f) a a'"
  shows "runs_once K0 (add_mset f R) (recorded a')"
proof -
  have f: "run_key f \<notin> recorded a" "recorded a' = insert (run_key f) (recorded a)"
    using assms(2) by (simp_all add: claims_def)
  then have "run_key f \<notin> run_key ` set_mset R" using assms(1) by (auto simp: runs_once_def)
  then have "count (image_mset run_key R) (run_key f) = 0" by (simp add: count_eq_zero_iff)
  then show ?thesis using assms(1) f by (auto simp: runs_once_def)
qed

definition cluster_inv ::
  "'s Storage \<Rightarrow> ('s \<Rightarrow> AStore) \<Rightarrow> ('s \<Rightarrow> bool) \<Rightarrow> (string \<times> string) set \<Rightarrow> ('s, 'm) Cluster \<Rightarrow> bool"
where
  "cluster_inv S view ok K0 c \<longleftrightarrow>
     ok (c_store c) \<and> (\<forall>s \<in> set (c_nodes c). sched_inv s \<and> node_on S s \<and> jobs_admitted s)
     \<and> runs_once K0 (cluster_runs c) (recorded (view (c_store c))) \<and> (\<forall>f \<in># cluster_runs c. run_ok f)"

lemma sum_list_update_add:
  fixes f :: "'a \<Rightarrow> 'b :: comm_monoid_add"
  assumes "i < length xs"
  shows "sum_list (map f (xs[i := v])) + f (xs ! i) = sum_list (map f xs) + f v"
proof -
  have "sum_list (map f xs) = sum_list (map f (take i xs @ xs ! i # drop (Suc i) xs))"
    using id_take_nth_drop [OF assms] by simp
  then show ?thesis by (simp add: upd_conv_take_nth_drop [OF assms] add_ac)
qed

lemma summand_le:
  fixes f :: "'a \<Rightarrow> 'b multiset"
  assumes "i < length xs"
  shows "f (xs ! i) \<subseteq># sum_list (map f xs)"
proof -
  have "sum_list (map f xs) = sum_list (map f (take i xs @ xs ! i # drop (Suc i) xs))"
    using id_take_nth_drop [OF assms] by simp
  then show ?thesis by simp
qed

lemma cluster_runs_node:
  assumes "i < length (c_nodes c)" "handed (s_pool s') + R = handed (s_pool (c_nodes c ! i)) + R'"
  shows "sum_list (map (\<lambda>s. handed (s_pool s)) ((c_nodes c)[i := s'])) + R + c_past c = cluster_runs c + R'"
proof -
  let ?h = "\<lambda>s :: ('a, 'b) Scheduler. handed (s_pool s)"
  have "sum_list (map ?h ((c_nodes c)[i := s'])) + R + ?h (c_nodes c ! i)
      = (sum_list (map ?h ((c_nodes c)[i := s'])) + ?h (c_nodes c ! i)) + R" by (simp add: add_ac)
  also have "\<dots> = sum_list (map ?h (c_nodes c)) + (?h s' + R)"
    unfolding sum_list_update_add [OF assms(1), of ?h s'] by (simp add: add_ac)
  also have "\<dots> = (sum_list (map ?h (c_nodes c)) + R') + ?h (c_nodes c ! i)" unfolding assms(2) by (simp add: add_ac)
  finally show ?thesis by (simp add: cluster_runs_def add_ac)
qed

lemma nodes_update:
  assumes "\<forall>s \<in> set ss. P s" "P s'"
  shows "\<forall>s \<in> set (ss[i := s']). P s"
  using assms by (auto dest: set_update_subset_insert [THEN subsetD])

lemma new_node:
  "sched_inv (NewScheduler cfg m S tks) \<and> node_on S (NewScheduler cfg m S tks) \<and> jobs_admitted (NewScheduler cfg m S tks)"
  "handed (s_pool (NewScheduler cfg m S tks)) = {#}"
proof -
  have "node_on S (NewScheduler cfg m S tks)" "jobs_admitted (NewScheduler cfg m S tks)"
    by (simp_all add: NewScheduler_def Let_def jobs_admitted_def node_on_def NewExecutor_def SetMetrics_def NewReaper_def)
  then show "sched_inv (NewScheduler cfg m S tks) \<and> node_on S (NewScheduler cfg m S tks) \<and> jobs_admitted (NewScheduler cfg m S tks)"
    using new_scheduler_inv by blast
  show "handed (s_pool (NewScheduler cfg m S tks)) = {#}" by (simp add: NewScheduler_def Let_def handed_other(5))
qed

context storage
begin

lemma watch_keeps:
  assumes u: "uuid_text (NewSHA1 E)" and inv: "cluster_inv S abs invar K0 c" and i: "i < length (c_nodes c)"
    and live: "alive (c_nodes c ! i)" and st: "w_store w = c_store c"
    and run: "watchJob E j b (c_nodes c ! i) w = Some (s', w')"
  shows "cluster_inv S abs invar K0 (c\<lparr>c_nodes := (c_nodes c)[i := s'], c_store := w_store w'\<rparr>)"
proof -
  let ?s = "c_nodes c ! i" and ?c = "c\<lparr>c_nodes := (c_nodes c)[i := s'], c_store := w_store w'\<rparr>"
  have c: "invar (c_store c)" "\<forall>s \<in> set (c_nodes c). sched_inv s \<and> node_on S s \<and> jobs_admitted s"
    "runs_once K0 (cluster_runs c) (recorded (abs (c_store c)))" "\<forall>f \<in># cluster_runs c. run_ok f"
    using inv by (simp_all add: cluster_inv_def)
  have s: "sched_inv ?s" "node_on S ?s" "jobs_admitted ?s" using c(2) i by auto
  have "jobs_admitted s'" using watchJob_static(2) [OF run] s(3) by (simp add: jobs_admitted_def)
  moreover have "node_on S s'" using watchJob_static(1) [OF run] s(2) by (simp add: node_on_def)
  ultimately have nodes: "\<forall>s \<in> set (c_nodes ?c). sched_inv s \<and> node_on S s \<and> jobs_admitted s"
    using nodes_update [OF c(2), of s'] watch_move [OF s(1) run live] by simp
  have claim: "invar (w_store w') \<and> claims r (abs (c_store c)) (abs (w_store w')) \<and> (\<forall>f. r = Some f \<longrightarrow> run_ok f)"
    if "s_jobs ?s jobID = Some job" "claimOccurrence E ?s job x w = (r, w')" for jobID job x r
  proof -
    have id: "job_id_ok (j_ID job)" using s(1,3) that(1) by (auto simp: sched_inv_def jobs_keyed_def jobs_admitted_def)
    have "s_store ?s = S" using s(2) by (simp add: node_on_def)
    from claimOccurrence_claims [OF this u id _ that(2)] c(1) st have "invar (w_store w') \<and> claims r (abs (c_store c)) (abs (w_store w'))"
      by simp
    then show ?thesis using claimOccurrence_run [OF _ u id] that(2) by blast
  qed
  have same: "cluster_runs ?c = cluster_runs c" if "s_pool s' = s_pool ?s"
    using cluster_runs_node [OF i, of s' "{#}" "{#}"] that by (simp add: cluster_runs_def)
  from run show ?thesis
  proof (cases rule: watchJob_claims)
    case quiet
    then show ?thesis using c st same nodes by (simp add: cluster_inv_def)
  next
    case (lost jobID job x)
    then show ?thesis using claim [OF lost(1,2)] c(3,4) same nodes by (simp add: cluster_inv_def claims_def)
  next
    case (won jobID job x f)
    have "cluster_runs ?c = add_mset f (cluster_runs c)"
      using cluster_runs_node [OF i, of s' "{#}" "{#f#}"] won(3) by (simp add: cluster_runs_def handed_submit)
    then show ?thesis using claim [OF won(1,2)] runs_once_claim [OF c(3)] c(4) nodes by (simp add: cluster_inv_def)
  qed
qed

lemma cluster_step_keeps:
  assumes "cluster_step sha S c c'" "uuid_text sha" "cluster_inv S abs invar K0 c"
  shows "cluster_inv S abs invar K0 c'"
  using assms
proof (induction rule: cluster_step.induct)
  case (node i c s')
  have c: "\<forall>s \<in> set (c_nodes c). sched_inv s \<and> node_on S s \<and> jobs_admitted s"
    "runs_once K0 (cluster_runs c) (recorded (abs (c_store c)))" "invar (c_store c)"
    "\<forall>f \<in># cluster_runs c. run_ok f" using node by (simp_all add: cluster_inv_def)
  have s: "sched_inv (c_nodes c ! i)" "node_on S (c_nodes c ! i)" using c(1) node(1) by auto
  obtain R where "handed (s_pool (c_nodes c ! i)) = handed (s_pool s') + R"
    using node(3) by (metis subset_mset.le_iff_add)
  then have "cluster_runs (c\<lparr>c_nodes := (c_nodes c)[i := s']\<rparr>) + R = cluster_runs c"
    using cluster_runs_node [OF node(1), of s' R "{#}"] by (simp add: cluster_runs_def add_ac)
  then have "cluster_runs (c\<lparr>c_nodes := (c_nodes c)[i := s']\<rparr>) \<subseteq># cluster_runs c" by (metis mset_subset_eq_add_left)
  moreover from this have "\<forall>f \<in># cluster_runs (c\<lparr>c_nodes := (c_nodes c)[i := s']\<rparr>). run_ok f"
    using c(4) by (blast dest: mset_subset_eqD)
  moreover have "\<forall>s \<in> set ((c_nodes c)[i := s']). sched_inv s \<and> node_on S s \<and> jobs_admitted s"
    using nodes_update [OF c(1), of s'] sched_step_move [OF node(2) s(1)] sched_step_store [OF node(2) s] node(4)
    by simp
  ultimately show ?case using c runs_once_fewer by (auto simp: cluster_inv_def)
next
  case (watch i c E w j b s' w')
  then show ?case using watch_keeps by blast
next
  case (recovery E w c r job t f w')
  have "cluster_runs (c\<lparr>c_store := w_store w', c_past := add_mset f (c_past c)\<rparr>) = add_mset f (cluster_runs c)"
    by (simp add: cluster_runs_def)
  moreover have "invar (w_store w') \<and> claims (Some f) (abs (c_store c)) (abs (w_store w'))"
    using claimRecovery_claims [OF recovery(3) _ recovery(4) _ recovery(5)] recovery by (simp add: cluster_inv_def)
  moreover have "runs_once K0 (cluster_runs c) (recorded (abs (c_store c)))"
    using recovery(7) by (simp add: cluster_inv_def)
  note runs_once_claim [OF this]
  moreover have "run_ok f" using claimRecovery_run [OF recovery(5) _ recovery(4)] recovery(1,6) by simp
  ultimately show ?case using recovery(7) by (simp add: cluster_inv_def)
next
  case (call c s')
  have "cluster_runs (c\<lparr>c_store := s'\<rparr>) = cluster_runs c" by (simp add: cluster_runs_def)
  then show ?case using call call_keeps [OF call(1)] by (simp add: cluster_inv_def)
next
  case (replace i c cfg m tks)
  let ?new = "NewScheduler cfg m S tks" and ?h = "handed (s_pool (c_nodes c ! i))"
  have "cluster_runs (c\<lparr>c_nodes := (c_nodes c)[i := ?new], c_past := c_past c + ?h\<rparr>) = cluster_runs c"
    using cluster_runs_node [OF replace(1), of ?new ?h "{#}"] by (simp add: cluster_runs_def new_node(2) add_ac)
  moreover have "\<forall>s \<in> set ((c_nodes c)[i := ?new]). sched_inv s \<and> node_on S s \<and> jobs_admitted s"
    using replace(3) new_node(1) by (intro nodes_update) (simp_all add: cluster_inv_def)
  ultimately show ?case using replace(3) by (simp add: cluster_inv_def)
qed

lemma new_cluster_inv:
  assumes "new_cluster S c" "invar (c_store c)"
  shows "cluster_inv S abs invar (recorded (abs (c_store c))) c"
proof -
  have "handed (s_pool s) = {#}" "sched_inv s \<and> node_on S s \<and> jobs_admitted s" if "s \<in> set (c_nodes c)" for s
    using assms(1) that new_node unfolding new_cluster_def by metis+
  moreover from this(1) have "map (\<lambda>s. handed (s_pool s)) (c_nodes c) = map (\<lambda>s. {#}) (c_nodes c)" by simp
  then have "sum_list (map (\<lambda>s. handed (s_pool s)) (c_nodes c)) = {#}" by (simp only: sum_list_0)
  then have "cluster_runs c = {#}" using assms(1) by (simp add: cluster_runs_def new_cluster_def)
  ultimately show ?thesis using assms(2) by (auto simp: cluster_inv_def runs_once_def)
qed

lemma cluster_reach_inv:
  assumes "(cluster_step sha S)\<^sup>*\<^sup>* c c'" "uuid_text sha" "cluster_inv S abs invar K0 c"
  shows "cluster_inv S abs invar K0 c'"
  using assms(1)
proof (induction rule: rtranclp_induct)
  case (step c1 c2)
  then show ?case using cluster_step_keeps [OF step(2) assms(2)] by simp
qed (rule assms(3))

end

subsection \<open>The operations of a node are steps of the cluster\<close>

text \<open>
  The cluster can go to the given state of node \<open>i\<close> and of the store; on the way it may start executions
  of recoveries.
\<close>

definition reaches :: "uuid5 \<Rightarrow> 's Storage \<Rightarrow> ('s, 'm) Cluster \<Rightarrow> nat \<Rightarrow> ('s, 'm) Scheduler \<Rightarrow> 's \<Rightarrow> bool" where
  "reaches sha S c i s' st \<longleftrightarrow>
     (\<exists>F. (cluster_step sha S)\<^sup>*\<^sup>* c (c\<lparr>c_nodes := (c_nodes c)[i := s'], c_store := st, c_past := c_past c + F\<rparr>))"

text \<open>The store goes from \<open>s\<close> to \<open>s'\<close> by calls and claims of recoveries.\<close>

definition store_reaches :: "uuid5 \<Rightarrow> 's Storage \<Rightarrow> 'm itself \<Rightarrow> 's \<Rightarrow> 's \<Rightarrow> bool" where
  "store_reaches sha S T s s' \<longleftrightarrow> (\<forall>c :: ('s, 'm) Cluster. c_store c = s \<longrightarrow>
     (\<exists>F. (cluster_step sha S)\<^sup>*\<^sup>* c (c\<lparr>c_store := s', c_past := c_past c + F\<rparr>)))"

lemma store_reaches_refl: "store_reaches sha S T s s"
  unfolding store_reaches_def by (intro allI impI exI [of _ "{#}"]) auto

lemma store_reaches_trans:
  fixes S :: "'s Storage" and T :: "'m itself"
  assumes "store_reaches sha S T s1 s2" "store_reaches sha S T s2 s3"
  shows "store_reaches sha S T s1 s3"
  unfolding store_reaches_def
proof (intro allI impI)
  fix c :: "('s, 'm) Cluster" assume c: "c_store c = s1"
  obtain F where one: "(cluster_step sha S)\<^sup>*\<^sup>* c (c\<lparr>c_store := s2, c_past := c_past c + F\<rparr>)"
    using assms(1) c unfolding store_reaches_def by blast
  let ?c = "c\<lparr>c_store := s2, c_past := c_past c + F\<rparr>"
  have "c_store ?c = s2" by simp
  then obtain G where "(cluster_step sha S)\<^sup>*\<^sup>* ?c (?c\<lparr>c_store := s3, c_past := c_past ?c + G\<rparr>)"
    using assms(2) unfolding store_reaches_def by blast
  with one have "(cluster_step sha S)\<^sup>*\<^sup>* c (c\<lparr>c_store := s3, c_past := c_past c + (F + G)\<rparr>)"
    by (simp add: add.assoc)
  then show "\<exists>F. (cluster_step sha S)\<^sup>*\<^sup>* c (c\<lparr>c_store := s3, c_past := c_past c + F\<rparr>)" by blast
qed

lemma call_reaches:
  fixes S :: "'s Storage" and T :: "'m itself"
  assumes "call S s s'"
  shows "store_reaches sha S T s s'"
  unfolding store_reaches_def
proof (intro allI impI exI [of _ "{#}"])
  fix c :: "('s, 'm) Cluster" assume "c_store c = s"
  then have "cluster_step sha S c (c\<lparr>c_store := s'\<rparr>)" using assms by (intro cluster_step.call) simp
  then show "(cluster_step sha S)\<^sup>*\<^sup>* c (c\<lparr>c_store := s', c_past := c_past c + {#}\<rparr>)" by auto
qed

lemma calls_reach: "calls S s s' \<Longrightarrow> store_reaches sha S T s s'"
  by (induction rule: rtranclp_induct) (blast intro: store_reaches_refl store_reaches_trans call_reaches)+

lemma claimRecovery_reaches:
  fixes w :: "('s, 'm) World" and job :: "nat Job"
  assumes "rh_store r = S" "uuid_text sha" "NewSHA1 E = sha" "job_id_ok (j_ID job)" "claimRecovery E r job t w = (f, w')"
  shows "store_reaches sha S TYPE('m) (w_store w) (w_store w')"
proof (cases f)
  case None
  let ?oc = "recovery_record (recovery_occurrence E job t (Now E (w_clock w)) (Now E (Suc (w_clock w))))"
  have "job_id_ok (so_JobID ?oc)" "occ_id_ok (so_ID ?oc)"
    using assms(2-4) generated_ids_ok [of sha] by (simp_all add: recovery_record_def recovery_occurrence_def)
  moreover have "fst (CreateJobOccurrence S (w_store w) ?oc) \<noteq> None" "w_store w' = snd (CreateJobOccurrence S (w_store w) ?oc)"
    using assms(1,5) None by (auto simp: claimRecovery_def time_Now_def Let_def split: prod.splits option.splits)
  ultimately show ?thesis using call_reaches [OF call.create_occ] by metis
next
  case (Some g)
  show ?thesis
    unfolding store_reaches_def
  proof (intro allI impI exI [of _ "{#g#}"])
    fix c :: "('s, 'm) Cluster" assume "c_store c = w_store w"
    then have "cluster_step sha S c (c\<lparr>c_store := w_store w', c_past := add_mset g (c_past c)\<rparr>)"
      using assms(1,3-5) Some by (intro cluster_step.recovery [of E _ w]) simp_all
    then show "(cluster_step sha S)\<^sup>*\<^sup>* c (c\<lparr>c_store := w_store w', c_past := c_past c + {#g#}\<rparr>)" by auto
  qed
qed

text \<open>A recovery handler of the program: it works on the store of the cluster.\<close>

definition handler_on :: "'s Storage \<Rightarrow> ('s, 'm) RecoveryHandler \<Rightarrow> bool" where
  "handler_on S r \<longleftrightarrow> rh_store r = S \<and> ex_store (rh_executor r) = S"

lemma run_closure_calls:
  assumes "ex_store e = S" "uuid_text (NewSHA1 E)" "run_ok f" "run_closure E e sched f w = Some w'"
  shows "calls S (w_store w) (w_store w')"
  using assms(3,4) ExecuteJobOccurrence_calls [OF assms(1,2)]
  by (cases f) (auto simp: run_closure_def run_ok_def)

lemma scheduleRecoveryRun_reaches:
  fixes w :: "('s, 'm) World" and job :: "nat Job"
  assumes "handler_on S r" "uuid_text (NewSHA1 E)" "job_id_ok (j_ID job)"
    "scheduleRecoveryRun E sched r job t label (w, p) = Some (err, w', p')"
  shows "store_reaches (NewSHA1 E) S TYPE('m) (w_store w) (w_store w')"
proof -
  have r: "rh_store r = S" "ex_store (rh_executor r) = S" using assms(1) by (simp_all add: handler_on_def)
  obtain f w1 where c: "claimRecovery E r job t w = (f, w1)" by fastforce
  note one = claimRecovery_reaches [OF r(1) assms(2) refl assms(3) c]
  show ?thesis
  proof (cases f)
    case None
    then show ?thesis using assms(4) c one by (simp add: scheduleRecoveryRun_claims)
  next
    case (Some g)
    let ?w = "w1\<lparr>w_metrics := IncRecoveryRuns (rh_metrics r) (w_metrics w1) (j_Name job) label\<rparr>"
    have "w' = ?w \<or> run_closure E (rh_executor r) sched g ?w = Some w'"
      using assms(4) c Some by (auto simp: scheduleRecoveryRun_claims Let_def split: option.splits submission.splits)
    then have "calls S (w_store w1) (w_store w')"
      using run_closure_calls [OF r(2) assms(2) claimRecovery_run [OF c [unfolded Some] assms(2,3)], of sched ?w w'] by auto
    from store_reaches_trans [OF one calls_reach [OF this]] show ?thesis .
  qed
qed

lemma recover_reaches:
  fixes w :: "('s, 'm) World" and job :: "nat Job"
  assumes "handler_on S r" "uuid_text (NewSHA1 E)" "job_id_ok (j_ID job)"
    "recover E sched r job label ts (w, p) = Some (w', p')"
  shows "store_reaches (NewSHA1 E) S TYPE('m) (w_store w) (w_store w')"
  using assms(4)
proof (induction ts arbitrary: w p)
  case Nil
  then show ?case using store_reaches_refl by simp
next
  case (Cons t ts)
  obtain err w1 p1 where one: "scheduleRecoveryRun E sched r job t label (w, p) = Some (err, w1, p1)"
    "recover E sched r job label ts (w1, p1) = Some (w', p')"
    using Cons.prems by (auto split: option.splits prod.splits)
  show ?case
    using store_reaches_trans [OF scheduleRecoveryRun_reaches [OF assms(1-3) one(1)] Cons.IH [OF one(2)]] .
qed

lemma ApplyStrategy_reaches:
  fixes w :: "('s, 'm) World" and job :: "nat Job"
  assumes "handler_on S r" "uuid_text (NewSHA1 E)" "job_id_ok (j_ID job)"
    "ApplyStrategy E sched r job ts (w, p) = Some (err, w', p')"
  shows "store_reaches (NewSHA1 E) S TYPE('m) (w_store w) (w_store w')"
proof (cases "ts = []")
  case True
  then show ?thesis using assms(4) store_reaches_refl by (simp add: ApplyStrategy_def)
next
  case False
  let ?v = "if reads_clock (j_Config job) then w\<lparr>w_clock := Suc (w_clock w)\<rparr> else w"
  have v: "w_store ?v = w_store w" by simp
  from False obtain label where "recover E sched r job label (selected_times (j_Config job) (Now E (w_clock w)) ts) (?v, p) = Some (w', p')"
    using assms(4) by (auto simp: ApplyStrategy_recover)
  from recover_reaches [OF assms(1-3) this] show ?thesis unfolding v .
qed

lemma recoverJob_reaches:
  fixes w :: "('s, 'm) World"
  assumes "handler_on S r" "uuid_text (NewSHA1 E)" "job_id_ok (j_ID job)"
    "recoverJob E sched s r job (w, p) = Some (err, w', p')"
  shows "store_reaches (NewSHA1 E) S TYPE('m) (w_store w) (w_store w')"
proof -
  have clk: "w_store (snd (lastRun E sj v)) = w_store v" for sj and v :: "('s, 'm) World"
    by (simp add: lastRun_def time_Now_def split: option.splits)
  have "w_store w' = w_store w \<or> (\<exists>v missed. w_store v = w_store w \<and> ApplyStrategy E sched r job missed (v, p) = Some (err, w', p'))"
  proof (cases "\<not> j_Active job")
    case False
    show ?thesis
    proof (cases "GetJob (s_store s) (w_store w) (j_ID job)")
      case (Inr sj)
      obtain lr v where l: "lastRun E sj w = (lr, v)" by fastforce
      have "w_store v = w_store w" using clk [of sj w] l by simp
      then show ?thesis using False Inr l assms(4)
        by (auto simp: recoverJob_def time_Now_def Let_def split: option.splits sum.splits)
    qed (insert assms(4) False, simp add: recoverJob_def)
  qed (insert assms(4), simp add: recoverJob_def)
  then show ?thesis using ApplyStrategy_reaches [OF assms(1-3)] store_reaches_refl by metis
qed

lemma recoverJobs_reaches:
  fixes w :: "('s, 'm) World"
  assumes "handler_on S r" "uuid_text (NewSHA1 E)" "jobs_admitted s" "jobs_keyed s"
    "recoverJobs E sched s r order (w, p) = Some (err, w', p')"
  shows "store_reaches (NewSHA1 E) S TYPE('m) (w_store w) (w_store w')"
  using assms(5)
proof (induction order arbitrary: w p)
  case Nil
  then show ?case using store_reaches_refl by simp
next
  case (Cons j order)
  show ?case
  proof (cases "s_jobs s j")
    case None
    then show ?thesis using Cons by simp
  next
    case (Some job)
    then obtain e w1 p1 where one: "recoverJob E sched s r job (w, p) = Some (e, w1, p1)"
      and rest: "(case e of Some x \<Rightarrow> Some (Some x, w1, p1) | None \<Rightarrow> recoverJobs E sched s r order (w1, p1))
        = Some (err, w', p')"
      using Cons.prems by (auto split: option.splits prod.splits)
    have "job_id_ok (j_ID job)" using assms(3,4) Some by (auto simp: jobs_admitted_def jobs_keyed_def)
    note first = recoverJob_reaches [OF assms(1,2) this one]
    show ?thesis
    proof (cases e)
      case None
      then show ?thesis using store_reaches_trans [OF first] Cons.IH rest by simp
    next
      case (Some x)
      then show ?thesis using first rest by simp
    qed
  qed
qed

lemma node_reaches:
  fixes c :: "('s, 'm) Cluster"
  assumes "store_reaches sha S TYPE('m) (c_store c) st" "i < length (c_nodes c)" "sched_step (c_nodes c ! i) s'"
    "handed (s_pool s') \<subseteq># handed (s_pool (c_nodes c ! i))" "jobs_admitted s'"
  shows "reaches sha S c i s' st"
proof -
  obtain F where one: "(cluster_step sha S)\<^sup>*\<^sup>* c (c\<lparr>c_store := st, c_past := c_past c + F\<rparr>)"
    using assms(1) unfolding store_reaches_def by blast
  let ?c = "c\<lparr>c_store := st, c_past := c_past c + F\<rparr>"
  have "cluster_step sha S ?c (?c\<lparr>c_nodes := (c_nodes ?c)[i := s']\<rparr>)"
    using assms(2-) by (intro cluster_step.node) simp_all
  then have "cluster_step sha S ?c (c\<lparr>c_nodes := (c_nodes c)[i := s'], c_store := st, c_past := c_past c + F\<rparr>)"
    by (cases c) simp
  from rtranclp.rtrancl_into_rtrancl [OF one this] show ?thesis unfolding reaches_def by blast
qed

lemma store_node_reaches:
  fixes c :: "('s, 'm) Cluster"
  assumes "store_reaches sha S TYPE('m) (c_store c) st"
  shows "reaches sha S c i (c_nodes c ! i) st"
  using assms unfolding store_reaches_def reaches_def by (auto intro!: exI)

text \<open>The operations a goroutine of a node performs, as wholes, with what they do to the node and its world.\<close>

inductive node_op :: "Env \<Rightarrow> ('s, 'm) Scheduler \<Rightarrow> ('s, 'm) World \<Rightarrow> ('s, 'm) Scheduler \<Rightarrow> ('s, 'm) World \<Rightarrow> bool"
  for E :: Env and s :: "('s, 'm) Scheduler" and w :: "('s, 'm) World"
where
  registers: "job_ids_ok job \<Longrightarrow> RegisterJob E job s w = (r, s', w') \<Longrightarrow> node_op E s w s' w'"
| updates: "update_ids_ok u \<Longrightarrow> Scheduler_UpdateJob E order u s w = Some (r, s', w') \<Longrightarrow> node_op E s w s' w'"
| starts: "s_shutdown s = NoShutdown \<Longrightarrow> distinct o2 \<Longrightarrow> Start E sched o1 o2 s w = Some (r, s', w') \<Longrightarrow> node_op E s w s' w'"
| watches: "watchJob E j b s w = Some (s', w') \<Longrightarrow> node_op E s w s' w'"
| reaps: "Reaper_run E (s_canceled s) rb (s_reaper s) w = Some (rp, w') \<Longrightarrow> node_op E s w (s\<lparr>s_reaper := rp\<rparr>) w'"
| executes: "f \<in># handed (s_pool s) \<Longrightarrow> runSubmitted E sched f s w = Some w' \<Longrightarrow> node_op E s w s w'"

lemma Start_store:
  fixes w :: "('s, 'm) World"
  assumes "node_on S s" "jobs_admitted s" "jobs_keyed s" "uuid_text (NewSHA1 E)" "Start E sched o1 o2 s w = Some (r, s', w')"
  shows "store_reaches (NewSHA1 E) S TYPE('m) (w_store w) (w_store w')"
proof (cases "s_running s")
  case True
  then show ?thesis using assms(5) store_reaches_refl by (simp add: Start_def)
next
  case False
  let ?r = "Recovery_SetMetrics (NewRecoveryHandler (s_store s) (s_exec s)) (s_metrics s)"
  have "handler_on S ?r"
    using assms(1) by (simp add: handler_on_def node_on_def NewRecoveryHandler_def Recovery_SetMetrics_def)
  moreover obtain e p1 where "recoverJobs E sched s ?r o1 (w, s_pool s) = Some (e, w', p1)"
    using assms(5) False
    by (auto simp: Start_def performRecovery_def Let_def split: option.splits prod.splits)
  ultimately show ?thesis using recoverJobs_reaches assms(2-4) by blast
qed

lemma node_jobs:
  "RegisterJob E job s w = (r, s', w') \<Longrightarrow> job_ids_ok job \<Longrightarrow> jobs_admitted s \<Longrightarrow> jobs_admitted s' \<and> s_pool s' = s_pool s"
  "Scheduler_UpdateJob E order u s w = Some (r, s', w') \<Longrightarrow> jobs_admitted s \<Longrightarrow> jobs_admitted s' \<and> s_pool s' = s_pool s"
  by (auto simp: jobs_admitted_def job_ids_ok_def domIff split: if_splits dest!: RegisterJob_effect UpdateJob_effect)

lemma Start_jobs:
  assumes "Start E sched o1 o2 s w = Some (r, s', w')" "s_shutdown s = NoShutdown" "sched_inv s" "jobs_admitted s"
  shows "jobs_admitted s' \<and> handed (s_pool s') = handed (s_pool s)"
proof (cases "s_running s")
  case True
  then show ?thesis using assms(1,4) by (simp add: Start_def)
next
  case False
  then have "\<not> p_started (s_pool s)" "\<not> p_stopping (s_pool s)" using assms(2,3) by (auto simp: sched_inv_def)
  with assms(1) show ?thesis
    using assms(4) by (cases rule: Start_cases) (simp_all add: jobs_admitted_def handed_other(2))
qed

context storage
begin

lemma node_op_reaches:
  fixes c :: "('s, 'm) Cluster"
  assumes "node_op E (c_nodes c ! i) w s' w'" "uuid_text (NewSHA1 E)" "cluster_inv S abs invar K0 c" "i < length (c_nodes c)"
    "alive (c_nodes c ! i)" "w_store w = c_store c"
  shows "reaches (NewSHA1 E) S c i s' (w_store w')"
proof -
  let ?s = "c_nodes c ! i"
  have s: "sched_inv ?s" "node_on S ?s" "jobs_admitted ?s" and inv: "invar (w_store w)"
    and runs: "\<forall>f \<in># cluster_runs c. run_ok f"
    using assms(3,4,6) by (auto simp: cluster_inv_def)
  have st: "s_store ?s = S" "ex_store (s_exec ?s) = S" "rp_store (s_reaper ?s) = S" using s(2) by (simp_all add: node_on_def)
  have keyed: "jobs_keyed ?s" using s(1) by (simp add: sched_inv_def)
  note by_calls = node_reaches [OF calls_reach _ _ _ _, where c = c and i = i, OF _ assms(4)]
  from assms(1) show ?thesis
  proof cases
    case (registers job r)
    show ?thesis
      using by_calls [OF _ sched_step.register] RegisterJob_calls [OF st(1) registers] node_jobs(1) [OF registers(2,1) s(3)]
        assms(5,6) registers(2) by simp
  next
    case (updates u order r)
    show ?thesis
      using by_calls [OF _ sched_step.update] UpdateJob_calls [OF st(1) updates(1) inv updates(2)]
        node_jobs(2) [OF updates(2) s(3)] assms(5,6) updates(2) by simp
  next
    case (starts o2 sched o1 r)
    show ?thesis
      using node_reaches [OF _ assms(4) sched_step.start [OF assms(5) starts]] Start_store [OF s(2,3) keyed assms(2) starts(3)]
        Start_jobs [OF starts(3,1) s(1,3)] assms(6) by simp
  next
    case (watches j b)
    have "cluster_step (NewSHA1 E) S c (c\<lparr>c_nodes := (c_nodes c)[i := s'], c_store := w_store w'\<rparr>)"
      using cluster_step.watch [OF assms(4,5) refl assms(6) watches] .
    then show ?thesis unfolding reaches_def by (auto intro!: exI [of _ "{#}"])
  next
    case (reaps rb rp)
    have "calls S (w_store w) (w_store w')"
      using reaps(2) reapStaleJobs_calls [OF inv, of E] st(3)
      by (auto simp: Reaper_run_def split: if_splits reaper_branch.splits)
    then show ?thesis
      using by_calls [OF _ sched_step.reaper [OF assms(5) reaps(2)]] s(3) assms(6) reaps(1) by (simp add: jobs_admitted_def)
  next
    case (executes f sched)
    have "handed (s_pool ?s) \<subseteq># cluster_runs c"
      using summand_le [OF assms(4), of "\<lambda>s. handed (s_pool s)"] by (simp add: cluster_runs_def subset_mset.add_increasing2)
    then have "run_ok f" using runs executes(2) by (blast dest: mset_subset_eqD)
    moreover let ?job = "case s_jobs ?s (j_ID (fst f)) of Some current \<Rightarrow> current | None \<Rightarrow> fst f"
    have "run_closure E (s_exec ?s) sched (?job, snd f) w = Some w'"
      using executes(3) by (simp add: runSubmitted_def case_prod_beta)
    ultimately have "calls S (w_store w) (w_store w')"
      using run_closure_calls [OF st(2) assms(2), of "(?job, snd f)"] by (simp add: run_ok_def)
    from store_node_reaches [OF calls_reach [OF this, unfolded assms(6)]] show ?thesis using executes(1) by simp
  qed
qed

end

subsection \<open>Properties\<close>

text \<open>
  C1. At most one execution per occurrence in the whole cluster. Any number of nodes on one BadgerDB,
  whose operations may fail, take any steps in any order: triggers, recoveries after a restart,
  registrations, updates, the reaper, executions, shutdowns; nodes may be lost and replaced. Of all
  executions ever handed to a pool or started by a recovery, no two are for the same occurrence; each
  is for an occurrence that is recorded now and was not before the cluster started; and what the
  goroutines of a pool execute are executions handed to it, each as often as it was handed over.
\<close>

theorem cluster_at_most_once:
  fixes c c0 :: "('s, 'm) Cluster"
  assumes "badger_db B contents" "uuid_text sha"
    and "new_cluster (BadgerStorage B) c0" "keys_ok (contents (c_store c0))"
    and "(cluster_step sha (BadgerStorage B))\<^sup>*\<^sup>* c0 c"
  shows "(\<forall>k. count (image_mset run_key (cluster_runs c)) k \<le> 1)
    \<and> (\<forall>f \<in># cluster_runs c. a_occs (abs_of (contents (c_store c))) (run_key f) \<noteq> None
         \<and> a_occs (abs_of (contents (c_store c0))) (run_key f) = None)
    \<and> (\<forall>s \<in> set (c_nodes c). executed_tasks (s_pool s) \<subseteq># handed (s_pool s))
    \<and> keys_ok (contents (c_store c))"
proof -
  note impl = badger_db.implements_storage [OF assms(1)]
  from storage.cluster_reach_inv [OF impl assms(5,2) storage.new_cluster_inv [OF impl assms(3,4)]]
  have inv: "cluster_inv (BadgerStorage B) (\<lambda>s. abs_of (contents s)) (\<lambda>s. keys_ok (contents s))
      (recorded (abs_of (contents (c_store c0)))) c" .
  have runs: "keys_ok (contents (c_store c))"
    "runs_once (recorded (abs_of (contents (c_store c0)))) (cluster_runs c) (recorded (abs_of (contents (c_store c))))"
    and nodes: "\<forall>s \<in> set (c_nodes c). sched_inv s"
    using inv by (auto simp only: cluster_inv_def)
  have "\<forall>s \<in> set (c_nodes c). executed_tasks (s_pool s) \<subseteq># handed (s_pool s)"
    using nodes executed_handed unfolding sched_inv_def by blast
  moreover have "\<forall>k. count (image_mset run_key (cluster_runs c)) k \<le> 1"
    "run_key ` set_mset (cluster_runs c) \<subseteq>
       recorded (abs_of (contents (c_store c))) - recorded (abs_of (contents (c_store c0)))"
    using runs(2) unfolding runs_once_def by blast+
  ultimately show ?thesis using runs(1) by (simp add: image_subset_iff domIff)
qed

text \<open>Two new nodes on the empty in-memory database, and a recovery of one of them.\<close>

definition sample_cluster :: "(mem, unit) Cluster" where
  "sample_cluster = \<lparr>c_nodes = [sample_node ''n1'', sample_node ''n2''], c_store = [], c_past = {#}\<rparr>"

definition sample_restart :: "(mem, unit) RecoveryHandler" where
  "sample_restart = NewRecoveryHandler mem_storage (NewExecutor mem_storage)"

lemma sample_cluster_ok:
  "new_cluster mem_storage sample_cluster" "keys_ok (map_of (c_store sample_cluster))" "w_store empty_world = c_store sample_cluster"
proof -
  have "\<exists>cfg m tks. sample_node n = NewScheduler cfg m mem_storage tks" for n unfolding sample_node_def by blast
  then show "new_cluster mem_storage sample_cluster" unfolding new_cluster_def sample_cluster_def by auto
qed (insert empty_store(1), simp_all add: sample_cluster_def empty_world_def)

lemma sample_recovery_wins:
  "\<exists>w. claimRecovery sample_env sample_restart sample_watched (atUTC 0) empty_world
     = (Some (sample_watched, recovery_occurrence sample_env sample_watched (atUTC 0) 0 0), w)"
proof -
  let ?oc = "recovery_record (recovery_occurrence sample_env sample_watched (atUTC 0) 0 0)"
  have y: "year_ok 0" "instant (atUTC 0) = 0" unfolding atUTC_def by code_simp+
  have ids: "job_id_ok (so_JobID ?oc)" "occ_id_ok (so_ID ?oc)"
    using sample_node_ok(2) generated_ids_ok [OF sample_uuid_text]
    by (simp_all add: recovery_record_def recovery_occurrence_def sample_env_def)
  have "occ_times_ok ?oc"
    using y by (simp add: occ_times_ok_def recovery_record_def recovery_occurrence_def opt_year_ok_def)
  from mem.CreateJobOccurrence_ok [OF empty_store(1) ids this]
  have "fst (CreateJobOccurrence mem_storage [] ?oc) = None" using empty_store(2) by (metis prod.collapse)
  moreover have "Now sample_env n = 0" for n by (simp add: sample_env_def)
  ultimately show ?thesis
    by (cases "CreateJobOccurrence mem_storage [] ?oc")
      (simp add: claimRecovery_def sample_restart_def NewRecoveryHandler_def empty_world_def time_Now_def)
qed

theorem cluster_at_most_once_witness:
  "\<exists>f w1 w2. claimRecovery sample_env sample_restart sample_watched (atUTC 0) empty_world = (Some f, w1)
     \<and> claimRecovery sample_env sample_restart sample_watched (atUTC 0) w1 = (None, w2)"
proof -
  let ?claim = "claimRecovery sample_env sample_restart sample_watched (atUTC 0)"
  let ?step = "cluster_step (NewSHA1 sample_env) mem_storage"
  obtain f w1 where one: "?claim empty_world = (Some f, w1)" using sample_recovery_wins by blast
  have r: "rh_store sample_restart = mem_storage" by (simp add: sample_restart_def NewRecoveryHandler_def)
  let ?c1 = "sample_cluster\<lparr>c_store := w_store w1, c_past := add_mset f (c_past sample_cluster)\<rparr>"
  have s1: "?step sample_cluster ?c1" using cluster_step.recovery [OF refl sample_cluster_ok(3) r sample_node_ok(2) one] .
  obtain g w2 where two: "?claim w1 = (g, w2)" by fastforce
  have "g = None"
  proof (rule ccontr)
    assume "g \<noteq> None"
    then obtain h where h: "?claim w1 = (Some h, w2)" using two by blast
    let ?c2 = "?c1\<lparr>c_store := w_store w2, c_past := add_mset h (c_past ?c1)\<rparr>"
    have "w_store w1 = c_store ?c1" by simp
    from cluster_step.recovery [OF refl this r sample_node_ok(2) h] have "?step ?c1 ?c2" .
    with s1 have "?step\<^sup>*\<^sup>* sample_cluster ?c2" by simp
    note cluster_at_most_once [OF mem.badger_db_axioms sample_env_ok(1) sample_cluster_ok(1,2) this, THEN conjunct1,
        THEN spec [of _ "run_key f"]]
    moreover have "run_key h = run_key f"
      using claimRecovery_key [OF one] claimRecovery_key [OF h] by simp
    ultimately show False by (simp add: cluster_runs_def)
  qed
  then show ?thesis using one two by blast
qed

text \<open>
  C2. The steps of the cluster cover the program: each whole operation of a node that is up, run without
  interruption on the store of the cluster (a registration, an update, a start with its recovery, a
  step of a watcher, a scan of the reaper, the execution of something its pool was handed), is a
  sequence of steps of the cluster to the state and the store it ends in, also when calls of the
  database fail on the way; only a recovery adds executions.
\<close>

theorem node_operations_covered:
  fixes c c0 :: "('s, 'm) Cluster"
  assumes "badger_db B contents" "uuid_text (NewSHA1 E)"
    and "new_cluster (BadgerStorage B) c0" "keys_ok (contents (c_store c0))"
    and "(cluster_step (NewSHA1 E) (BadgerStorage B))\<^sup>*\<^sup>* c0 c"
    and "i < length (c_nodes c)" "alive (c_nodes c ! i)" "w_store w = c_store c"
    and "node_op E (c_nodes c ! i) w s' w'"
  shows "\<exists>c'. (cluster_step (NewSHA1 E) (BadgerStorage B))\<^sup>*\<^sup>* c c'
    \<and> c_nodes c' = (c_nodes c)[i := s'] \<and> c_store c' = w_store w' \<and> c_past c \<subseteq># c_past c'"
proof -
  note impl = badger_db.implements_storage [OF assms(1)]
  from storage.cluster_reach_inv [OF impl assms(5,2) storage.new_cluster_inv [OF impl assms(3,4)]]
  have "reaches (NewSHA1 E) (BadgerStorage B) c i s' (w_store w')"
    using storage.node_op_reaches [OF impl assms(9,2) _ assms(6-8)] by blast
  then obtain F where "(cluster_step (NewSHA1 E) (BadgerStorage B))\<^sup>*\<^sup>* c
      (c\<lparr>c_nodes := (c_nodes c)[i := s'], c_store := w_store w', c_past := c_past c + F\<rparr>)"
    unfolding reaches_def by blast
  then show ?thesis
    by (intro exI [of _ "c\<lparr>c_nodes := (c_nodes c)[i := s'], c_store := w_store w', c_past := c_past c + F\<rparr>"]) simp
qed

theorem node_operations_covered_witness:
  "\<exists>r s' w' c'. RegisterJob sample_env sample_registered (sample_node ''n1'') empty_world = (r, s', w')
     \<and> (cluster_step (NewSHA1 sample_env) mem_storage)\<^sup>*\<^sup>* sample_cluster c'
     \<and> c_nodes c' = [s', sample_node ''n2''] \<and> c_store c' = w_store w'"
proof -
  obtain r s' w' where run: "RegisterJob sample_env sample_registered (sample_node ''n1'') empty_world = (r, s', w')"
    by (metis surj_pair)
  have n1: "c_nodes sample_cluster ! 0 = sample_node ''n1''" "0 < length (c_nodes sample_cluster)"
    by (simp_all add: sample_cluster_def)
  have up: "alive (c_nodes sample_cluster ! 0)"
    unfolding n1 by (simp add: alive_def sample_node_def NewScheduler_def Let_def NewWorkerPool_def NewReaper_def)
  have "node_op sample_env (c_nodes sample_cluster ! 0) empty_world s' w'"
    unfolding n1 using node_op.registers [OF sample_registered_ok run] .
  from node_operations_covered [OF mem.badger_db_axioms sample_env_ok(1) sample_cluster_ok(1,2) rtranclp.rtrancl_refl
      n1(2) up sample_cluster_ok(3) this] run
  show ?thesis by (auto simp: sample_cluster_def)
qed

end
