(* ===== verification/Hash.thy ===== *)
theory Hash
  imports Ids
begin

text \<open>
  The function \<^verbatim>\<open>HashString\<close> of \<^verbatim>\<open>id/id.go\<close>, with what it uses of the standard library:
  \<^verbatim>\<open>crypto/sha256\<close> (the digest of the bytes written, on 32-bit words with wrap-around) and
  \<^verbatim>\<open>encoding/hex\<close>. A byte is a character of the string. The digest is checked against the test
  vectors published with the standard, and its shape and the uniqueness of its padding are proved
  for every string.
\<close>

unbundle bit_operations_syntax

subsection \<open>Words\<close>

type_synonym word32 = "32 word"
type_synonym byte = "8 word"

definition rotr :: "nat \<Rightarrow> word32 \<Rightarrow> word32" where
  "rotr n x = drop_bit n x OR push_bit (32 - n) x"

definition big_sigma0 :: "word32 \<Rightarrow> word32" where
  "big_sigma0 x = rotr 2 x XOR rotr 13 x XOR rotr 22 x"

definition big_sigma1 :: "word32 \<Rightarrow> word32" where
  "big_sigma1 x = rotr 6 x XOR rotr 11 x XOR rotr 25 x"

definition small_sigma0 :: "word32 \<Rightarrow> word32" where
  "small_sigma0 x = rotr 7 x XOR rotr 18 x XOR drop_bit 3 x"

definition small_sigma1 :: "word32 \<Rightarrow> word32" where
  "small_sigma1 x = rotr 17 x XOR rotr 19 x XOR drop_bit 10 x"

definition sha_ch :: "word32 \<Rightarrow> word32 \<Rightarrow> word32 \<Rightarrow> word32" where
  "sha_ch x y z = (x AND y) XOR (NOT x AND z)"

definition sha_maj :: "word32 \<Rightarrow> word32 \<Rightarrow> word32 \<Rightarrow> word32" where
  "sha_maj x y z = (x AND y) XOR (x AND z) XOR (y AND z)"

text \<open>
  The constants of the rounds, sixteen at a time, each beside its prime: the first 32 bits of the
  fractional part of the cube root of the prime.
\<close>

definition cube_roots0 :: "(nat \<times> word32) list" where
  "cube_roots0 =
    [(2, 0x428a2f98), (3, 0x71374491), (5, 0xb5c0fbcf), (7, 0xe9b5dba5),
     (11, 0x3956c25b), (13, 0x59f111f1), (17, 0x923f82a4), (19, 0xab1c5ed5),
     (23, 0xd807aa98), (29, 0x12835b01), (31, 0x243185be), (37, 0x550c7dc3),
     (41, 0x72be5d74), (43, 0x80deb1fe), (47, 0x9bdc06a7), (53, 0xc19bf174)]"

definition cube_roots1 :: "(nat \<times> word32) list" where
  "cube_roots1 =
    [(59, 0xe49b69c1), (61, 0xefbe4786), (67, 0x0fc19dc6), (71, 0x240ca1cc),
     (73, 0x2de92c6f), (79, 0x4a7484aa), (83, 0x5cb0a9dc), (89, 0x76f988da),
     (97, 0x983e5152), (101, 0xa831c66d), (103, 0xb00327c8), (107, 0xbf597fc7),
     (109, 0xc6e00bf3), (113, 0xd5a79147), (127, 0x06ca6351), (131, 0x14292967)]"

definition cube_roots2 :: "(nat \<times> word32) list" where
  "cube_roots2 =
    [(137, 0x27b70a85), (139, 0x2e1b2138), (149, 0x4d2c6dfc), (151, 0x53380d13),
     (157, 0x650a7354), (163, 0x766a0abb), (167, 0x81c2c92e), (173, 0x92722c85),
     (179, 0xa2bfe8a1), (181, 0xa81a664b), (191, 0xc24b8b70), (193, 0xc76c51a3),
     (197, 0xd192e819), (199, 0xd6990624), (211, 0xf40e3585), (223, 0x106aa070)]"

definition cube_roots3 :: "(nat \<times> word32) list" where
  "cube_roots3 =
    [(227, 0x19a4c116), (229, 0x1e376c08), (233, 0x2748774c), (239, 0x34b0bcb5),
     (241, 0x391c0cb3), (251, 0x4ed8aa4a), (257, 0x5b9cca4f), (263, 0x682e6ff3),
     (269, 0x748f82ee), (271, 0x78a5636f), (277, 0x84c87814), (281, 0x8cc70208),
     (283, 0x90befffa), (293, 0xa4506ceb), (307, 0xbef9a3f7), (311, 0xc67178f2)]"

definition constants0 :: "word32 list" where
  "constants0 = map snd cube_roots0"

definition constants1 :: "word32 list" where
  "constants1 = map snd cube_roots1"

definition constants2 :: "word32 list" where
  "constants2 = map snd cube_roots2"

definition constants3 :: "word32 list" where
  "constants3 = map snd cube_roots3"

definition round_constants :: "word32 list" where
  "round_constants = constants0 @ constants1 @ constants2 @ constants3"

subsection \<open>The digest\<close>

text \<open>The eight words of the state of the digest.\<close>

datatype sha_state = Sha word32 word32 word32 word32 word32 word32 word32 word32

definition initial_state :: sha_state where
  "initial_state = Sha 0x6a09e667 0xbb67ae85 0x3c6ef372 0xa54ff53a 0x510e527f 0x9b05688c 0x1f83d9ab 0x5be0cd19"

fun add_states :: "sha_state \<Rightarrow> sha_state \<Rightarrow> sha_state" where
  "add_states (Sha a b c d e f g h) (Sha a' b' c' d' e' f' g' h') =
     Sha (a + a') (b + b') (c + c') (d + d') (e + e') (f + f') (g + g') (h + h')"

text \<open>A round, with its two temporary words.\<close>

definition sha_temp1 :: "word32 \<Rightarrow> word32 \<Rightarrow> word32 \<Rightarrow> word32 \<Rightarrow> word32 \<Rightarrow> word32 \<Rightarrow> word32" where
  "sha_temp1 k w e f g h = h + big_sigma1 e + sha_ch e f g + k + w"

definition sha_temp2 :: "word32 \<Rightarrow> word32 \<Rightarrow> word32 \<Rightarrow> word32" where
  "sha_temp2 a b c = big_sigma0 a + sha_maj a b c"

fun sha_shift :: "word32 \<Rightarrow> word32 \<Rightarrow> sha_state \<Rightarrow> sha_state" where
  "sha_shift t1 t2 (Sha a b c d e f g h) = Sha (t1 + t2) a b c (d + t1) e f g"

fun sha_round :: "word32 \<Rightarrow> word32 \<Rightarrow> sha_state \<Rightarrow> sha_state" where
  "sha_round k w (Sha a b c d e f g h) =
     sha_shift (sha_temp1 k w e f g h) (sha_temp2 a b c) (Sha a b c d e f g h)"

definition sha_next :: "word32 \<Rightarrow> word32 \<Rightarrow> word32 \<Rightarrow> word32 \<Rightarrow> word32" where
  "sha_next w0 w1 w9 w14 = small_sigma1 w14 + w9 + small_sigma0 w1 + w0"

text \<open>
  The rounds of a block with the last sixteen words of the message schedule, oldest first; each round
  takes the oldest and appends the next one.
\<close>

fun sha_rounds :: "word32 list \<Rightarrow> word32 list \<Rightarrow> sha_state \<Rightarrow> sha_state" where
  "sha_rounds [] ws s = s"
| "sha_rounds (k # ks) ws s =
     (case ws of
        [w0, w1, w2, w3, w4, w5, w6, w7, w8, w9, w10, w11, w12, w13, w14, w15] \<Rightarrow>
          sha_rounds ks [w1, w2, w3, w4, w5, w6, w7, w8, w9, w10, w11, w12, w13, w14, w15,
                         sha_next w0 w1 w9 w14]
            (sha_round k w0 s)
      | _ \<Rightarrow> s)"

fun block_words :: "byte list \<Rightarrow> word32 list" where
  "block_words (a # b # c # d # bs) =
     (push_bit 24 (ucast a) OR push_bit 16 (ucast b) OR push_bit 8 (ucast c) OR ucast d) # block_words bs"
| "block_words _ = []"

definition sha_block :: "byte list \<Rightarrow> sha_state \<Rightarrow> sha_state" where
  "sha_block bs s = add_states s (sha_rounds round_constants (block_words bs) s)"

subsection \<open>Padding\<close>

text \<open>The length of the message in bits, as eight bytes, the highest first; it wraps at 64 bits.\<close>

definition length_bytes :: "64 word \<Rightarrow> byte list" where
  "length_bytes n = map (\<lambda>i. ucast (drop_bit i n)) [56, 48, 40, 32, 24, 16, 8, 0]"

definition padding :: "nat \<Rightarrow> byte list" where
  "padding n = 0x80 # replicate ((119 - n mod 64) mod 64) 0"

definition sha_pad :: "byte list \<Rightarrow> byte list" where
  "sha_pad bs = bs @ padding (length bs) @ length_bytes (push_bit 3 (of_nat (length bs)))"

function sha_blocks :: "byte list \<Rightarrow> sha_state \<Rightarrow> sha_state" where
  "sha_blocks bs s = (if length bs < 64 then s else sha_blocks (drop 64 bs) (sha_block (take 64 bs) s))"
  by pat_completeness auto
termination by (relation "measure (\<lambda>(bs, s). length bs)") auto

declare sha_blocks.simps [simp del] sha_rounds.simps(2) [simp del] sha_shift.simps [simp del] add_states.simps [simp del]

fun state_words :: "sha_state \<Rightarrow> word32 list" where
  "state_words (Sha a b c d e f g h) = [a, b, c, d, e, f, g, h]"

subsection \<open>Hexadecimal digits\<close>

definition hex_digit :: "byte \<Rightarrow> char" where
  "hex_digit b = ''0123456789abcdef'' ! unat (b AND 15)"

definition EncodeToString :: "byte list \<Rightarrow> string" where
  "EncodeToString bytes = concat (map (\<lambda>b. [hex_digit (drop_bit 4 b), hex_digit b]) bytes)"

definition word_bytes :: "word32 \<Rightarrow> byte list" where
  "word_bytes w = map (\<lambda>i. ucast (drop_bit i w)) [24, 16, 8, 0]"

definition sha256_Sum :: "byte list \<Rightarrow> byte list" where
  "sha256_Sum bs = concat (map word_bytes (state_words (sha_blocks (sha_pad bs) initial_state)))"

definition HashString :: "string \<Rightarrow> string" where
  "HashString s = EncodeToString (sha256_Sum (map of_char s))"

subsection \<open>Evaluation\<close>

text \<open>
  Equations that evaluate the digest with \<open>simp\<close>: they compute on integers and reduce each word to its
  32 bits, where the arithmetic of numerals alone would let the words grow.
\<close>

definition reduce :: "int \<Rightarrow> word32" where
  "reduce i = word_of_int (take_bit 32 i)"

lemma reduce_of_int: "reduce i = word_of_int i"
  unfolding reduce_def by (rule bit_word_eqI) (simp add: bit_simps)

lemma reduce_unsigned [simp]: "reduce (uint x) = x"
  by (simp add: reduce_of_int)

lemma reduce_bitwise:
  "reduce i AND reduce j = reduce (i AND j)" "reduce i OR reduce j = reduce (i OR j)"
  "reduce i XOR reduce j = reduce (i XOR j)" "NOT (reduce i) = reduce (NOT i)"
  "push_bit n (reduce i) = reduce (push_bit n i)"
  unfolding reduce_of_int by (auto simp: bit_eq_iff bit_simps)

lemma reduce_add: "reduce i + reduce j = reduce (i + j)"
  by (simp add: reduce_of_int)

lemma reduce_drop_bit: "drop_bit n x = reduce (drop_bit n (uint x))"
  unfolding reduce_of_int by (rule bit_word_eqI) (simp add: bit_simps)

lemma rotr_eval: "rotr n x = reduce (drop_bit n (uint x) OR push_bit (32 - n) (uint x))"
  unfolding rotr_def reduce_drop_bit [of n x] reduce_bitwise(2,5) [symmetric] reduce_unsigned ..

lemma sha_ch_eval: "sha_ch x y z = reduce ((uint x AND uint y) XOR (NOT (uint x) AND uint z))"
  unfolding sha_ch_def reduce_bitwise(1,3,4) [symmetric] reduce_unsigned ..

lemma sha_temp1_eval:
  "sha_temp1 k w e f g h = reduce (uint h + uint (big_sigma1 e) + uint (sha_ch e f g) + uint k + uint w)"
  unfolding sha_temp1_def reduce_add [symmetric] reduce_unsigned ..

lemma sha_temp2_eval: "sha_temp2 a b c = reduce (uint (big_sigma0 a) + uint (sha_maj a b c))"
  unfolding sha_temp2_def reduce_add [symmetric] reduce_unsigned ..

lemma sha_next_eval:
  "sha_next w0 w1 w9 w14 = reduce (uint (small_sigma1 w14) + uint w9 + uint (small_sigma0 w1) + uint w0)"
  unfolding sha_next_def reduce_add [symmetric] reduce_unsigned ..

lemma sha_shift_eval:
  "sha_shift t1 t2 (Sha a b c d e f g h) =
     Sha (reduce (uint t1 + uint t2)) a b c (reduce (uint d + uint t1)) e f g"
  unfolding reduce_add [symmetric] reduce_unsigned by (simp add: sha_shift.simps add_states.simps)

lemma add_states_eval:
  "add_states (Sha a b c d e f g h) (Sha a' b' c' d' e' f' g' h') =
     Sha (reduce (uint a + uint a')) (reduce (uint b + uint b')) (reduce (uint c + uint c'))
       (reduce (uint d + uint d')) (reduce (uint e + uint e')) (reduce (uint f + uint f'))
       (reduce (uint g + uint g')) (reduce (uint h + uint h'))"
  unfolding reduce_add [symmetric] reduce_unsigned by (simp add: sha_shift.simps add_states.simps)

lemmas sha_eval = rotr_eval sha_ch_eval sha_temp1_eval sha_temp2_eval sha_next_eval sha_shift_eval
  add_states_eval reduce_def big_sigma0_def big_sigma1_def small_sigma0_def small_sigma1_def sha_maj_def

text \<open>One round on evaluated words.\<close>

lemma sha_rounds_step:
  assumes "sha_round k w0 s = s'" "sha_next w0 w1 w9 w14 = w16"
    "sha_rounds ks [w1, w2, w3, w4, w5, w6, w7, w8, w9, w10, w11, w12, w13, w14, w15, w16] s' = t"
  shows "sha_rounds (k # ks) [w0, w1, w2, w3, w4, w5, w6, w7, w8, w9, w10, w11, w12, w13, w14, w15] s = t"
  using assms by (simp add: sha_rounds.simps(2))

text \<open>The constants are what the standard says they are.\<close>

definition cube_root_bits :: "int \<Rightarrow> int \<Rightarrow> bool" where
  "cube_root_bits p k \<longleftrightarrow>
     list_ex (\<lambda>n. (n * 2 ^ 32 + k) ^ 3 \<le> p * 2 ^ 96 \<and> p * 2 ^ 96 < (n * 2 ^ 32 + k + 1) ^ 3) [1, 2, 3, 4, 5, 6]"

lemma cube_roots_exact:
  "list_all (\<lambda>(p, k). cube_root_bits (int p) (uint k)) (cube_roots0 @ cube_roots1 @ cube_roots2 @ cube_roots3)"
  by (simp add: cube_roots0_def cube_roots1_def cube_roots2_def cube_roots3_def cube_root_bits_def)

text \<open>The only block of the message \<open>abc\<close>.\<close>

lemma abc_rounds:
  "sha_rounds round_constants [0x61626380, 0, 0, 0, 0, 0, 0, 0, 0, 0, 0, 0, 0, 0, 0, 24] initial_state =
     Sha 0x506e3058 0xd39a2165 0x04d24d6c 0xb85e2ce9 0x5ef50f24 0xfb121210 0x948d25b6 0x961f4894"
  unfolding round_constants_def initial_state_def
  apply (unfold constants0_def cube_roots0_def list.map snd_conv append_Cons append_Nil)
  apply ((rule sha_rounds_step, (simp add: sha_eval; fail), (simp add: sha_eval; fail))+)[1]
  apply (unfold constants1_def cube_roots1_def list.map snd_conv append_Cons append_Nil)
  apply ((rule sha_rounds_step, (simp add: sha_eval; fail), (simp add: sha_eval; fail))+)[1]
  apply (unfold constants2_def cube_roots2_def list.map snd_conv append_Cons append_Nil)
  apply ((rule sha_rounds_step, (simp add: sha_eval; fail), (simp add: sha_eval; fail))+)[1]
  apply (unfold constants3_def cube_roots3_def list.map snd_conv append_Cons append_Nil)
  apply ((rule sha_rounds_step, (simp add: sha_eval; fail), (simp add: sha_eval; fail))+)[1]
  apply simp
  done

lemma abc_block:
  "block_words (sha_pad (map of_char ''abc'')) = [0x61626380, 0, 0, 0, 0, 0, 0, 0, 0, 0, 0, 0, 0, 0, 0, 24]"
  by code_simp

lemma abc_length: "length (sha_pad (map of_char ''abc'')) = 64"
  by code_simp

lemma sha_blocks_one: "length bs = 64 \<Longrightarrow> sha_blocks bs s = sha_block bs s"
  by (simp add: sha_blocks.simps [of bs] sha_blocks.simps [of "[]"])

lemma HashString_abc:
  "HashString ''abc'' = ''ba7816bf8f01cfea414140de5dae2223b00361a396177a9cb410ff61f20015ad''"
proof -
  have "sha_blocks (sha_pad (map of_char ''abc'')) initial_state =
      add_states initial_state (Sha 0x506e3058 0xd39a2165 0x04d24d6c 0xb85e2ce9 0x5ef50f24 0xfb121210 0x948d25b6 0x961f4894)"
    unfolding sha_blocks_one [OF abc_length] sha_block_def abc_block abc_rounds ..
  also have "\<dots> = Sha 0xba7816bf 0x8f01cfea 0x414140de 0x5dae2223 0xb00361a3 0x96177a9c 0xb410ff61 0xf20015ad"
    unfolding initial_state_def by (simp add: add_states_eval reduce_def)
  finally show ?thesis
    by (simp add: HashString_def sha256_Sum_def word_bytes_def EncodeToString_def hex_digit_def)
qed

subsection \<open>Every digest is 64 hexadecimal digits\<close>

definition hex_digits :: string where
  "hex_digits = ''0123456789abcdef''"

lemma nibble_index: "unat (b AND 15 :: byte) < length hex_digits"
proof -
  have "b AND 15 \<le> 15" by (rule word_and_le1)
  then have "unat (b AND 15) \<le> 15" by (simp add: word_le_nat_alt)
  moreover have "length hex_digits = 16" by (simp add: hex_digits_def)
  ultimately show ?thesis by linarith
qed

lemma hex_digit_in: "hex_digit b \<in> set hex_digits"
  unfolding hex_digit_def hex_digits_def [symmetric] by (rule nth_mem [OF nibble_index])

lemma hex_digit_inject: "hex_digit b = hex_digit c \<longleftrightarrow> b AND 15 = c AND 15"
proof -
  have "distinct hex_digits" by (simp add: hex_digits_def)
  from nth_eq_iff_index_eq [OF this nibble_index nibble_index] show ?thesis
    unfolding hex_digit_def hex_digits_def [symmetric] by (simp only: word_unat_eq_iff)
qed

lemma EncodeToString_length [simp]: "length (EncodeToString bs) = 2 * length bs"
  by (induction bs) (simp_all add: EncodeToString_def)

lemma sha256_Sum_length [simp]: "length (sha256_Sum bs) = 32"
  by (cases "sha_blocks (sha_pad bs) initial_state") (simp add: sha256_Sum_def word_bytes_def)

lemma nibbles_inject:
  fixes b c :: byte
  assumes "b AND 15 = c AND 15" "drop_bit 4 b AND 15 = drop_bit 4 c AND 15"
  shows "b = c"
proof (rule bit_word_eqI)
  fix n assume n: "n < LENGTH(8)"
  have m: "(15 :: byte) = mask 4" by (simp add: mask_eq_exp_minus_1)
  show "bit b n \<longleftrightarrow> bit c n"
  proof (cases "n < 4")
    case True
    then show ?thesis using arg_cong [OF assms(1), of "\<lambda>x. bit x n"] unfolding m by (simp add: bit_simps)
  next
    case False
    then have "n - 4 < 4" "n - 4 < 8" using n by simp_all
    then show ?thesis using arg_cong [OF assms(2), of "\<lambda>x. bit x (n - 4)"] False unfolding m by (simp add: bit_simps)
  qed
qed

lemma EncodeToString_inject: "EncodeToString bs = EncodeToString cs \<longleftrightarrow> bs = cs"
proof (induction bs arbitrary: cs)
  case Nil
  then show ?case by (cases cs) (simp_all add: EncodeToString_def)
next
  case (Cons b bs)
  then show ?case
    by (cases cs) (auto simp: EncodeToString_def hex_digit_inject intro: nibbles_inject)
qed

subsection \<open>The padding is unique and fills the blocks\<close>

lemma padding_fills: "64 dvd n + 1 + (119 - n mod 64) mod 64 + (8 :: nat)"
proof -
  define q r where "q = n div 64" and "r = n mod 64"
  have n: "n = 64 * q + r" and "r < 64" by (simp_all add: q_def r_def)
  show ?thesis
  proof (cases "r \<le> 55")
    case True
    then have "(119 - r) mod 64 = 55 - r" by (simp add: mod_if)
    then have "n + 1 + (119 - r) mod 64 + 8 = 64 * (q + 1)" using True by (simp add: n)
    then show ?thesis unfolding r_def [symmetric] by (metis dvd_triv_left)
  next
    case False
    then have "(119 - r) mod 64 = 119 - r" using \<open>r < 64\<close> by simp
    then have "n + 1 + (119 - r) mod 64 + 8 = 64 * (q + 2)" using \<open>r < 64\<close> by (simp add: n)
    then show ?thesis unfolding r_def [symmetric] by (metis dvd_triv_left)
  qed
qed

lemma sha_pad_length: "64 dvd length (sha_pad bs)"
proof -
  have "length (sha_pad bs) = length bs + 1 + (119 - length bs mod 64) mod 64 + 8"
    by (simp add: sha_pad_def padding_def length_bytes_def)
  then show ?thesis using padding_fills [of "length bs"] by simp
qed

text \<open>The last eight bytes give the length back, below \<open>2 ^ 61\<close> bytes, and so the message.\<close>

lemma length_bytes_inject: "length_bytes m = length_bytes n \<longleftrightarrow> m = n"
proof
  assume eq: "length_bytes m = length_bytes n"
  have byte: "ucast (drop_bit i m) = (ucast (drop_bit i n) :: byte)" if "i \<in> {0, 8, 16, 24, 32, 40, 48, 56}" for i
    using eq that unfolding length_bytes_def by auto
  show "m = n"
  proof (rule bit_word_eqI)
    fix j assume j: "j < LENGTH(64)"
    have "8 * (j div 8) \<in> {0, 8, 16, 24, 32, 40, 48, 56}"
    proof -
      have "j div 8 < 8" using j by auto
      then have "j div 8 \<in> {0, 1, 2, 3, 4, 5, 6, 7}" by auto
      then show ?thesis by auto
    qed
    from arg_cong [OF byte [OF this], of "\<lambda>x. bit x (j mod 8)"] show "bit m j \<longleftrightarrow> bit n j"
      using j by (simp add: bit_simps)
  qed
qed auto

lemma sha_pad_inject:
  assumes "length bs < 2 ^ 61" "length cs < 2 ^ 61" "sha_pad bs = sha_pad cs"
  shows "bs = cs"
proof -
  have len: "push_bit 3 (of_nat (length bs)) = (push_bit 3 (of_nat (length cs)) :: 64 word)"
  proof -
    have "(bs @ padding (length bs)) @ length_bytes (push_bit 3 (of_nat (length bs))) =
        (cs @ padding (length cs)) @ length_bytes (push_bit 3 (of_nat (length cs)))"
      using assms(3) by (simp add: sha_pad_def)
    then have "length_bytes (push_bit 3 (of_nat (length bs))) = length_bytes (push_bit 3 (of_nat (length cs)))"
      by (rule append_eq_append_conv [THEN iffD1, THEN conjunct2, rotated]) (simp add: length_bytes_def)
    then show ?thesis unfolding length_bytes_inject .
  qed
  have unat_len: "unat (push_bit 3 (of_nat n) :: 64 word) = 8 * n" if "n < 2 ^ 61" for n
    using that by (simp add: push_bit_eq_mult unat_word_ariths unat_of_nat)
  have "length bs = length cs"
    using arg_cong [OF len, of unat] unfolding unat_len [OF assms(1)] unat_len [OF assms(2)] by simp
  then show ?thesis using assms(3) by (simp add: sha_pad_def)
qed

subsection \<open>Property\<close>

lemma EncodeToString_digits: "set (EncodeToString bs) \<subseteq> set hex_digits"
  using hex_digit_in by (auto simp: EncodeToString_def)

text \<open>
  C34. \<^verbatim>\<open>HashString\<close> gives for every string 64 lower-case hexadecimal digits, which are equal for two
  strings exactly if their SHA-256 digests are, and for the message \<open>abc\<close> the digest published with
  the standard.
\<close>

theorem hash_string_digest:
  "length (HashString s) = 64 \<and> set (HashString s) \<subseteq> set hex_digits
   \<and> (HashString s = HashString t \<longleftrightarrow> sha256_Sum (map of_char s) = sha256_Sum (map of_char t))
   \<and> HashString ''abc'' = ''ba7816bf8f01cfea414140de5dae2223b00361a396177a9cb410ff61f20015ad''"
proof (intro conjI)
  show "length (HashString s) = 64" by (simp add: HashString_def)
  show "set (HashString s) \<subseteq> set hex_digits" unfolding HashString_def by (rule EncodeToString_digits)
  show "HashString s = HashString t \<longleftrightarrow> sha256_Sum (map of_char s) = sha256_Sum (map of_char t)"
    unfolding HashString_def by (rule EncodeToString_inject)
qed (rule HashString_abc)

end
