(* ===== verification/Demo.thy ===== *)
theory Demo
  imports ExecutorProperties TickerInterface
begin

text \<open>
  The demonstration program \<^verbatim>\<open>examples/phase1-3-demo.go\<close>, with the opening and closing of the BadgerDB
  storage (\<^verbatim>\<open>storage/badger/badger.go\<close>) that only it calls. The program generates identifiers, opens a
  database in a fresh directory, creates and reads records, and asks the three tickers for their
  occurrences. It ends at its last line, or in a \<^verbatim>\<open>log.Fatalf\<close>, which exits at once and so skips the
  deferred \<^verbatim>\<open>Close\<close>.

  The opening and closing of a database are operations of the external package and parameters, like
  the transactions: \<open>badger_Open\<close> and \<open>db_Close\<close> act on the files \<open>'d\<close> of the machine. The clock of the
  environment gives the successive readings of \<^verbatim>\<open>time.Now\<close>; \<open>Local\<close> is the location these times have.
\<close>

subsection \<open>Opening and closing the storage\<close>

record ('o, 'd, 'db) badger_pkg =
  DefaultOptions :: "string \<Rightarrow> 'o"
  Logger_nil :: "'o \<Rightarrow> 'o"
  badger_Open :: "'o \<Rightarrow> 'd \<Rightarrow> 'db result \<times> 'd"
  db_Close :: "'db \<Rightarrow> 'd \<Rightarrow> error option \<times> 'd"

definition NewBadgerStorage :: "('o, 'd, 'db) badger_pkg \<Rightarrow> string \<Rightarrow> 'd \<Rightarrow> 'db result \<times> 'd" where
  "NewBadgerStorage P path d =
     (let opts = DefaultOptions P path;
          opts = Logger_nil P opts
      in (case badger_Open P opts d of
            (Inl err, d) \<Rightarrow> (Inl (ErrWrap ''failed to open badger db'' err), d)
          | (Inr db, d) \<Rightarrow> (Inr db, d)))"

definition BadgerStorage_Close :: "('o, 'd, 'db) badger_pkg \<Rightarrow> 'db \<Rightarrow> 'd \<Rightarrow> error option \<times> 'd" where
  "BadgerStorage_Close P s d = db_Close P s d"

subsection \<open>Output\<close>

text \<open>
  A line of output: text, a text followed by a time in RFC 3339 format in its own location, or a text
  followed by the message of an error. The check mark is three bytes long.
\<close>

datatype line = Text string | TextTime string gotime | TextError string error

datatype ending = Completed | Fatal string error

definition check_mark :: string where
  "check_mark = [CHR 0xE2, CHR 0x9C, CHR 0x93] @ '' ''"

subsection \<open>Phase 1: identifiers\<close>

definition demoJobID :: "Env \<Rightarrow> string" where
  "demoJobID E = GenerateJobID (NewSHA1 E) ''daily-backup''"

definition demoTaskID :: "Env \<Rightarrow> string" where
  "demoTaskID E = GenerateTaskID (NewSHA1 E) (demoJobID E) ''backup-database''"

text \<open>\<^verbatim>\<open>time.Date(2025, 11, 7, 12, 0, 0, 0, time.UTC)\<close>\<close>

definition demoScheduledTime :: instant where
  "demoScheduledTime = 1762516800 * Second"

definition demoOccurrenceID :: "Env \<Rightarrow> string" where
  "demoOccurrenceID E = GenerateJobOccurrenceID (NewSHA1 E) (demoJobID E) demoScheduledTime"

definition demo_ids :: "Env \<Rightarrow> line list" where
  "demo_ids E =
     [Text ''=== Jobistemer Phase 1-3 Demo ==='',
      Text '''',
      Text ''Phase 1: Deterministic ID Generation'',
      Text ''-------------------------------------'',
      Text (''Job ID for 'daily-backup': '' @ demoJobID E),
      Text (''Task ID for 'backup-database': '' @ demoTaskID E),
      Text (''Occurrence ID for '' @ FormatRFC3339 demoScheduledTime @ '': '' @ demoOccurrenceID E)]
     @ (let jobID2 = GenerateJobID (NewSHA1 E) ''daily-backup''
        in if demoJobID E = jobID2
           then [Text (check_mark @ ''ID generation is deterministic (same input = same output)'')] else [])
     @ [Text '''']"

subsection \<open>Phase 2: storage\<close>

text \<open>The arguments \<open>createdAt\<close> and \<open>updatedAt\<close> are the two clock readings of each literal.\<close>

definition demo_job :: "Env \<Rightarrow> instant \<Rightarrow> instant \<Rightarrow> StoredJob" where
  "demo_job E createdAt updatedAt =
     \<lparr>sj_ID = demoJobID E, sj_Name = ''daily-backup'', sj_ScheduleType = ''cron'', sj_ScheduleConfig = None,
      sj_Config = Some (TextBytes (''{'' @ [CHR 0x22] @ ''task_execution_mode'' @ [CHR 0x22] @ '':'' @ [CHR 0x22]
        @ ''Sequential'' @ [CHR 0x22] @ ''}'')),
      sj_Version = 1, sj_Active = True, sj_Paused = False, sj_LastRunTime = None,
      sj_CreatedAt = createdAt, sj_UpdatedAt = updatedAt\<rparr>"

definition demo_task :: "Env \<Rightarrow> instant \<Rightarrow> instant \<Rightarrow> StoredTask" where
  "demo_task E createdAt updatedAt =
     \<lparr>st_ID = demoTaskID E, st_JobID = demoJobID E, st_Name = ''backup-database'',
      st_Config = Some (TextBytes (''{'' @ [CHR 0x22] @ ''task_timeout'' @ [CHR 0x22] @ '':'' @ [CHR 0x22]
        @ ''5m'' @ [CHR 0x22] @ ''}'')),
      st_Order = 0, st_CreatedAt = createdAt, st_UpdatedAt = updatedAt\<rparr>"

definition demo_occurrence :: "Env \<Rightarrow> instant \<Rightarrow> instant \<Rightarrow> StoredOccurrence" where
  "demo_occurrence E createdAt updatedAt =
     \<lparr>so_ID = demoOccurrenceID E, so_JobID = demoJobID E, so_JobVersion = 1,
      so_ScheduledTime = demoScheduledTime, so_Status = JobStatusPending, so_OwningNodeID = '''',
      so_StartTime = None, so_EndTime = None, so_Config = Some (TextBytes ''{}''), so_IsRecoveryRun = False,
      so_CreatedAt = createdAt, so_UpdatedAt = updatedAt\<rparr>"

text \<open>
  The calls on the opened storage, from the clock reading \<open>n\<close> on: how the phase ends the program, if it
  does, what it prints, and the store it leaves.
\<close>

definition demo_occurrences :: "Env \<Rightarrow> 's Storage \<Rightarrow> nat \<Rightarrow> 's \<Rightarrow> ending option \<times> line list \<times> 's" where
  "demo_occurrences E store n s =
     (let occurrence = demo_occurrence E (Now E n) (Now E (n + 1))
      in (case CreateJobOccurrence store s occurrence of
            (Some err, s) \<Rightarrow> (Some (Fatal ''Failed to create occurrence'' err), [], s)
          | (None, s) \<Rightarrow>
              (let out = [Text (check_mark @ ''Created occurrence: '' @ so_ID occurrence)]
               in (case CreateJobOccurrence store s occurrence of
                     (Some err, s) \<Rightarrow>
                       (None, out @ [TextError (check_mark
                          @ ''Atomic create-if-not-exists works (duplicate rejected): '') err, Text ''''], s)
                   | (None, s) \<Rightarrow> (None, out @ [Text ''''], s)))))"

definition demo_tasks :: "Env \<Rightarrow> 's Storage \<Rightarrow> nat \<Rightarrow> 's \<Rightarrow> ending option \<times> line list \<times> 's" where
  "demo_tasks E store n s =
     (let task = demo_task E (Now E n) (Now E (n + 1))
      in (case CreateTask store s task of
            (Some err, s) \<Rightarrow> (Some (Fatal ''Failed to create task'' err), [], s)
          | (None, s) \<Rightarrow>
              (case demo_occurrences E store (n + 2) s of
                 (r, out, s) \<Rightarrow> (r, Text (check_mark @ ''Created task: '' @ st_Name task) # out, s))))"

definition demo_storage :: "Env \<Rightarrow> 's Storage \<Rightarrow> nat \<Rightarrow> 's \<Rightarrow> ending option \<times> line list \<times> 's" where
  "demo_storage E store n s =
     (let job = demo_job E (Now E n) (Now E (n + 1))
      in (case CreateJob store s job of
            (Some err, s) \<Rightarrow> (Some (Fatal ''Failed to create job'' err), [], s)
          | (None, s) \<Rightarrow>
              (let created = Text (check_mark @ ''Created job: '' @ sj_Name job)
               in (case GetJob store s (demoJobID E) of
                     Inl err \<Rightarrow> (Some (Fatal ''Failed to retrieve job'' err), [created], s)
                   | Inr retrievedJob \<Rightarrow>
                       (case demo_tasks E store (n + 2) s of
                          (r, out, s) \<Rightarrow>
                            (r, [created, Text (check_mark @ ''Retrieved job: '' @ sj_Name retrievedJob
                                   @ '' (Version: '' @ decimal (sj_Version retrievedJob) @ '')'')] @ out, s))))))"

subsection \<open>Phase 3: tickers\<close>

definition next_run_line :: "string \<Rightarrow> gotime option result \<Rightarrow> line list" where
  "next_run_line label nextRun = (case nextRun of Inr (Some t) \<Rightarrow> [TextTime label t] | _ \<Rightarrow> [])"

definition count_line :: "string \<Rightarrow> gotime list \<Rightarrow> string \<Rightarrow> line" where
  "count_line label occurrences rest = Text (label @ decimal (int (length occurrences)) @ rest)"

definition demoConfig :: TickerConfig where
  "demoConfig = \<lparr>tk_StartTime = None, tk_EndTime = None, tk_Timezone = ''UTC''\<rparr>"

definition now_at :: "Env \<Rightarrow> location \<Rightarrow> nat \<Rightarrow> gotime" where
  "now_at E Local n = \<lparr>instant = Now E n, loc = Local\<rparr>"

text \<open>
  Each section returns how the program ends and its lines. In \<^verbatim>\<open>NextRun\<close> the cron ticker and the
  interval ticker read the clock themselves; the interval ticker does not use what it reads.
\<close>

definition demo_once ::
  "Env \<Rightarrow> location \<Rightarrow> (string \<Rightarrow> location result) \<Rightarrow> nat \<Rightarrow> ending \<times> line list"
where
  "demo_once E Local LoadLocation n =
     (let out = [Text '''', Text ''3. Once Ticker (runs at a specific time)''];
          onceTime = Add (now_at E Local n) (5 * word_of_int Second)
      in (case NewOnceTicker LoadLocation (Now E n) onceTime demoConfig of
            Inl err \<Rightarrow> (Fatal ''Failed to create once ticker'' err, out)
          | Inr onceTicker \<Rightarrow>
              (let out = out @ next_run_line ''   Scheduled time: '' (Once_NextRun onceTicker)
               in (case Once_GetOccurrencesBetween onceTicker (now_at E Local (n + 1))
                          (Add (now_at E Local (n + 2)) (1 * word_of_int Hour)) of
                     Inl err \<Rightarrow> (Fatal ''Failed to get occurrences'' err, out)
                   | Inr occurrences \<Rightarrow>
                       (Completed, out @
                         [count_line ''   Occurrences: '' occurrences '''',
                          Text '''', Text ''=== Demo Complete ==='',
                          Text '''', Text ''All three phases implemented successfully:'',
                          Text (check_mark @ ''Phase 1: Core types and deterministic ID generation''),
                          Text (check_mark @ ''Phase 2: Storage interface and BadgerDB implementation''),
                          Text (check_mark @ ''Phase 3: Ticker interface with Cron, ISO8601, and Once implementations'')])))))"

definition demo_iso ::
  "Env \<Rightarrow> location \<Rightarrow> (string \<Rightarrow> location result) \<Rightarrow> gotime \<Rightarrow> gotime \<Rightarrow> nat \<Rightarrow> ending \<times> line list"
where
  "demo_iso E Local LoadLocation start end' n =
     (let out = [Text '''', Text ''2. ISO8601 Ticker (every 30 minutes, 5 repetitions)'']
      in (case NewISO8601Ticker LoadLocation (Now E n) (30 * word_of_int Minute) (now_at E Local n) 5 demoConfig of
            Inl err \<Rightarrow> (Fatal ''Failed to create ISO8601 ticker'' err, out)
          | Inr iso8601Ticker \<Rightarrow>
              (let out = out @ next_run_line ''   Next run: '' (ISO_NextRun iso8601Ticker)
               in (case ISO_GetOccurrencesBetween iso8601Ticker start (Add end' (3 * word_of_int Hour)) of
                     Inl err \<Rightarrow> (Fatal ''Failed to get occurrences'' err, out)
                   | Inr occurrences \<Rightarrow>
                       (case demo_once E Local LoadLocation (n + 2) of
                          (r, rest) \<Rightarrow>
                            (r, out @ [count_line ''   Total occurrences: '' occurrences '' (limited by repetitions)'']
                                @ rest))))))"

definition demo_tickers ::
  "Env \<Rightarrow> location \<Rightarrow> (string \<Rightarrow> location result) \<Rightarrow> (string \<Rightarrow> (gotime \<Rightarrow> gotime) result) \<Rightarrow> nat
   \<Rightarrow> ending \<times> line list"
where
  "demo_tickers E Local LoadLocation Parse n =
     (let out = [Text ''Phase 3: Ticker Implementations'', Text ''--------------------------------'',
                 Text '''', Text ''1. Cron Ticker (every minute)'']
      in (case NewCronTicker LoadLocation Parse (Now E n) ''*/1 * * * *'' demoConfig of
            Inl err \<Rightarrow> (Fatal ''Failed to create cron ticker'' err, out)
          | Inr cronTicker \<Rightarrow>
              (let out = out @ next_run_line ''   Next run: '' (Cron_NextRun (cronTicker\<lparr>clock := Now E n\<rparr>));
                   start = now_at E Local (n + 1);
                   end' = Add start (1 * word_of_int Hour)
               in (case Cron_GetOccurrencesBetween cronTicker start end' of
                     Inl err \<Rightarrow> (Fatal ''Failed to get occurrences'' err, out)
                   | Inr occurrences \<Rightarrow>
                       (case demo_iso E Local LoadLocation start end' (n + 2) of
                          (r, rest) \<Rightarrow>
                            (r, out @ [count_line ''   Occurrences in next hour: '' occurrences ''''] @ rest))))))"

subsection \<open>The program\<close>

definition demoPath :: "instant \<Rightarrow> string" where
  "demoPath now = ''/tmp/jobistemer-demo-'' @ decimal (sint (word_of_int now :: 64 word))"

text \<open>
  How the program ends, what it printed, the store when it ended, if it was opened, and the files it
  leaves. The deferred \<^verbatim>\<open>Close\<close> runs only if the program reaches its end.
\<close>

definition demo_main ::
  "Env \<Rightarrow> location \<Rightarrow> (string \<Rightarrow> location result) \<Rightarrow> (string \<Rightarrow> (gotime \<Rightarrow> gotime) result)
   \<Rightarrow> ('o, 'd, 'db) badger_pkg \<Rightarrow> 'db badger \<Rightarrow> 'd \<Rightarrow> ending \<times> line list \<times> 'db option \<times> 'd"
where
  "demo_main E Local LoadLocation Parse P B d =
     (let out = demo_ids E @ [Text ''Phase 2: Storage Layer (BadgerDB)'', Text ''----------------------------------'']
      in (case NewBadgerStorage P (demoPath (Now E 0)) d of
            (Inl err, d) \<Rightarrow> (Fatal ''Failed to create storage'' err, out, None, d)
          | (Inr s, d) \<Rightarrow>
              (case demo_storage E (BadgerStorage B) 1 s of
                 (Some r, out2, s) \<Rightarrow> (r, out @ out2, Some s, d)
               | (None, out2, s) \<Rightarrow>
                   (case demo_tickers E Local LoadLocation Parse 7 of
                      (Completed, out3) \<Rightarrow>
                        (Completed, out @ out2 @ out3, Some s, snd (BadgerStorage_Close P s d))
                    | (Fatal what err, out3) \<Rightarrow> (Fatal what err, out @ out2 @ out3, Some s, d)))))"

subsection \<open>The storage calls of the program\<close>

lemma demo_ids_ok:
  assumes "uuid_text (NewSHA1 E)"
  shows "job_id_ok (demoJobID E)" "task_id_ok (demoTaskID E)" "occ_id_ok (demoOccurrenceID E)"
  using generated_ids_ok [OF assms] by (simp_all add: demoJobID_def demoTaskID_def demoOccurrenceID_def)

text \<open>The store with exactly the three records of the program.\<close>

definition demo_stored :: "Env \<Rightarrow> nat \<Rightarrow> AStore" where
  "demo_stored E n =
     \<lparr>a_jobs = [demoJobID E \<mapsto> demo_job E (Now E n) (Now E (n + 1))],
      a_tasks = [(demoJobID E, demoTaskID E) \<mapsto> demo_task E (Now E (n + 2)) (Now E (n + 3))],
      a_occs = [(demoJobID E, demoOccurrenceID E) \<mapsto> demo_occurrence E (Now E (n + 4)) (Now E (n + 5))],
      a_runs = Map.empty, a_attempts = Map.empty\<rparr>"

definition empty_astore :: AStore where
  "empty_astore = \<lparr>a_jobs = Map.empty, a_tasks = Map.empty, a_occs = Map.empty, a_runs = Map.empty, a_attempts = Map.empty\<rparr>"

definition duplicate_line :: "Env \<Rightarrow> line" where
  "duplicate_line E =
     TextError (check_mark @ ''Atomic create-if-not-exists works (duplicate rejected): '')
       (ErrOccurrenceExists (demoOccurrenceID E))"

context reliable_storage
begin

lemma demo_occurrences_run:
  assumes "uuid_text (NewSHA1 E)" "clock_ok E" "invar s"
    "a_occs (abs s) (demoJobID E, demoOccurrenceID E) = None"
  shows "\<exists>out s'. demo_occurrences E S n s = (None, out @ [duplicate_line E, Text ''''], s') \<and> invar s'
    \<and> abs s' = (abs s)\<lparr>a_occs := (a_occs (abs s))((demoJobID E, demoOccurrenceID E) \<mapsto>
         demo_occurrence E (Now E n) (Now E (n + 1)))\<rparr>"
proof -
  let ?o = "demo_occurrence E (Now E n) (Now E (n + 1))"
  have o: "job_id_ok (so_JobID ?o)" "occ_id_ok (so_ID ?o)" "occ_key ?o = (demoJobID E, demoOccurrenceID E)"
    using demo_ids_ok [OF assms(1)] by (simp_all add: demo_occurrence_def)
  have "year_ok demoScheduledTime" unfolding demoScheduledTime_def by code_simp
  then have t: "occ_times_ok ?o"
    using assms(2) by (simp add: occ_times_ok_def opt_year_ok_def demo_occurrence_def clock_ok_def)
  obtain r1 s1 where c1: "CreateJobOccurrence S s ?o = (r1, s1)" by fastforce
  have r1: "r1 = None" using CreateJobOccurrence_ok [OF assms(3) o(1,2) t] assms(4) c1 unfolding o(3) by simp
  note law1 = CreateJobOccurrence_law [OF assms(3) o(1,2) c1, unfolded o(3) r1]
  have inv1: "invar s1" and frame1: "abs s1 = (abs s)\<lparr>a_occs := a_occs (abs s1)\<rparr>"
    and occs1: "a_occs (abs s1) = (a_occs (abs s))((demoJobID E, demoOccurrenceID E) \<mapsto> ?o)"
    using law1 by (auto simp: create_spec_def)
  obtain r2 s2 where c2: "CreateJobOccurrence S s1 ?o = (r2, s2)" by fastforce
  have r2: "r2 = Some (ErrOccurrenceExists (demoOccurrenceID E))"
    using CreateJobOccurrence_ok [OF inv1 o(1,2) t] occs1 c2 unfolding o(3) by (simp add: demo_occurrence_def)
  note law2 = CreateJobOccurrence_law [OF inv1 o(1,2) c2, unfolded o(3) r2]
  have inv2: "invar s2" and frame2: "abs s2 = (abs s1)\<lparr>a_occs := a_occs (abs s2)\<rparr>"
    and occs2: "a_occs (abs s2) = a_occs (abs s1)"
    using law2 by (auto simp: create_spec_def)
  have "abs s2 = (abs s)\<lparr>a_occs := (a_occs (abs s))((demoJobID E, demoOccurrenceID E) \<mapsto> ?o)\<rparr>"
    by (subst frame2, subst occs2, subst frame1, subst occs1) simp
  then show ?thesis using c1 r1 c2 r2 inv2 by (simp add: demo_occurrences_def duplicate_line_def)
qed

lemma demo_tasks_run:
  assumes "uuid_text (NewSHA1 E)" "clock_ok E" "invar s"
    "a_tasks (abs s) = Map.empty" "a_occs (abs s) (demoJobID E, demoOccurrenceID E) = None"
  shows "\<exists>out s'. demo_tasks E S n s = (None, out @ [duplicate_line E, Text ''''], s') \<and> invar s'
    \<and> abs s' = (abs s)\<lparr>a_tasks := [(demoJobID E, demoTaskID E) \<mapsto> demo_task E (Now E n) (Now E (n + 1))],
         a_occs := (a_occs (abs s))((demoJobID E, demoOccurrenceID E) \<mapsto>
           demo_occurrence E (Now E (n + 2)) (Now E (n + 3)))\<rparr>"
proof -
  let ?t = "demo_task E (Now E n) (Now E (n + 1))"
  have k: "job_id_ok (st_JobID ?t)" "task_id_ok (st_ID ?t)" "task_key ?t = (demoJobID E, demoTaskID E)"
    using demo_ids_ok [OF assms(1)] by (simp_all add: demo_task_def)
  have t: "task_times_ok ?t" using assms(2) by (simp add: task_times_ok_def demo_task_def clock_ok_def)
  obtain r1 s1 where c1: "CreateTask S s ?t = (r1, s1)" by fastforce
  have r1: "r1 = None" using CreateTask_ok [OF assms(3) k(1,2) t] assms(4) c1 unfolding k(3) by simp
  note law1 = CreateTask_law [OF assms(3) k(1,2) c1, unfolded k(3) r1]
  have inv1: "invar s1" and frame1: "abs s1 = (abs s)\<lparr>a_tasks := [(demoJobID E, demoTaskID E) \<mapsto> ?t]\<rparr>"
  proof -
    show "invar s1" using law1 by blast
    have "a_tasks (abs s1) = [(demoJobID E, demoTaskID E) \<mapsto> ?t]"
      using law1 assms(4) by (simp add: create_spec_def)
    moreover have "abs s1 = (abs s)\<lparr>a_tasks := a_tasks (abs s1)\<rparr>" using law1 by blast
    ultimately show "abs s1 = (abs s)\<lparr>a_tasks := [(demoJobID E, demoTaskID E) \<mapsto> ?t]\<rparr>" by simp
  qed
  have free: "a_occs (abs s1) (demoJobID E, demoOccurrenceID E) = None" using assms(5) by (simp add: frame1)
  have e: "n + 2 + 1 = n + 3" by simp
  from demo_occurrences_run [OF assms(1,2) inv1 free, of "n + 2", unfolded e] obtain out s' where
    d: "demo_occurrences E S (n + 2) s1 = (None, out @ [duplicate_line E, Text ''''], s')" "invar s'"
      "abs s' = (abs s1)\<lparr>a_occs := (a_occs (abs s1))((demoJobID E, demoOccurrenceID E) \<mapsto>
         demo_occurrence E (Now E (n + 2)) (Now E (n + 3)))\<rparr>" by blast
  have "demo_tasks E S n s = (None, (Text (check_mark @ ''Created task: '' @ st_Name ?t) # out)
      @ [duplicate_line E, Text ''''], s')"
    using c1 r1 d(1) by (simp add: demo_tasks_def)
  moreover have "abs s' = (abs s)\<lparr>a_tasks := [(demoJobID E, demoTaskID E) \<mapsto> ?t],
      a_occs := (a_occs (abs s))((demoJobID E, demoOccurrenceID E) \<mapsto> demo_occurrence E (Now E (n + 2)) (Now E (n + 3)))\<rparr>"
    unfolding d(3) frame1 by simp
  ultimately show ?thesis using d(2) by blast
qed

lemma demo_storage_run:
  assumes "uuid_text (NewSHA1 E)" "clock_ok E" "invar s" "abs s = empty_astore"
  shows "\<exists>out s'. demo_storage E S n s = (None, out @ [duplicate_line E, Text ''''], s') \<and> invar s'
    \<and> abs s' = demo_stored E n"
proof -
  let ?j = "demo_job E (Now E n) (Now E (n + 1))"
  have k: "job_id_ok (sj_ID ?j)" "sj_ID ?j = demoJobID E"
    using demo_ids_ok [OF assms(1)] by (simp_all add: demo_job_def)
  have t: "job_times_ok ?j" using assms(2) by (simp add: job_times_ok_def opt_year_ok_def demo_job_def clock_ok_def)
  obtain r1 s1 where c1: "CreateJob S s ?j = (r1, s1)" by fastforce
  have r1: "r1 = None" using CreateJob_ok [OF assms(3) k(1) t] assms(4) c1 by (simp add: empty_astore_def)
  note law1 = CreateJob_law [OF assms(3) k(1) c1, unfolded k(2) r1]
  have inv1: "invar s1" and "abs s1 = (abs s)\<lparr>a_jobs := a_jobs (abs s1)\<rparr>" using law1 by blast+
  moreover have "a_jobs (abs s1) = [demoJobID E \<mapsto> ?j]" using law1 assms(4) by (simp add: create_spec_def empty_astore_def)
  ultimately have frame1: "abs s1 = empty_astore\<lparr>a_jobs := [demoJobID E \<mapsto> ?j]\<rparr>" using assms(4) by simp
  have g: "GetJob S s1 (demoJobID E) = Inr ?j"
    using GetJob_ok [OF inv1 k(1)] unfolding k(2) by (simp add: frame1)
  have free: "a_tasks (abs s1) = Map.empty" "a_occs (abs s1) (demoJobID E, demoOccurrenceID E) = None"
    by (simp_all add: frame1 empty_astore_def)
  have e: "n + 2 + 1 = n + 3" "n + 2 + 2 = n + 4" "n + 2 + 3 = n + 5" by simp_all
  from demo_tasks_run [OF assms(1,2) inv1 free, of "n + 2", unfolded e] obtain out s' where
    d: "demo_tasks E S (n + 2) s1 = (None, out @ [duplicate_line E, Text ''''], s')" "invar s'"
      "abs s' = (abs s1)\<lparr>a_tasks := [(demoJobID E, demoTaskID E) \<mapsto> demo_task E (Now E (n + 2)) (Now E (n + 3))],
         a_occs := (a_occs (abs s1))((demoJobID E, demoOccurrenceID E) \<mapsto>
           demo_occurrence E (Now E (n + 4)) (Now E (n + 5)))\<rparr>" by blast
  have "demo_storage E S n s = (None, ([Text (check_mark @ ''Created job: '' @ sj_Name ?j),
      Text (check_mark @ ''Retrieved job: '' @ sj_Name ?j @ '' (Version: '' @ decimal (sj_Version ?j) @ '')'')] @ out)
      @ [duplicate_line E, Text ''''], s')"
    unfolding demo_storage_def Let_def c1 r1 prod.case option.case g sum.case d(1) by simp
  moreover have "abs s' = demo_stored E n"
    unfolding d(3) frame1 by (simp add: demo_stored_def empty_astore_def)
  ultimately show ?thesis using d(2) by blast
qed

end

subsection \<open>The tickers of the program\<close>

text \<open>An hour holds sixty whole minutes, wherever it starts.\<close>

lemma minutes_in_hour: "card {x. Minute dvd x \<and> s < x \<and> x \<le> s + Hour} = 60"
proof -
  let ?f = "\<lambda>k. (s div Minute + k) * Minute"
  have "{x. Minute dvd x \<and> s < x \<and> x \<le> s + Hour} = ?f ` {1..60}"
  proof (intro equalityI subsetI)
    fix x assume "x \<in> {x. Minute dvd x \<and> s < x \<and> x \<le> s + Hour}"
    then have x: "Minute dvd x" "s < x" "x \<le> s + Hour" by auto
    then obtain q where q: "x = Minute * q" by (auto elim: dvdE)
    have "s div Minute < q" "q \<le> s div Minute + 60"
      using x(2,3) unfolding q by linarith+
    then show "x \<in> ?f ` {1..60}" using q by (intro image_eqI [of _ _ "q - s div Minute"]) auto
  next
    fix x assume "x \<in> ?f ` {1..60}"
    then obtain k where k: "k \<in> {1..60}" "x = ?f k" by blast
    then have "s < x" "x \<le> s + Hour" by (auto simp: distrib_right)
    then show "x \<in> {x. Minute dvd x \<and> s < x \<and> x \<le> s + Hour}" using k(2) by simp
  qed
  moreover have "inj_on ?f {1..60}" by (auto simp: inj_on_def)
  ultimately show ?thesis by (simp add: card_image)
qed

lemma durations_exact:
  "sint (1 * word_of_int Hour :: duration) = Hour" "sint (3 * word_of_int Hour :: duration) = 3 * Hour"
  "sint (30 * word_of_int Minute :: duration) = 30 * Minute" "sint (5 * word_of_int Second :: duration) = 5 * Second"
  by simp_all

lemma demoConfig_simps [simp]: "withinWindow demoConfig x" "timezone_of demoConfig = ''UTC''"
  by (simp_all add: demoConfig_def withinWindow_def timezone_of_def)

text \<open>The readings of the clock of the program: in order, and all within five seconds.\<close>

definition prompt :: "Env \<Rightarrow> bool" where
  "prompt E \<longleftrightarrow> (\<forall>i j. i \<le> j \<and> j < 14 \<longrightarrow> Now E i \<le> Now E j \<and> Now E j < Now E i + 5 * Second)"

lemma promptD: "prompt E \<Longrightarrow> i \<le> j \<Longrightarrow> j < 14 \<Longrightarrow> Now E i \<le> Now E j \<and> Now E j < Now E i + 5 * Second"
  by (simp add: prompt_def)

lemma demo_once_finishes:
  assumes "LoadLocation ''UTC'' = Inr UTC" "Now E (n + 1) < Now E n + 5 * Second" "Now E n \<le> Now E (n + 2)"
  shows "\<exists>out. demo_once E Local LoadLocation n = (Completed, out) \<and> Text ''   Occurrences: 1'' \<in> set out"
proof -
  have c: "decimal (int (length [x])) = ''1''" for x :: gotime by code_simp
  have g: "Once_GetOccurrencesBetween (TickerCore.extend (new_core now) (OnceTicker.fields (In (Add (now_at E Local n)
      (5 * word_of_int Second)) UTC) demoConfig False UTC)) (now_at E Local (n + 1)) (Add (now_at E Local (n + 2))
      (1 * word_of_int Hour)) = Inr [In (Add (now_at E Local n) (5 * word_of_int Second)) UTC]" for now
    using assms(2,3) durations_exact
    by (simp add: Once_GetOccurrencesBetween_def After_def Before_def Once_isWithinWindow_def now_at_def
        TickerCore.extend_def OnceTicker.fields_def new_core_def del: mult_1)
  show ?thesis using assms(1) g c by (simp add: demo_once_def NewOnceTicker_def Let_def count_line_def)
qed

lemma demo_iso_finishes:
  assumes "LoadLocation ''UTC'' = Inr UTC" "instant start \<le> Now E n" "Now E n < instant start + 5 * Second"
    "instant end' = instant start + Hour"
    and once: "\<exists>out. demo_once E Local LoadLocation (n + 2) = (Completed, out) \<and> Text ''   Occurrences: 1'' \<in> set out"
  shows "\<exists>out. demo_iso E Local LoadLocation start end' n = (Completed, out)
    \<and> {Text ''   Total occurrences: 5 (limited by repetitions)'', Text ''   Occurrences: 1''} \<subseteq> set out"
proof -
  define t where "t = TickerCore.extend (new_core (Now E n)) (ISO8601Ticker.fields (30 * word_of_int Minute)
      (In (now_at E Local n) UTC) 5 demoConfig UTC 0 None)"
  have new: "NewISO8601Ticker LoadLocation (Now E n) (30 * word_of_int Minute) (now_at E Local n) 5 demoConfig = Inr t"
    using assms(1) durations_exact(3) by (simp add: NewISO8601Ticker_def t_def)
  have t: "sint (i_interval t) = 30 * Minute" "instant (i_startTime t) = Now E n" "i_repetitions t = 5" "i_config t = demoConfig"
    using durations_exact(3)
    by (simp_all add: t_def TickerCore.extend_def ISO8601Ticker.fields_def new_core_def now_at_def)
  let ?e = "Add end' (3 * word_of_int Hour)"
  have e: "instant ?e = instant start + 4 * Hour" using assms(4) durations_exact(2) by simp
  have "{k :: nat. Now E n + int k * (30 * Minute) < instant start + 4 * Hour \<and> 0 + int k < 5} = {..< 5}"
    using assms(3) by auto
  then have N: "visits (Now E n) (instant ?e) (30 * Minute) 5 0 = 5" unfolding e by (simp add: visits_def)
  let ?occs = "map (iso_time (i_startTime t) (i_interval t)) [0 ..< 5]"
  have "instant start \<le> instant (iso_time (i_startTime t) (i_interval t) k)" for k
    using assms(2) t(1,2) by (simp add: iso_time_def)
  then have "filter (\<lambda>x. instant start \<le> instant x \<and> withinWindow (i_config t) x) ?occs = ?occs"
    using t(4) by (simp add: filter_id_conv)
  then have g: "ISO_GetOccurrencesBetween t start ?e = Inr ?occs"
    using iso_occurrences [of t start ?e] t N unfolding Let_def by simp
  have c: "decimal (int (length ?occs)) = ''5''" by (simp, code_simp)
  show ?thesis using once new g c by (auto simp: demo_iso_def Let_def count_line_def)
qed

definition ticker_lines :: "line set" where
  "ticker_lines = {Text ''   Occurrences in next hour: 60'', Text ''   Total occurrences: 5 (limited by repetitions)'',
     Text ''   Occurrences: 1''}"

lemma demo_tickers_finish:
  assumes "LoadLocation ''UTC'' = Inr UTC" "Parse ''*/1 * * * *'' = Inr nxt" "cron_next nxt A" "prompt E"
    "A UTC = {x. Minute dvd x}"
  shows "\<exists>out. demo_tickers E Local LoadLocation Parse 7 = (Completed, out) \<and> ticker_lines \<subseteq> set out"
proof -
  define t where "t = TickerCore.extend (new_core (Now E 7)) (CronTicker.fields ''*/1 * * * *'' demoConfig nxt UTC)"
  have new: "NewCronTicker LoadLocation Parse (Now E 7) ''*/1 * * * *'' demoConfig = Inr t"
    using assms(1,2) by (simp add: NewCronTicker_def t_def)
  have t: "Next t = nxt" "config t = demoConfig" "location t = UTC"
    by (simp_all add: t_def TickerCore.extend_def CronTicker.fields_def new_core_def)
  have reg: "cron_regular A UTC I" for I
    using periodic_next(2) [of Minute "\<lambda>l. 0" UTC I] assms(5) by (simp add: cron_regular_def search_limit_def)
  let ?s = "now_at E Local (7 + 1)" and ?e = "Add (now_at E Local (7 + 1)) (1 * word_of_int Hour)"
  have e: "instant ?e = instant ?s + Hour" using durations_exact(1) by (simp del: mult_1)
  let ?S = "{x. Minute dvd x \<and> instant ?s < x \<and> x \<le> instant ?s + Hour}"
  have fin: "finite ?S" by (rule finite_subset [of _ "{instant ?s .. instant ?s + Hour}"]) auto
  have "card {x \<in> {x. Minute dvd x}. instant ?s < x \<and> x < instant ?e} \<le> card ?S"
    unfolding e by (rule card_mono [OF fin]) auto
  then have few: "\<not> 1 + int (card {x \<in> {x. Minute dvd x}. instant ?s < x \<and> x < instant ?e}) > 10000"
    using minutes_in_hour [of "instant ?s"] by simp
  have set_eq: "{x \<in> {x. Minute dvd x}. instant ?s < x \<and> x \<le> instant ?e \<and> withinWindow (config t) (at_location (location t) x)} = ?S"
    unfolding e t(2) by auto
  let ?occs = "map (at_location (location t)) (sorted_list_of_set ?S)"
  have g: "Cron_GetOccurrencesBetween t ?s ?e = Inr ?occs"
    using cron_occurrences [of t A ?s ?e] assms(3) reg few unfolding t(1,3) assms(5) set_eq [unfolded t(3)] by simp
  have c: "decimal (int (length ?occs)) = ''60''"
  proof -
    have "length ?occs = 60" using minutes_in_hour [of "instant ?s"] by simp
    moreover have "decimal 60 = ''60''" by code_simp
    ultimately show ?thesis by simp
  qed
  have "Now E 12 < Now E 11 + 5 * Second" "Now E 11 \<le> Now E 13" "Now E 8 \<le> Now E 9" "Now E 9 < Now E 8 + 5 * Second"
    using promptD [OF assms(4), of 11 12] promptD [OF assms(4), of 11 13] promptD [OF assms(4), of 8 9] by simp_all
  then have once: "\<exists>out. demo_once E Local LoadLocation (9 + 2) = (Completed, out) \<and> Text ''   Occurrences: 1'' \<in> set out"
    and iso: "instant ?s \<le> Now E 9" "Now E 9 < instant ?s + 5 * Second"
    using demo_once_finishes [of LoadLocation E 11 Local] assms(1) by (simp_all add: now_at_def)
  from demo_iso_finishes [of LoadLocation, OF assms(1) iso e once] obtain out where
    "demo_iso E Local LoadLocation ?s ?e (7 + 2) = (Completed, out)"
    "{Text ''   Total occurrences: 5 (limited by repetitions)'', Text ''   Occurrences: 1''} \<subseteq> set out" by auto
  then show ?thesis
    unfolding demo_tickers_def Let_def new sum.case g prod.case ticker_lines_def count_line_def c by auto
qed

subsection \<open>Property\<close>

lemma empty_contents: "keys_ok Map.empty" "abs_of Map.empty = empty_astore"
  by (simp_all add: keys_ok_def abs_of_def decode_def empty_astore_def fun_eq_iff)

text \<open>
  C35. The demonstration program runs to its end: if the database opens empty in the fresh directory and
  does not fail, the expression parses to the minutes of the clock and the program reads its clock
  within five seconds, then no call ends it early, the second creation of the occurrence is rejected
  with the error that it exists, the tickers announce 60, 5 and 1 occurrences, and the store that is
  closed at the end holds exactly the job, the task and the occurrence the program made.
\<close>

theorem demo_completes:
  assumes "badger_db_reliable B contents" "badger_Open P (Logger_nil P (DefaultOptions P (demoPath (Now E 0)))) d = (Inr s, d1)"
    "contents s = Map.empty" "uuid_text (NewSHA1 E)" "clock_ok E" "prompt E"
    "LoadLocation ''UTC'' = Inr UTC" "Parse ''*/1 * * * *'' = Inr nxt" "cron_next nxt A" "A UTC = {x. Minute dvd x}"
  shows "\<exists>out s' d2. demo_main E Local LoadLocation Parse P B d = (Completed, out, Some s', d2)
    \<and> insert (duplicate_line E) ticker_lines \<subseteq> set out
    \<and> keys_ok (contents s') \<and> abs_of (contents s') = demo_stored E 1 \<and> d2 = snd (db_Close P s' d1)"
proof -
  from reliable_storage.demo_storage_run [OF badger_db_reliable.implements_reliable_storage [OF assms(1)] assms(4,5), of s 1]
  obtain out2 s' where st: "demo_storage E (BadgerStorage B) 1 s = (None, out2 @ [duplicate_line E, Text ''''], s')"
      "keys_ok (contents s')" "abs_of (contents s') = demo_stored E 1"
    using assms(3) empty_contents by auto
  obtain out3 where "demo_tickers E Local LoadLocation Parse 7 = (Completed, out3)" "ticker_lines \<subseteq> set out3"
    using demo_tickers_finish [of LoadLocation Parse nxt A E Local] assms(6-10) by blast
  then show ?thesis
    using st assms(2) by (auto simp: demo_main_def NewBadgerStorage_def BadgerStorage_Close_def)
qed

text \<open>The package on files kept in memory, and the cron expression with the minutes of the clock.\<close>

definition mem_pkg :: "(string, unit, mem) badger_pkg" where
  "mem_pkg = \<lparr>DefaultOptions = (\<lambda>path. path), Logger_nil = (\<lambda>opts. opts), badger_Open = (\<lambda>opts d. (Inr [], d)),
     db_Close = (\<lambda>db d. (None, d))\<rparr>"

theorem demo_completes_witness:
  "\<exists>out s'. demo_main sample_env 1 (\<lambda>z. Inr UTC) (\<lambda>e. Inr every_minute) mem_pkg mem_db () = (Completed, out, Some s', ())
     \<and> Text ''   Occurrences in next hour: 60'' \<in> set out \<and> abs_of (map_of s') = demo_stored sample_env 1"
proof -
  have "prompt sample_env" by (simp add: prompt_def sample_env_def)
  from demo_completes [of mem_db map_of mem_pkg sample_env "()" "[]" "()" "\<lambda>z. Inr UTC" "\<lambda>e. Inr every_minute" every_minute "\<lambda>l. {x. Minute dvd x}" 1,
      OF mem.badger_db_reliable_axioms _ _ sample_env_ok this _ _ every_minute_next]
  show ?thesis by (auto simp: mem_pkg_def ticker_lines_def)
qed

end
