(* ===== verification/Spec2Isabelle.thy ===== *)
theory Spec2Isabelle
  imports Cluster Hash Demo
begin

text \<open>
  A verification development for the job scheduler in this repository (Go, package
  \<^verbatim>\<open>jobistemer\<close>, files under \<^verbatim>\<open>src/\<close>).

  \<^bold>\<open>The program.\<close> A scheduler (\<^verbatim>\<open>scheduler/\<close>) keeps jobs, each a list of tasks with a ticker. A ticker
  (\<^verbatim>\<open>ticker/\<close>: cron, one-time, interval) emits scheduled times on a channel; a watcher goroutine per job
  receives them, creates the record of the occurrence in the store under an identifier computed from
  job and time (\<^verbatim>\<open>id/\<close>), and, if no other node was first, submits its execution to a worker pool
  (\<^verbatim>\<open>concurrency/\<close>). The executor (\<^verbatim>\<open>executor/\<close>) runs the tasks sequentially or in parallel, with
  retries, and records runs and attempts. The store is an interface (\<^verbatim>\<open>storage/\<close>) with a BadgerDB
  implementation. At start, the recovery handler (\<^verbatim>\<open>recovery/\<close>) runs what was missed; a reaper marks
  occurrences that run too long as failed; the update manager (\<^verbatim>\<open>update/\<close>) applies versioned updates;
  collectors count what happens (\<^verbatim>\<open>metrics/\<close>).

  \<^bold>\<open>The theories, and the code they model.\<close>

    \<^item> \<open>Prelude\<close>: errors as values, strings, numerals in decimal, words; \<open>GoTime\<close>: the part of package \<^verbatim>\<open>time\<close>
      that is used, durations as 64-bit words, the calendar and RFC 3339.
    \<^item> \<open>Ids\<close> and \<open>Hash\<close> (\<^verbatim>\<open>id/id.go\<close>): the identifiers, and \<^verbatim>\<open>HashString\<close> with SHA-256 on 32-bit words. \<open>Types\<close> (\<^verbatim>\<open>types.go\<close>, \<^verbatim>\<open>job.go\<close>).
    \<^item> \<open>KeyPaths\<close>, \<open>StorageInterface\<close> (\<^verbatim>\<open>storage/storage.go\<close>): the key schema, the stored records, the interface as
      a record of functions, and its contract as the locales \<open>storage\<close> (any backend, failures included)
      and \<open>reliable_storage\<close> (a backend that does not fail), over five abstract maps. \<open>Json\<close>: documents
      and their decoding.
    \<^item> \<open>Badger\<close>, \<open>BadgerFamilies\<close>, \<open>BadgerRefinement\<close>, \<open>BadgerContract\<close> (\<^verbatim>\<open>storage/badger/badger.go\<close>): the
      methods over a key-value database with transactions, which is a parameter (locales \<open>badger_db\<close> and
      \<open>badger_db_reliable\<close>); they implement the contract through an abstraction function from keys and
      documents to the maps. \<open>MemoryDB\<close> is a database that meets the hypotheses, used by witnesses.
      \<open>StorageProperties\<close>: the properties of the store.
    \<^item> \<open>Metrics\<close> (\<^verbatim>\<open>metrics/metrics.go\<close>).
    \<^item> \<open>Executor\<close> (\<^verbatim>\<open>executor/executor.go\<close>) with \<open>ExecutorFacts\<close>, \<open>ExecutorStore\<close>, \<open>ExecutorProperties\<close>,
      \<open>ExecutionFrame\<close>: one attempt, the retry loop, both modes; what they report and record, and what they
      leave alone.
    \<^item> \<open>Ticker\<close>, \<open>CronTicker\<close>, \<open>OnceTicker\<close>, \<open>ISO8601Ticker\<close>, \<open>TickerInterface\<close> (\<^verbatim>\<open>ticker/\<close>): every method, the
      loops as state machines, and the contract of the listed occurrences as the locale \<open>schedule\<close>.
    \<^item> \<open>Pool\<close> (\<^verbatim>\<open>concurrency/pool.go\<close>): workers, callers and \<^verbatim>\<open>Stop\<close> as a state machine.
    \<^item> \<open>Recovery\<close> (\<^verbatim>\<open>recovery/recovery.go\<close>), \<open>Reaper\<close> (\<^verbatim>\<open>recovery/reaper.go\<close>), \<open>Update\<close> (\<^verbatim>\<open>update/update.go\<close>), with
      \<open>OccurrenceRewrite\<close> for what the latter two share: rewriting a set of stored occurrences.
    \<^item> \<open>Scheduler\<close> (\<^verbatim>\<open>scheduler/scheduler.go\<close>): every method. \<open>SchedulerTriggers\<close>: a trigger; \<open>SchedulerJobs\<close>: registering
      and updating; \<open>ClockOrder\<close>: the number of clock readings an execution makes; \<open>SchedulerStart\<close>: recovery at
      start and the watched jobs; \<open>SchedulerLife\<close>: the scheduler with all its goroutines as a state machine.
    \<^item> \<open>StoreCalls\<close>: the operations of the program as sequences of single storage calls. \<open>Cluster\<close>: several nodes
      on one store, interleaved at those calls, that may stop and be replaced at any point.
    \<^item> \<open>Demo\<close> (\<^verbatim>\<open>examples/phase1-3-demo.go\<close>): the demonstration program, with opening and closing the BadgerDB
      storage (\<^verbatim>\<open>NewBadgerStorage\<close>, \<^verbatim>\<open>Close\<close>), which only it calls.

  \<^bold>\<open>State and effects.\<close> A struct is a record with the fields of the struct; methods return the changed
  record. What is shared by the components at run time is a \<open>World\<close>: the state of the store and of the
  metrics collector, and how often the clock and the contexts were read; the readings themselves are an
  environment \<open>Env\<close>, arbitrary functions of the number of the reading. Errors are values, a panic is
  \<open>None\<close> or a crash flag. Goroutines are program counters in the state of their component, and a step
  is one branch of a select or the code between two of them; a closed channel is a flag, a buffered
  channel a list. Map iteration takes the order of the keys as an argument.

  \<^bold>\<open>What is shown.\<close> The store implements its contract on any database that behaves as documented.
  Identifiers and keys collide only for the same entity. An execution
  makes the attempts its policy allows and leaves the store in agreement with its report, for every
  interleaving of parallel tasks, touching only its own records. Tickers list exactly the times of
  their schedule within the window; they emit only such times, never early, and in order while started
  once (that every time is emitted is not shown: a full channel drops it). For the cron ticker the times are
  those of its time zone, and an expression must have an activation every five years; what happens
  with one that has none is a property of its own. A pause holds the cron loop and a resume
  restores it, unless it comes too early; the one-time loop stays paused. The pool is bounded, loses no
  accepted task, and makes progress. Recovery, reaper and updates change exactly the records they name. In
  a cluster no two executions are ever started for one occurrence, for all interleavings of all
  operations, failures of the database and losses of nodes, and each whole operation of a node is
  such an interleaving. A trigger is dropped exactly under the Skip policy or for a
  recorded occurrence; a start recovers exactly what the strategies select, of paused jobs too, and
  watches exactly the active jobs that are not paused, or fails with the error of the first ticker
  that cannot list what was missed; over its life a scheduler never runs more occurrences than configured. A
  hash is 64 hexadecimal digits; the demonstration runs to its end. The
  properties are the theorems whose text begins with C and a number.

  \<^bold>\<open>Bounds and termination.\<close> The loops that list occurrences stop after 10000 iterations, as in the
  code; the retry loop ends by its bound; the parallel group is run by a schedule, a list of goroutine
  numbers, and is shown to end under every schedule that gives each goroutine enough turns. There is
  no fuel elsewhere. \<open>Submit_alone\<close> is the part of \<^verbatim>\<open>Submit\<close> that does not wait for another goroutine;
  it is shown to be a sequence of steps of the pool.

  \<^bold>\<open>Parameters.\<close> The database and the package that opens it, the UUID package (\<open>uuid_text\<close>: identifiers are text without slashes of
  length 36), the cron package (\<open>cron_next\<close>: the earliest activation after a time, among those of the
  location of that time, or the zero time if none is found within five years), the time zone
  database, the conversion of a floating-point number out of range to an integer (\<open>OutOfRange\<close>), and the
  task functions, whose outcome may depend on the attempt.

  \<^bold>\<open>Not modelled.\<close> The tests; panics inside task functions; the rounding of the floating-point backoff,
  which is computed exactly; the contexts passed to the storage, which ignores them; the \<^verbatim>\<open>Transaction\<close>
  field of a trigger, which nothing sets; data races on a job that is updated while it is executed.
  Documents are trees whose leaves are the values themselves: strings are taken to be valid UTF-8
  (the encoder replaces other bytes), the text of byte slices and times is left out, and whether the year
  of a time can be encoded is judged in UTC, not in its own location (which differs only within a
  day of the years 0 and 9999); stored times are instants. The encoding
  of a configuration at registration and trigger cannot fail here, since a backoff factor is a rational and
  not infinite or \<^verbatim>\<open>NaN\<close>. Counts of type \<^verbatim>\<open>int\<close> (\<^verbatim>\<open>MaxRetries\<close>, \<^verbatim>\<open>Order\<close>, \<^verbatim>\<open>RetryCount\<close>, \<^verbatim>\<open>runCount\<close>, the capacity
  of the queue) are not followed beyond 64 bits; durations, versions and metrics are words. A reaper with
  an interval that is not positive panics in its own goroutine: \<open>Reaper_Start\<close> sets the crash flag and
  the caller goes on, where the process may end at any point after.
\<close>

end
